(* ===== verification/Prelude.thy ===== *)
theory Prelude
  imports Complex_Main "HOL-Library.Word"
begin

text \<open>
  Shared vocabulary of the development: bytes, the status codes of
  \<^verbatim>\<open>include/reticulum/status.h\<close>, C doubles, big-endian integers, and the list, word and
  arithmetic lemmas that the component theories use.

  Conventions of every component theory:
  \<^item> a pointer argument that the code requires to be non-null is a value of the model, so its
    null test has no counterpart; a pointer that may legitimately be null is an \<open>option\<close>;
  \<^item> a fixed-size array is a list whose length is stated by the component's well-formedness
    predicate; an output buffer is the list of bytes written to it, next to its capacity;
  \<^item> allocation succeeds (\<^verbatim>\<open>RNS_ERROR_NO_MEMORY\<close> paths are not modelled), and
    \<^verbatim>\<open>size_t\<close> has 64 bits;
  \<^item> a clock callback is the reading it returns, passed as an argument; another callback is a
    function on an explicit context value.
\<close>

unbundle bit_operations_syntax

section \<open>Named collections\<close>

named_theorems bytes_at_simps \<open>reading fixed offsets of byte strings\<close>
named_theorems be_simps \<open>big-endian integers\<close>

section \<open>Bytes, sizes and status codes\<close>

type_synonym byte = "8 word"
type_synonym bytes = "byte list"
type_synonym u16 = "16 word"
type_synonym u32 = "32 word"
type_synonym u64 = "64 word"

datatype rns_status =
    RNS_OK
  | RNS_ERROR_INVALID_ARGUMENT
  | RNS_ERROR_NO_MEMORY
  | RNS_ERROR_IO
  | RNS_ERROR_TIMEOUT
  | RNS_ERROR_CRYPTO
  | RNS_ERROR_PROTOCOL
  | RNS_ERROR_NOT_FOUND
  | RNS_ERROR_INVALID_STATE
  | RNS_ERROR_UNSUPPORTED
  | RNS_ERROR_OVERFLOW
  | RNS_ERROR_QUARANTINED

definition SIZE_MAX :: nat where
  "SIZE_MAX = 18446744073709551615"

section \<open>Doubles\<close>

text \<open>
  A double is a finite rational or one of the three special values (the sign of zero is not
  observable in the modelled code). Comparisons with a NaN are false, as in C. A finite sum,
  difference or product is the exact one passed through a rounding function, a parameter of the
  definitions that compute with doubles: nothing is assumed about it except where a theorem says so.
\<close>

datatype double = Fin rat | PInf | NInf | NaN

type_synonym rounding = "rat \<Rightarrow> double"

fun isfinite :: "double \<Rightarrow> bool" where
  "isfinite (Fin _) = True"
| "isfinite _ = False"

fun dlt :: "double \<Rightarrow> double \<Rightarrow> bool" where
  "dlt (Fin x) (Fin y) = (x < y)"
| "dlt (Fin _) PInf = True"
| "dlt (Fin _) _ = False"
| "dlt NInf (Fin _) = True"
| "dlt NInf PInf = True"
| "dlt NInf _ = False"
| "dlt PInf _ = False"
| "dlt NaN _ = False"

fun dle :: "double \<Rightarrow> double \<Rightarrow> bool" where
  "dle (Fin x) (Fin y) = (x \<le> y)"
| "dle (Fin _) PInf = True"
| "dle (Fin _) _ = False"
| "dle NInf NaN = False"
| "dle NInf _ = True"
| "dle PInf PInf = True"
| "dle PInf _ = False"
| "dle NaN _ = False"

abbreviation (input) dge :: "double \<Rightarrow> double \<Rightarrow> bool" where
  "dge x y \<equiv> dle y x"

abbreviation (input) dgt :: "double \<Rightarrow> double \<Rightarrow> bool" where
  "dgt x y \<equiv> dlt y x"

fun dneg :: "double \<Rightarrow> double" where
  "dneg (Fin x) = Fin (- x)"
| "dneg PInf = NInf"
| "dneg NInf = PInf"
| "dneg NaN = NaN"

fun dadd :: "rounding \<Rightarrow> double \<Rightarrow> double \<Rightarrow> double" where
  "dadd rnd (Fin x) (Fin y) = rnd (x + y)"
| "dadd rnd (Fin _) y = y"
| "dadd rnd PInf (Fin _) = PInf"
| "dadd rnd PInf PInf = PInf"
| "dadd rnd PInf _ = NaN"
| "dadd rnd NInf (Fin _) = NInf"
| "dadd rnd NInf NInf = NInf"
| "dadd rnd NInf _ = NaN"
| "dadd rnd NaN _ = NaN"

definition dsub :: "rounding \<Rightarrow> double \<Rightarrow> double \<Rightarrow> double" where
  "dsub rnd x y = dadd rnd x (dneg y)"

definition dmul_nonneg :: "rounding \<Rightarrow> rat \<Rightarrow> double \<Rightarrow> double" where
  \<comment> \<open>a finite non-negative factor times a double, as in \<^verbatim>\<open>(double)hops * timeout\<close>\<close>
  "dmul_nonneg rnd k x =
     (case x of Fin y \<Rightarrow> rnd (k * y)
      | NaN \<Rightarrow> NaN
      | _ \<Rightarrow> (if k = 0 then NaN else x))"

lemma dlt_irrefl [simp]: "\<not> dlt x x"
  by (cases x) auto

lemma dlt_trans: "dlt x y \<Longrightarrow> dlt y z \<Longrightarrow> dlt x z"
  by (cases x; cases y; cases z) auto

lemma dlt_imp_dle: "dlt x y \<Longrightarrow> dle x y"
  by (cases x; cases y) auto

lemma dle_not_dlt: "dle x y \<Longrightarrow> \<not> dlt y x"
  by (cases x; cases y) auto

lemma not_dle_dlt_finite:
  "isfinite x \<Longrightarrow> y \<noteq> NaN \<Longrightarrow> (\<not> dle y x) = dlt x y"
  by (cases x; cases y) auto

lemma dlt_dle_trans: "dlt x y \<Longrightarrow> dle y z \<Longrightarrow> dlt x z"
  by (cases x; cases y; cases z) auto

lemma dle_dlt_trans: "dle x y \<Longrightarrow> dlt y z \<Longrightarrow> dlt x z"
  by (cases x; cases y; cases z) auto

lemma isfiniteE:
  assumes "isfinite x" obtains r where "x = Fin r"
  using assms by (cases x) auto

section \<open>Slices of byte strings\<close>

definition bytes_at :: "nat \<Rightarrow> nat \<Rightarrow> 'a list \<Rightarrow> 'a list" where
  "bytes_at off n xs = take n (drop off xs)"

lemma bytes_at_0 [simp, bytes_at_simps]: "bytes_at 0 n xs = take n xs"
  by (simp add: bytes_at_def)

lemma length_bytes_at [simp]: "length (bytes_at off n xs) = min n (length xs - off)"
  by (simp add: bytes_at_def)

lemma bytes_at_append_skip [bytes_at_simps]:
  "length xs \<le> off \<Longrightarrow> bytes_at off n (xs @ ys) = bytes_at (off - length xs) n ys"
  by (simp add: bytes_at_def)

lemma bytes_at_append_left [bytes_at_simps]:
  "off + n \<le> length xs \<Longrightarrow> bytes_at off n (xs @ ys) = bytes_at off n xs"
  by (simp add: bytes_at_def)

lemma bytes_at_Cons [bytes_at_simps]:
  "0 < off \<Longrightarrow> bytes_at off n (x # xs) = bytes_at (off - 1) n xs"
  by (cases off) (simp_all add: bytes_at_def)

lemma bytes_at_full [bytes_at_simps]: "length xs \<le> n \<Longrightarrow> bytes_at 0 n xs = xs"
  by simp

lemma bytes_at_bytes_at:
  "a + m \<le> n \<Longrightarrow> bytes_at a m (bytes_at off n xs) = bytes_at (off + a) m xs"
  by (simp add: bytes_at_def drop_take take_take drop_drop add.commute min_absorb1)

lemma bytes_at_append_bytes_at:
  "bytes_at off n xs @ bytes_at (off + n) m xs = bytes_at off (n + m) xs"
  by (simp add: bytes_at_def take_add add.commute [of off])

lemma take_bytes_at_drop:
  "off + n \<le> length xs \<Longrightarrow> take off xs @ bytes_at off n xs @ drop (off + n) xs = xs"
  by (metis append_take_drop_id drop_drop add.commute bytes_at_def)

lemma bytes_at_concat:
  assumes "\<forall>b \<in> set bs. length b = k" "i < length bs"
  shows "bytes_at (i * k) k (concat bs @ rest) = bs ! i"
  using assms
proof (induction bs arbitrary: i)
  case Nil
  then show ?case by simp
next
  case (Cons b bs)
  then show ?case by (cases i) (simp_all add: bytes_at_def add.commute)
qed

lemma length_concat_fixed: "\<forall>b \<in> set bs. length b = k \<Longrightarrow> length (concat bs) = length bs * k"
  by (induction bs) auto

lemma take_Suc_list_update [simp]:
  "n < length xs \<Longrightarrow> take (Suc n) (xs[n := x]) = take n xs @ [x]"
  by (simp add: take_Suc_conv_app_nth)

section \<open>Searching tables\<close>

text \<open>The index of the first slot with a property.\<close>

fun first_index :: "('e \<Rightarrow> bool) \<Rightarrow> 'e list \<Rightarrow> nat option" where
  "first_index matches [] = None"
| "first_index matches (e # es) = (if matches e then Some 0 else map_option Suc (first_index matches es))"

lemma first_index_SomeD:
  "first_index Q es = Some i \<Longrightarrow> i < length es \<and> Q (es ! i) \<and> (\<forall>j < i. \<not> Q (es ! j))"
proof (induction es arbitrary: i)
  case Nil
  then show ?case by simp
next
  case (Cons e es)
  show ?case
  proof (cases "Q e")
    case True
    with Cons.prems show ?thesis by simp
  next
    case False
    with Cons.prems obtain k where "first_index Q es = Some k" "i = Suc k" by auto
    with Cons.IH False show ?thesis by (auto simp: less_Suc_eq_0_disj)
  qed
qed

lemma first_index_None_iff: "first_index Q es = None \<longleftrightarrow> (\<forall>e \<in> set es. \<not> Q e)"
  by (induction es) auto

lemma first_index_unique:
  assumes "i < length es" "Q (es ! i)" "\<And>j. j < length es \<Longrightarrow> Q (es ! j) \<Longrightarrow> j = i"
  shows "first_index Q es = Some i"
proof (cases "first_index Q es")
  case None
  with assms(1,2) show ?thesis by (auto simp: first_index_None_iff)
next
  case (Some k)
  with first_index_SomeD [OF Some] assms(3) show ?thesis by blast
qed

lemma first_index_insert:
  assumes "\<forall>e \<in> set es. \<not> Q e" "i < length es" "Q x"
  shows "first_index Q (es[i := x]) = Some i"
  using assms by (intro first_index_unique) (auto simp: nth_list_update split: if_splits)

text \<open>No key occurs in two occupied slots.\<close>

definition distinct_keys :: "('e \<Rightarrow> bool) \<Rightarrow> ('e \<Rightarrow> 'k) \<Rightarrow> 'e list \<Rightarrow> bool" where
  "distinct_keys occupied key es \<longleftrightarrow>
     (\<forall>i < length es. \<forall>j < length es.
        occupied (es ! i) \<longrightarrow> occupied (es ! j) \<longrightarrow> key (es ! i) = key (es ! j) \<longrightarrow> i = j)"

lemma distinct_keys_update:
  assumes "distinct_keys occupied key es"
    and "\<And>j. j < length es \<Longrightarrow> j \<noteq> i \<Longrightarrow> occupied (es ! j) \<Longrightarrow> occupied x \<Longrightarrow> key (es ! j) \<noteq> key x"
  shows "distinct_keys occupied key (es[i := x])"
  unfolding distinct_keys_def
proof (intro allI impI)
  fix k j
  assume kj: "k < length (es[i := x])" "j < length (es[i := x])" "occupied (es[i := x] ! k)"
    "occupied (es[i := x] ! j)" "key (es[i := x] ! k) = key (es[i := x] ! j)"
  show "k = j"
  proof (cases "k = i \<or> j = i")
    case True
    with kj assms(2) [of j] assms(2) [of k] show ?thesis by (auto simp: nth_list_update split: if_splits)
  next
    case False
    with kj assms(1) show ?thesis by (auto simp: distinct_keys_def)
  qed
qed

lemma distinct_keys_clear:
  "distinct_keys occupied key es \<Longrightarrow> (\<And>e. \<not> occupied (f e) \<or> f e = e) \<Longrightarrow>
     distinct_keys occupied key (map f es)"
  by (auto simp: distinct_keys_def) metis

lemma distinct_keys_index:
  assumes "distinct_keys occupied key es" "i < length es" "occupied (es ! i)" "key (es ! i) = k"
  shows "first_index (\<lambda>e. occupied e \<and> key e = k) es = Some i"
  using assms by (intro first_index_unique) (auto simp: distinct_keys_def)

lemma distinct_keys_Cons:
  "distinct_keys occupied key (e # es) \<longleftrightarrow>
     distinct_keys occupied key es \<and> (occupied e \<longrightarrow> (\<forall>f \<in> set es. occupied f \<longrightarrow> key f \<noteq> key e))"
  unfolding distinct_keys_def
  by (auto simp add: All_less_Suc2 all_set_conv_all_nth)

lemma distinct_keys_filter: "distinct_keys occupied key es \<longleftrightarrow> distinct (map key (filter occupied es))"
proof (induction es)
  case Nil
  then show ?case by (simp add: distinct_keys_def)
next
  case (Cons e es)
  have "key e \<notin> key ` {x \<in> set es. occupied x} \<longleftrightarrow> (\<forall>f \<in> set es. occupied f \<longrightarrow> key f \<noteq> key e)"
    unfolding image_iff by fastforce
  with Cons show ?case by (simp add: distinct_keys_Cons conj_commute)
qed

lemma distinct_keys_map:
  assumes "distinct_keys occupied key es" "\<And>e. keep e \<Longrightarrow> occupied e"
  shows "distinct (map key (filter keep es))"
proof -
  have "filter keep es = filter keep (filter occupied es)"
    using assms(2) by (auto intro: filter_cong)
  then show ?thesis
    using assms(1) distinct_map_filter [of key "filter occupied es" keep] by (simp add: distinct_keys_filter)
qed

section \<open>Big-endian integers\<close>

text \<open>
  The loops \<^verbatim>\<open>value = (value << 8) | byte\<close> and \<^verbatim>\<open>out[i] = (uint8_t)(value >> 8 * k)\<close> that
  every codec of the program repeats under a name of its own (\<^verbatim>\<open>put_u16\<close>,
  \<^verbatim>\<open>put32\<close>, \<^verbatim>\<open>write64\<close>, \<^verbatim>\<open>get_u32\<close>, \<^verbatim>\<open>read_u16\<close>, ...).
\<close>

definition be_get :: "bytes \<Rightarrow> 'a::len word" where
  "be_get bs = foldl (\<lambda>acc b. push_bit 8 acc OR ucast b) 0 bs"

fun be_put :: "nat \<Rightarrow> 'a::len word \<Rightarrow> bytes" where
  "be_put 0 v = []"
| "be_put (Suc n) v = ucast (drop_bit (8 * n) v) # be_put n v"

lemma length_be_put [simp]: "length (be_put n v) = n"
  by (induction n) auto

lemma be_get_Nil [simp]: "be_get [] = 0"
  by (simp add: be_get_def)

lemma be_get_snoc [simp]: "be_get (bs @ [b]) = push_bit 8 (be_get bs) OR ucast b"
  by (simp add: be_get_def)

lemma be_get_foldl_put:
  "foldl (\<lambda>acc b. push_bit 8 acc OR ucast b) a (be_put n v) =
     push_bit (8 * n) a OR take_bit (8 * n) (v :: 'a::len word)"
proof (induction n arbitrary: a)
  case 0
  then show ?case by simp
next
  case (Suc n)
  have "push_bit (8 * n) (push_bit 8 a OR ucast (ucast (drop_bit (8 * n) v) :: byte))
      OR take_bit (8 * n) v = push_bit (8 * Suc n) a OR take_bit (8 * Suc n) v"
    by (rule bit_word_eqI) (auto simp: bit_simps add.commute)
  then show ?case by (simp add: Suc.IH)
qed

lemma be_get_put: "be_get (be_put n v) = take_bit (8 * n) (v :: 'a::len word)"
  by (simp add: be_get_def be_get_foldl_put)

lemma be_get_put_full [be_simps, simp]:
  "LENGTH('a) \<le> 8 * n \<Longrightarrow> be_get (be_put n v) = (v :: 'a::len word)"
  by (simp add: be_get_put take_bit_word_eq_self)

lemma be_get_foldl:
  "foldl (\<lambda>acc b. push_bit 8 acc OR ucast b) a bs = push_bit (8 * length bs) a OR (be_get bs :: 'a::len word)"
proof (induction bs rule: rev_induct)
  case Nil
  then show ?case by simp
next
  case (snoc b bs)
  then show ?case by (simp add: be_get_def push_bit_or or.assoc)
qed

lemma be_get_Cons: "be_get (b # bs) = push_bit (8 * length bs) (ucast b) OR (be_get bs :: 'a::len word)"
  using be_get_foldl [of "ucast b" bs] by (simp add: be_get_def)

lemma be_get_bound: "take_bit (8 * length bs) (be_get bs) = (be_get bs :: 'a::len word)"
proof (induction bs rule: rev_induct)
  case Nil
  then show ?case by simp
next
  case (snoc b bs)
  have "take_bit (8 * length (bs @ [b])) (push_bit 8 (be_get bs) OR ucast b :: 'a word) =
      push_bit 8 (take_bit (8 * length bs) (be_get bs)) OR ucast b"
    by (rule bit_word_eqI) (auto simp: bit_simps dest: bit_imp_le_length)
  with snoc show ?case by simp
qed

lemma be_put_low:
  "take_bit (8 * n) v = take_bit (8 * n) (w :: 'a::len word) \<Longrightarrow> be_put n v = be_put n w"
proof (induction n)
  case 0
  then show ?case by simp
next
  case (Suc n)
  have bits: "bit v k = bit w k" if "k < 8 * Suc n" "k < LENGTH('a)" for k
    using arg_cong [OF Suc.prems, of "\<lambda>x. bit x k"] that by (simp add: bit_simps)
  have "take_bit (8 * n) v = take_bit (8 * n) w"
    by (rule bit_word_eqI) (use bits in \<open>auto simp: bit_simps\<close>)
  moreover have "(ucast (drop_bit (8 * n) v) :: byte) = ucast (drop_bit (8 * n) w)"
    by (rule bit_word_eqI) (use bits bit_imp_le_length in \<open>force simp: bit_simps\<close>)
  ultimately show ?case using Suc.IH by simp
qed

lemma be_put_get:
  "8 * length bs \<le> LENGTH('a) \<Longrightarrow> be_put (length bs) (be_get bs :: 'a::len word) = bs"
proof (induction bs)
  case Nil
  then show ?case by simp
next
  case (Cons b bs)
  have "(ucast (drop_bit (8 * length bs) (push_bit (8 * length bs) (ucast b) OR be_get bs :: 'a word)) :: byte) =
      ucast (drop_bit (8 * length bs) (push_bit (8 * length bs) (ucast b) OR take_bit (8 * length bs) (be_get bs) :: 'a word))"
    by (simp add: be_get_bound)
  also have "\<dots> = b"
    by (rule bit_word_eqI) (use Cons.prems in \<open>auto simp: bit_simps\<close>)
  finally have "(ucast (drop_bit (8 * length bs) (be_get (b # bs) :: 'a word)) :: byte) = b"
    by (simp add: be_get_Cons)
  moreover have "be_put (length bs) (be_get (b # bs) :: 'a word) = be_put (length bs) (be_get bs :: 'a word)"
    by (rule be_put_low) (auto simp: be_get_Cons bit_eq_iff bit_simps)
  ultimately show ?case using Cons by simp
qed

lemma unat_of_nat_byte: "n < 256 \<Longrightarrow> unat (of_nat n :: byte) = n"
  by (simp add: unsigned_of_nat take_bit_nat_eq_self_iff)

lemma drop_eq_bytes_at_nth:
  assumes "n + k < length xs"
  shows "drop n xs = bytes_at n k xs @ xs ! (n + k) # drop (Suc (n + k)) xs"
proof -
  have "drop n xs = bytes_at n k xs @ drop (n + k) xs"
    by (metis add.commute append_take_drop_id bytes_at_def drop_drop)
  with assms show ?thesis by (simp add: Cons_nth_drop_Suc)
qed

lemma drop_eq_bytes_at: "drop n xs = bytes_at n k xs @ drop (n + k) xs"
  by (metis add.commute append_take_drop_id bytes_at_def drop_drop)

text \<open>Enumerating the bytes below a bound, so that a fact about all of them can be evaluated.\<close>

lemma take_Cons_numeral:
  "2 \<le> length bs \<Longrightarrow> take 2 bs = [bs ! 0, bs ! 1]"
  "4 \<le> length bs \<Longrightarrow> take 4 bs = [bs ! 0, bs ! 1, bs ! 2, bs ! 3]"
  by (rule nth_equalityI; auto simp: less_Suc_eq eval_nat_numeral)+

lemma byte_below:
  fixes b :: byte
  assumes "unat b < n"
  shows "b \<in> set (map of_nat [0..<n])"
proof -
  have "b = of_nat (unat b)" by simp
  with assms show ?thesis by (metis atLeastLessThan_iff image_eqI set_map set_upt zero_le)
qed

section \<open>Codecs\<close>

text \<open>
  The contract of a wire or storage format: what is encoded from a valid value decodes to it. In a
  canonical format, moreover, only the encoder's output decodes, so a value has one encoding.
\<close>

locale codec =
  fixes encode :: "'a \<Rightarrow> bytes option" and decode :: "bytes \<Rightarrow> 'a option" and valid :: "'a \<Rightarrow> bool"
  assumes decode_encode: "valid x \<Longrightarrow> encode x = Some raw \<Longrightarrow> decode raw = Some x"
begin

lemma encode_inject:
  "valid x \<Longrightarrow> valid y \<Longrightarrow> encode x = Some raw \<Longrightarrow> encode y = Some raw \<Longrightarrow> x = y"
  by (metis decode_encode option.inject)

end

locale canonical_codec = codec +
  fixes canonical :: "bytes \<Rightarrow> bool"
  assumes encode_decode: "canonical raw \<Longrightarrow> decode raw = Some x \<Longrightarrow> valid x \<and> encode x = Some raw"
begin

lemma decode_inject:
  "canonical raw \<Longrightarrow> canonical raw' \<Longrightarrow> decode raw = Some x \<Longrightarrow> decode raw' = Some x \<Longrightarrow> raw = raw'"
  by (metis encode_decode option.inject)

lemma decode_eq_iff:
  "canonical raw \<Longrightarrow> valid x \<Longrightarrow> decode raw = Some x \<longleftrightarrow> encode x = Some raw"
  using encode_decode [of raw x] decode_encode [of x raw] by blast

end

section \<open>Invariants\<close>

text \<open>
  The contract of a component with state: each of its operations, as a step relation, keeps the
  invariant; then every state reached by any sequence of operations has it.
\<close>

locale invariant_steps =
  fixes step :: "'s \<Rightarrow> 's \<Rightarrow> bool" and invariant :: "'s \<Rightarrow> bool"
  assumes step_invariant: "step s s' \<Longrightarrow> invariant s \<Longrightarrow> invariant s'"
begin

lemma reachable_invariant: "step\<^sup>*\<^sup>* s s' \<Longrightarrow> invariant s \<Longrightarrow> invariant s'"
  by (induction rule: rtranclp_induct) (auto intro: step_invariant)

end

end
