(* ===== verification/Framing.thy ===== *)
theory Framing
  imports Prelude
begin

text \<open>
  The byte-stream framings of \<^verbatim>\<open>src/interfaces/framing.c\<close>: HDLC-like framing (TCP, local
  and serial interfaces) and KISS framing (TNCs and RNodes). Each has an encoder and an incremental
  decoder that is fed arbitrary chunks of input and calls back once per complete frame.

  A decoder is the record of the C struct: its storage, the number of bytes collected so far,
  the counters and the three or four flags. A callback is a function on a context value; feeding
  stops at the first callback that fails, as the C loop returns. The loop body is a step function,
  and the contract of the loop is the locale \<open>byte_stream_decoder\<close>, interpreted for both decoders.
\<close>

section \<open>HDLC\<close>

abbreviation (input) RNS_HDLC_FLAG :: byte where "RNS_HDLC_FLAG \<equiv> 0x7e"
abbreviation (input) RNS_HDLC_ESCAPE :: byte where "RNS_HDLC_ESCAPE \<equiv> 0x7d"

type_synonym 'c frame_callback = "bytes \<Rightarrow> 'c \<Rightarrow> rns_status \<times> 'c"

record hdlc_decoder =
  hdlc_buffer :: bytes
  hdlc_capacity :: nat
  hdlc_length :: nat
  hdlc_malformed_frames :: u64
  hdlc_oversized_frames :: u64
  hdlc_synchronized :: bool
  hdlc_escaped :: bool
  hdlc_discarding :: bool

text \<open>The output buffer is the list written so far; its length is \<^verbatim>\<open>*position\<close>.\<close>

definition append_escaped ::
  "byte \<Rightarrow> byte \<Rightarrow> byte \<Rightarrow> byte \<Rightarrow> nat \<Rightarrow> bytes \<Rightarrow> rns_status + bytes" where
  "append_escaped b escape_byte escaped_first escaped_second output_capacity out =
     (if b = escaped_first \<or> b = escaped_second then
        if length out > output_capacity \<or> output_capacity - length out < 2
        then Inl RNS_ERROR_OVERFLOW
        else Inr (out @ [escape_byte,
                         if b = escaped_first then escaped_first XOR 0x20
                         else escaped_second XOR 0x20])
      else if length out \<ge> output_capacity then Inl RNS_ERROR_OVERFLOW
      else Inr (out @ [b]))"

definition rns_hdlc_decoder_init :: "bytes \<Rightarrow> hdlc_decoder" where
  "rns_hdlc_decoder_init storage =
     \<lparr>hdlc_buffer = storage, hdlc_capacity = length storage, hdlc_length = 0,
      hdlc_malformed_frames = 0, hdlc_oversized_frames = 0, hdlc_synchronized = False,
      hdlc_escaped = False, hdlc_discarding = False\<rparr>"

definition rns_hdlc_decoder_reset :: "hdlc_decoder \<Rightarrow> hdlc_decoder" where
  "rns_hdlc_decoder_reset d =
     d\<lparr>hdlc_length := 0, hdlc_synchronized := False, hdlc_escaped := False,
       hdlc_discarding := False\<rparr>"

definition hdlc_flag ::
  "'c frame_callback \<Rightarrow> hdlc_decoder \<Rightarrow> 'c \<Rightarrow> rns_status \<times> hdlc_decoder \<times> 'c" where
  "hdlc_flag callback d c =
     (let d1 = (if hdlc_escaped d
                then d\<lparr>hdlc_malformed_frames := hdlc_malformed_frames d + 1,
                       hdlc_discarding := True\<rparr>
                else d);
          (status, c') =
            (if hdlc_synchronized d1 \<and> \<not> hdlc_discarding d1 \<and> hdlc_length d1 \<noteq> 0
             then callback (take (hdlc_length d1) (hdlc_buffer d1)) c else (RNS_OK, c))
      in (status,
          d1\<lparr>hdlc_length := 0, hdlc_synchronized := True, hdlc_escaped := False,
             hdlc_discarding := False\<rparr>,
          c'))"

text \<open>The last part of the loop body: the capacity test and the store of one data byte.\<close>

definition hdlc_store :: "byte \<Rightarrow> hdlc_decoder \<Rightarrow> hdlc_decoder" where
  "hdlc_store b d =
     (if hdlc_length d = hdlc_capacity d
      then d\<lparr>hdlc_oversized_frames := hdlc_oversized_frames d + 1, hdlc_discarding := True,
             hdlc_length := 0, hdlc_escaped := False\<rparr>
      else d\<lparr>hdlc_buffer := (hdlc_buffer d)[hdlc_length d := b],
             hdlc_length := Suc (hdlc_length d)\<rparr>)"

definition hdlc_feed_step ::
  "'c frame_callback \<Rightarrow> byte \<Rightarrow> hdlc_decoder \<Rightarrow> 'c \<Rightarrow> rns_status \<times> hdlc_decoder \<times> 'c" where
  "hdlc_feed_step callback b d c =
     (if b = RNS_HDLC_FLAG then hdlc_flag callback d c
      else if \<not> hdlc_synchronized d \<or> hdlc_discarding d then (RNS_OK, d, c)
      else if hdlc_escaped d
      then (RNS_OK, hdlc_store (b XOR 0x20) (d\<lparr>hdlc_escaped := False\<rparr>), c)
      else if b = RNS_HDLC_ESCAPE then (RNS_OK, d\<lparr>hdlc_escaped := True\<rparr>, c)
      else (RNS_OK, hdlc_store b d, c))"

fun hdlc_feed_loop ::
  "'c frame_callback \<Rightarrow> bytes \<Rightarrow> hdlc_decoder \<Rightarrow> 'c \<Rightarrow> rns_status \<times> hdlc_decoder \<times> 'c" where
  "hdlc_feed_loop callback [] d c = (RNS_OK, d, c)"
| "hdlc_feed_loop callback (b # bs) d c =
     (case hdlc_feed_step callback b d c of
        (status, d', c') \<Rightarrow>
          if status = RNS_OK then hdlc_feed_loop callback bs d' c' else (status, d', c'))"

definition rns_hdlc_decoder_feed ::
  "'c frame_callback \<Rightarrow> bytes \<Rightarrow> hdlc_decoder \<Rightarrow> 'c \<Rightarrow> rns_status \<times> hdlc_decoder \<times> 'c" where
  "rns_hdlc_decoder_feed callback input d c =
     (if hdlc_capacity d = 0 then (RNS_ERROR_INVALID_ARGUMENT, d, c)
      else hdlc_feed_loop callback input d c)"

fun hdlc_encode_loop :: "bytes \<Rightarrow> nat \<Rightarrow> bytes \<Rightarrow> rns_status + bytes" where
  "hdlc_encode_loop [] output_capacity out = Inr out"
| "hdlc_encode_loop (b # frame) output_capacity out =
     (case append_escaped b RNS_HDLC_ESCAPE RNS_HDLC_FLAG RNS_HDLC_ESCAPE output_capacity out of
        Inl status \<Rightarrow> Inl status
      | Inr out' \<Rightarrow> hdlc_encode_loop frame output_capacity out')"

definition rns_hdlc_encode :: "bytes \<Rightarrow> nat \<Rightarrow> rns_status + bytes" where
  "rns_hdlc_encode frame output_capacity =
     (if output_capacity < 2 then Inl RNS_ERROR_OVERFLOW
      else case hdlc_encode_loop frame output_capacity [RNS_HDLC_FLAG] of
             Inl status \<Rightarrow> Inl status
           | Inr out \<Rightarrow>
               if length out \<ge> output_capacity then Inl RNS_ERROR_OVERFLOW
               else Inr (out @ [RNS_HDLC_FLAG]))"

section \<open>KISS\<close>

abbreviation (input) RNS_KISS_FEND :: byte where "RNS_KISS_FEND \<equiv> 0xc0"
abbreviation (input) RNS_KISS_FESC :: byte where "RNS_KISS_FESC \<equiv> 0xdb"
abbreviation (input) RNS_KISS_TFEND :: byte where "RNS_KISS_TFEND \<equiv> 0xdc"
abbreviation (input) RNS_KISS_TFESC :: byte where "RNS_KISS_TFESC \<equiv> 0xdd"
abbreviation (input) RNS_KISS_DATA_COMMAND :: byte where "RNS_KISS_DATA_COMMAND \<equiv> 0x00"

type_synonym 'c kiss_frame_callback = "byte \<Rightarrow> byte \<Rightarrow> bytes \<Rightarrow> 'c \<Rightarrow> rns_status \<times> 'c"

record kiss_decoder =
  kiss_buffer :: bytes
  kiss_capacity :: nat
  kiss_length :: nat
  kiss_malformed_frames :: u64
  kiss_oversized_frames :: u64
  kiss_command :: byte
  kiss_port :: byte
  kiss_synchronized :: bool
  kiss_have_command :: bool
  kiss_escaped :: bool
  kiss_discarding :: bool

definition rns_kiss_decoder_init :: "bytes \<Rightarrow> kiss_decoder" where
  "rns_kiss_decoder_init storage =
     \<lparr>kiss_buffer = storage, kiss_capacity = length storage, kiss_length = 0,
      kiss_malformed_frames = 0, kiss_oversized_frames = 0, kiss_command = 0, kiss_port = 0,
      kiss_synchronized = False, kiss_have_command = False, kiss_escaped = False,
      kiss_discarding = False\<rparr>"

definition rns_kiss_decoder_reset :: "kiss_decoder \<Rightarrow> kiss_decoder" where
  "rns_kiss_decoder_reset d =
     d\<lparr>kiss_length := 0, kiss_synchronized := False, kiss_have_command := False,
       kiss_escaped := False, kiss_discarding := False\<rparr>"

definition kiss_fend ::
  "'c kiss_frame_callback \<Rightarrow> kiss_decoder \<Rightarrow> 'c \<Rightarrow> rns_status \<times> kiss_decoder \<times> 'c" where
  "kiss_fend callback d c =
     (let d1 = (if kiss_escaped d
                then d\<lparr>kiss_malformed_frames := kiss_malformed_frames d + 1,
                       kiss_discarding := True\<rparr>
                else d);
          (status, c') =
            (if kiss_synchronized d1 \<and> kiss_have_command d1 \<and> \<not> kiss_discarding d1
             then callback (kiss_port d1) (kiss_command d1)
                    (take (kiss_length d1) (kiss_buffer d1)) c
             else (RNS_OK, c))
      in (status,
          d1\<lparr>kiss_length := 0, kiss_synchronized := True, kiss_have_command := False,
             kiss_escaped := False, kiss_discarding := False\<rparr>,
          c'))"

definition kiss_store :: "byte \<Rightarrow> kiss_decoder \<Rightarrow> kiss_decoder" where
  "kiss_store b d =
     (if kiss_length d = kiss_capacity d
      then d\<lparr>kiss_oversized_frames := kiss_oversized_frames d + 1, kiss_discarding := True,
             kiss_length := 0, kiss_escaped := False\<rparr>
      else d\<lparr>kiss_buffer := (kiss_buffer d)[kiss_length d := b],
             kiss_length := Suc (kiss_length d)\<rparr>)"

definition kiss_feed_step ::
  "'c kiss_frame_callback \<Rightarrow> byte \<Rightarrow> kiss_decoder \<Rightarrow> 'c \<Rightarrow> rns_status \<times> kiss_decoder \<times> 'c" where
  "kiss_feed_step callback b d c =
     (if b = RNS_KISS_FEND then kiss_fend callback d c
      else if \<not> kiss_synchronized d \<or> kiss_discarding d then (RNS_OK, d, c)
      else if \<not> kiss_have_command d
      then (RNS_OK,
            d\<lparr>kiss_port := drop_bit 4 b, kiss_command := b AND 0x0f,
              kiss_have_command := True\<rparr>, c)
      else if kiss_escaped d
      then if b = RNS_KISS_TFEND
           then (RNS_OK, kiss_store RNS_KISS_FEND (d\<lparr>kiss_escaped := False\<rparr>), c)
           else if b = RNS_KISS_TFESC
           then (RNS_OK, kiss_store RNS_KISS_FESC (d\<lparr>kiss_escaped := False\<rparr>), c)
           else (RNS_OK,
                 d\<lparr>kiss_malformed_frames := kiss_malformed_frames d + 1,
                   kiss_discarding := True, kiss_escaped := False, kiss_length := 0\<rparr>, c)
      else if b = RNS_KISS_FESC then (RNS_OK, d\<lparr>kiss_escaped := True\<rparr>, c)
      else (RNS_OK, kiss_store b d, c))"

fun kiss_feed_loop ::
  "'c kiss_frame_callback \<Rightarrow> bytes \<Rightarrow> kiss_decoder \<Rightarrow> 'c \<Rightarrow> rns_status \<times> kiss_decoder \<times> 'c" where
  "kiss_feed_loop callback [] d c = (RNS_OK, d, c)"
| "kiss_feed_loop callback (b # bs) d c =
     (case kiss_feed_step callback b d c of
        (status, d', c') \<Rightarrow>
          if status = RNS_OK then kiss_feed_loop callback bs d' c' else (status, d', c'))"

definition rns_kiss_decoder_feed_commands ::
  "'c kiss_frame_callback \<Rightarrow> bytes \<Rightarrow> kiss_decoder \<Rightarrow> 'c \<Rightarrow> rns_status \<times> kiss_decoder \<times> 'c" where
  "rns_kiss_decoder_feed_commands callback input d c =
     (if kiss_capacity d = 0 then (RNS_ERROR_INVALID_ARGUMENT, d, c)
      else kiss_feed_loop callback input d c)"

text \<open>\<^verbatim>\<open>kiss_data_only\<close> adapts a data callback: other commands and the port are ignored.\<close>

definition kiss_data_only :: "'c frame_callback \<Rightarrow> 'c kiss_frame_callback" where
  "kiss_data_only callback port command frame c =
     (if command \<noteq> RNS_KISS_DATA_COMMAND then (RNS_OK, c) else callback frame c)"

definition rns_kiss_decoder_feed ::
  "'c frame_callback \<Rightarrow> bytes \<Rightarrow> kiss_decoder \<Rightarrow> 'c \<Rightarrow> rns_status \<times> kiss_decoder \<times> 'c" where
  "rns_kiss_decoder_feed callback input d c =
     rns_kiss_decoder_feed_commands (kiss_data_only callback) input d c"

fun kiss_encode_loop :: "bytes \<Rightarrow> nat \<Rightarrow> bytes \<Rightarrow> rns_status + bytes" where
  "kiss_encode_loop [] output_capacity out = Inr out"
| "kiss_encode_loop (b # payload) output_capacity out =
     (if b = RNS_KISS_FEND \<or> b = RNS_KISS_FESC then
        if output_capacity - length out < 2 then Inl RNS_ERROR_OVERFLOW
        else kiss_encode_loop payload output_capacity
               (out @ [RNS_KISS_FESC,
                       if b = RNS_KISS_FEND then RNS_KISS_TFEND else RNS_KISS_TFESC])
      else if length out \<ge> output_capacity then Inl RNS_ERROR_OVERFLOW
      else kiss_encode_loop payload output_capacity (out @ [b]))"

definition rns_kiss_encode_command ::
  "byte \<Rightarrow> byte \<Rightarrow> bytes \<Rightarrow> nat \<Rightarrow> rns_status + bytes" where
  "rns_kiss_encode_command port command payload output_capacity =
     (if port > 15 \<or> command > 15 then Inl RNS_ERROR_INVALID_ARGUMENT
      else if output_capacity < 3 then Inl RNS_ERROR_OVERFLOW
      else case kiss_encode_loop payload output_capacity
                  [RNS_KISS_FEND, push_bit 4 port OR command] of
             Inl status \<Rightarrow> Inl status
           | Inr out \<Rightarrow>
               if length out \<ge> output_capacity then Inl RNS_ERROR_OVERFLOW
               else Inr (out @ [RNS_KISS_FEND]))"

definition rns_kiss_encode :: "byte \<Rightarrow> bytes \<Rightarrow> nat \<Rightarrow> rns_status + bytes" where
  "rns_kiss_encode port frame output_capacity =
     rns_kiss_encode_command port RNS_KISS_DATA_COMMAND frame output_capacity"

section \<open>The decoding loop as an interface\<close>

text \<open>
  Both decoders run a step function over the input and stop at the first failing callback. From
  these two laws follow chunk independence (feeding a stream in pieces is feeding it whole) and
  the lifting of an invariant of the step.
\<close>

locale byte_stream_decoder =
  fixes step :: "byte \<Rightarrow> 'd \<Rightarrow> 'c \<Rightarrow> rns_status \<times> 'd \<times> 'c"
    and feed :: "bytes \<Rightarrow> 'd \<Rightarrow> 'c \<Rightarrow> rns_status \<times> 'd \<times> 'c"
  assumes feed_Nil: "feed [] d c = (RNS_OK, d, c)"
    and feed_Cons: "feed (b # bs) d c =
      (case step b d c of
         (status, d', c') \<Rightarrow> if status = RNS_OK then feed bs d' c' else (status, d', c'))"
begin

lemma feed_append:
  "feed (xs @ ys) d c =
     (case feed xs d c of
        (status, d', c') \<Rightarrow> if status = RNS_OK then feed ys d' c' else (status, d', c'))"
  by (induction xs arbitrary: d c) (auto simp: feed_Nil feed_Cons split: prod.splits)

lemma feed_append_ok:
  "feed xs d c = (RNS_OK, d', c') \<Longrightarrow> feed (xs @ ys) d c = feed ys d' c'"
  by (simp add: feed_append)

lemma feed_invariant:
  assumes "\<And>b d c. invar d \<Longrightarrow> invar (fst (snd (step b d c)))" and "invar d"
  shows "invar (fst (snd (feed bs d c)))"
  using assms(2)
proof (induction bs arbitrary: d c)
  case Nil
  then show ?case by (simp add: feed_Nil)
next
  case (Cons b bs)
  then show ?case
    using assms(1) [of d b c] by (auto simp: feed_Cons split: prod.splits)
qed

lemma feed_accepting:
  assumes "\<And>b d c. fst (step b d c) = RNS_OK"
  shows "fst (feed bs d c) = RNS_OK"
  using assms
proof (induction bs arbitrary: d c)
  case Nil
  then show ?case by (simp add: feed_Nil)
next
  case (Cons b bs)
  obtain d' c' where "step b d c = (RNS_OK, d', c')"
    using Cons.prems [of b d c] by (cases "step b d c") auto
  with Cons show ?case by (simp add: feed_Cons)
qed

end

text \<open>Handing a list of frames to a callback, one after the other, until one fails.\<close>

fun deliver_all :: "('f \<Rightarrow> 'c \<Rightarrow> rns_status \<times> 'c) \<Rightarrow> 'f list \<Rightarrow> 'c \<Rightarrow> rns_status \<times> 'c" where
  "deliver_all deliver [] c = (RNS_OK, c)"
| "deliver_all deliver (f # fs) c =
     (case deliver f c of
        (status, c') \<Rightarrow> if status = RNS_OK then deliver_all deliver fs c' else (status, c'))"

text \<open>
  A framing on top of the loop: every frame the encoder accepts has a wire image which, fed to a
  decoder that is ready, hands the frame to the callback and leaves the decoder ready.
\<close>

locale framed_stream = byte_stream_decoder step feed
  for step :: "byte \<Rightarrow> 'd \<Rightarrow> 'c \<Rightarrow> rns_status \<times> 'd \<times> 'c" and feed +
  fixes wire :: "'f \<Rightarrow> bytes"
    and ready :: "'d \<Rightarrow> bool"
    and fits :: "'d \<Rightarrow> 'f \<Rightarrow> bool"
    and deliver :: "'f \<Rightarrow> 'c \<Rightarrow> rns_status \<times> 'c"
  assumes feed_wire:
    "ready d \<Longrightarrow> fits d f \<Longrightarrow>
       \<exists>d'. feed (wire f) d c = (fst (deliver f c), d', snd (deliver f c)) \<and>
            ready d' \<and> fits d' = fits d"
begin

lemma feed_stream:
  assumes "ready d" and "\<forall>f \<in> set fs. fits d f"
  shows "\<exists>d'. feed (concat (map wire fs)) d c =
               (fst (deliver_all deliver fs c), d', snd (deliver_all deliver fs c)) \<and> ready d'"
  using assms
proof (induction fs arbitrary: d c)
  case Nil
  then show ?case by (auto simp: feed_Nil)
next
  case (Cons f fs)
  from Cons.prems obtain d1 where d1: "feed (wire f) d c = (fst (deliver f c), d1, snd (deliver f c))"
    "ready d1" "fits d1 = fits d"
    using feed_wire [of d f c] by auto
  with Cons.prems Cons.IH [of d1 "snd (deliver f c)"] show ?case
    by (auto simp: feed_append split: prod.splits)
qed

end

section \<open>The HDLC encoder and decoder\<close>

text \<open>The reference encoding: every flag and escape byte is replaced by an escape pair.\<close>

definition hdlc_escape :: "bytes \<Rightarrow> bytes" where
  "hdlc_escape frame =
     concat (map (\<lambda>b. if b = RNS_HDLC_FLAG \<or> b = RNS_HDLC_ESCAPE
                       then [RNS_HDLC_ESCAPE, b XOR 0x20] else [b]) frame)"

definition hdlc_wire :: "bytes \<Rightarrow> bytes" where
  "hdlc_wire frame = RNS_HDLC_FLAG # hdlc_escape frame @ [RNS_HDLC_FLAG]"

definition hdlc_decoder_wf :: "hdlc_decoder \<Rightarrow> bool" where
  "hdlc_decoder_wf d \<longleftrightarrow>
     length (hdlc_buffer d) = hdlc_capacity d \<and> hdlc_length d \<le> hdlc_capacity d"

definition hdlc_ready :: "hdlc_decoder \<Rightarrow> bool" where
  "hdlc_ready d \<longleftrightarrow> hdlc_decoder_wf d \<and> hdlc_length d = 0 \<and> \<not> hdlc_escaped d"

lemma hdlc_escape_simps [simp]:
  "hdlc_escape [] = []"
  "hdlc_escape (b # frame) =
     (if b = RNS_HDLC_FLAG \<or> b = RNS_HDLC_ESCAPE
      then [RNS_HDLC_ESCAPE, b XOR 0x20] else [b]) @ hdlc_escape frame"
  by (simp_all add: hdlc_escape_def)

lemma hdlc_encode_loop_eq:
  "length out \<le> cap \<Longrightarrow>
   hdlc_encode_loop frame cap out =
     (if length out + length (hdlc_escape frame) \<le> cap then Inr (out @ hdlc_escape frame)
      else Inl RNS_ERROR_OVERFLOW)"
  by (induction frame arbitrary: out) (auto simp: append_escaped_def)

lemma rns_hdlc_encode_eq:
  "rns_hdlc_encode frame cap =
     (if length (hdlc_wire frame) \<le> cap then Inr (hdlc_wire frame)
      else Inl RNS_ERROR_OVERFLOW)"
  by (auto simp: rns_hdlc_encode_def hdlc_encode_loop_eq hdlc_wire_def)

lemma flag_notin_hdlc_escape: "RNS_HDLC_FLAG \<notin> set (hdlc_escape frame)"
  by (induction frame) auto

lemma length_hdlc_escape:
  "length (hdlc_escape frame) =
     length frame + length (filter (\<lambda>b. b = RNS_HDLC_FLAG \<or> b = RNS_HDLC_ESCAPE) frame)"
  by (induction frame) auto

interpretation hdlc: byte_stream_decoder "hdlc_feed_step cb" "hdlc_feed_loop cb" for cb
  by unfold_locales simp_all

lemma hdlc_store_wf: "hdlc_decoder_wf d \<Longrightarrow> hdlc_decoder_wf (hdlc_store b d)"
  by (auto simp: hdlc_store_def hdlc_decoder_wf_def)

lemma hdlc_feed_step_wf:
  "hdlc_decoder_wf d \<Longrightarrow> hdlc_decoder_wf (fst (snd (hdlc_feed_step cb b d c)))"
  by (auto simp: hdlc_feed_step_def hdlc_flag_def hdlc_decoder_wf_def hdlc_store_def
           split: prod.splits)

text \<open>Storing a run of data bytes behind what has been collected.\<close>

definition hdlc_collect :: "bytes \<Rightarrow> hdlc_decoder \<Rightarrow> hdlc_decoder" where
  "hdlc_collect bs d =
     d\<lparr>hdlc_buffer := take (hdlc_length d) (hdlc_buffer d) @ bs @
                      drop (hdlc_length d + length bs) (hdlc_buffer d),
       hdlc_length := hdlc_length d + length bs\<rparr>"

lemma hdlc_collect_Cons:
  assumes "hdlc_decoder_wf d" and "hdlc_length d < hdlc_capacity d"
  shows "hdlc_collect bs (hdlc_store b d) = hdlc_collect (b # bs) d"
  using assms
  by (simp add: hdlc_collect_def hdlc_store_def hdlc_decoder_wf_def)

lemma hdlc_not_escaped [simp]: "\<not> hdlc_escaped d \<Longrightarrow> d\<lparr>hdlc_escaped := False\<rparr> = d"
  by (cases d) simp

lemma hdlc_feed_escape:
  assumes "hdlc_decoder_wf d" "hdlc_synchronized d" "\<not> hdlc_escaped d" "\<not> hdlc_discarding d"
    and "hdlc_length d + length frame \<le> hdlc_capacity d"
  shows "hdlc_feed_loop cb (hdlc_escape frame) d c = (RNS_OK, hdlc_collect frame d, c)"
  using assms
proof (induction frame arbitrary: d)
  case Nil
  then show ?case by (simp add: hdlc_collect_def)
next
  case (Cons b frame)
  let ?d = "hdlc_store b d"
  have small: "hdlc_length d < hdlc_capacity d" using Cons.prems by simp
  have "hdlc_feed_loop cb (hdlc_escape frame) ?d c = (RNS_OK, hdlc_collect frame ?d, c)"
    using Cons.prems small by (intro Cons.IH) (auto simp: hdlc_store_def hdlc_decoder_wf_def)
  then show ?case
    using Cons.prems small
    by (auto simp: hdlc_collect_Cons hdlc_feed_step_def)
qed

lemma hdlc_flag_ready:
  assumes "hdlc_ready d"
  shows "hdlc_flag cb d c =
           (RNS_OK, d\<lparr>hdlc_synchronized := True, hdlc_discarding := False\<rparr>, c)"
  using assms by (cases d) (simp add: hdlc_flag_def hdlc_ready_def)

lemma hdlc_flag_deliver:
  assumes "hdlc_decoder_wf d" "hdlc_synchronized d" "\<not> hdlc_escaped d" "\<not> hdlc_discarding d"
    and "hdlc_length d = 0" "frame \<noteq> []" "length frame \<le> hdlc_capacity d"
  shows "\<exists>d'. hdlc_flag cb (hdlc_collect frame d) c = (fst (cb frame c), d', snd (cb frame c)) \<and>
              hdlc_ready d' \<and> hdlc_capacity d' = hdlc_capacity d"
  using assms
  by (auto simp: hdlc_flag_def hdlc_collect_def hdlc_ready_def hdlc_decoder_wf_def
           split: prod.splits)

lemma hdlc_feed_body:
  assumes "hdlc_decoder_wf d" "hdlc_synchronized d" "\<not> hdlc_escaped d" "\<not> hdlc_discarding d"
    and "hdlc_length d = 0" "frame \<noteq> []" "length frame \<le> hdlc_capacity d"
  shows "\<exists>d'. hdlc_feed_loop cb (hdlc_escape frame @ [RNS_HDLC_FLAG]) d c =
                (fst (cb frame c), d', snd (cb frame c)) \<and>
              hdlc_ready d' \<and> hdlc_capacity d' = hdlc_capacity d"
proof -
  have "hdlc_feed_loop cb (hdlc_escape frame) d c = (RNS_OK, hdlc_collect frame d, c)"
    using assms by (intro hdlc_feed_escape) auto
  then have "hdlc_feed_loop cb (hdlc_escape frame @ [RNS_HDLC_FLAG]) d c =
               hdlc_feed_loop cb [RNS_HDLC_FLAG] (hdlc_collect frame d) c"
    by (rule hdlc.feed_append_ok)
  also have "\<dots> = hdlc_flag cb (hdlc_collect frame d) c"
    by (auto simp: hdlc_feed_step_def split: prod.splits)
  finally show ?thesis
    using hdlc_flag_deliver [OF assms, of cb c] by simp
qed

lemma hdlc_feed_wire:
  assumes "hdlc_ready d" "frame \<noteq> []" "length frame \<le> hdlc_capacity d"
  shows "\<exists>d'. hdlc_feed_loop cb (hdlc_wire frame) d c = (fst (cb frame c), d', snd (cb frame c)) \<and>
              hdlc_ready d' \<and> hdlc_capacity d' = hdlc_capacity d"
proof -
  let ?d = "d\<lparr>hdlc_synchronized := True, hdlc_discarding := False\<rparr>"
  have "hdlc_feed_loop cb (hdlc_wire frame) d c =
          hdlc_feed_loop cb (hdlc_escape frame @ [RNS_HDLC_FLAG]) ?d c"
    using assms(1) by (simp add: hdlc_wire_def hdlc_feed_step_def hdlc_flag_ready)
  moreover have "\<exists>d'. hdlc_feed_loop cb (hdlc_escape frame @ [RNS_HDLC_FLAG]) ?d c =
      (fst (cb frame c), d', snd (cb frame c)) \<and> hdlc_ready d' \<and> hdlc_capacity d' = hdlc_capacity ?d"
    using assms by (intro hdlc_feed_body) (auto simp: hdlc_ready_def hdlc_decoder_wf_def)
  ultimately show ?thesis by simp
qed

interpretation hdlc_frames: framed_stream "hdlc_feed_step cb" "hdlc_feed_loop cb" hdlc_wire
  hdlc_ready "\<lambda>d frame. frame \<noteq> [] \<and> length frame \<le> hdlc_capacity d" cb for cb
proof unfold_locales
  fix d :: hdlc_decoder and f :: bytes and c :: 'a
  assume "hdlc_ready d" and "f \<noteq> [] \<and> length f \<le> hdlc_capacity d"
  then obtain d' where "hdlc_feed_loop cb (hdlc_wire f) d c = (fst (cb f c), d', snd (cb f c))"
    "hdlc_ready d'" "hdlc_capacity d' = hdlc_capacity d"
    using hdlc_feed_wire [of d f cb c] by auto
  then show "\<exists>d'. hdlc_feed_loop cb (hdlc_wire f) d c = (fst (cb f c), d', snd (cb f c)) \<and>
      hdlc_ready d' \<and> (\<lambda>frame. frame \<noteq> [] \<and> length frame \<le> hdlc_capacity d') =
      (\<lambda>frame. frame \<noteq> [] \<and> length frame \<le> hdlc_capacity d)"
    by auto
qed

text \<open>
  C4. A stream of HDLC-encoded frames is decoded to exactly those frames, in order: whatever
  non-empty frames that fit the decoder's storage are encoded and concatenated, feeding the stream
  to a ready decoder (fresh, reset or between frames) calls the callback once per frame with the
  frame's bytes, stops at the first callback that fails, and leaves the decoder ready.
\<close>

theorem hdlc_stream_roundtrip:
  assumes "hdlc_ready d" and "0 < hdlc_capacity d"
    and "\<forall>f \<in> set frames. f \<noteq> [] \<and> length f \<le> hdlc_capacity d \<and> rns_hdlc_encode f cap = Inr (w f)"
  shows "\<exists>d'. rns_hdlc_decoder_feed cb (concat (map w frames)) d c =
               (fst (deliver_all cb frames c), d', snd (deliver_all cb frames c)) \<and> hdlc_ready d'"
proof -
  have "map w frames = map hdlc_wire frames"
    using assms(3) by (auto simp: rns_hdlc_encode_eq split: if_splits)
  then have "concat (map w frames) = concat (map hdlc_wire frames)"
    by (rule arg_cong)
  then show ?thesis
    using assms hdlc_frames.feed_stream [of d frames cb c]
    by (simp only: rns_hdlc_decoder_feed_def) simp
qed

theorem hdlc_stream_roundtrip_witness:
  "\<exists>d'. rns_hdlc_decoder_feed (\<lambda>f seen. (RNS_OK, seen @ [f]))
          (concat (map hdlc_wire [[0x7e, 1], [0x7d]])) (rns_hdlc_decoder_init (replicate 4 0)) [] =
          (RNS_OK, d', [[0x7e, 1], [0x7d]]) \<and> hdlc_ready d'"
proof -
  let ?cb = "\<lambda>f seen. (RNS_OK, seen @ [f])"
  let ?frames = "[[0x7e, 1], [0x7d]] :: bytes list"
  let ?d = "rns_hdlc_decoder_init (replicate 4 0)"
  have "hdlc_ready ?d" "0 < hdlc_capacity ?d"
    by (simp_all add: hdlc_ready_def hdlc_decoder_wf_def rns_hdlc_decoder_init_def)
  moreover have "\<forall>f \<in> set ?frames. f \<noteq> [] \<and> length f \<le> hdlc_capacity ?d \<and>
      rns_hdlc_encode f 10 = Inr (hdlc_wire f)"
    by (simp add: rns_hdlc_encode_eq hdlc_wire_def rns_hdlc_decoder_init_def)
  ultimately show ?thesis
    using hdlc_stream_roundtrip [of ?d ?frames 10 hdlc_wire ?cb "[]"] by simp
qed

text \<open>
  Memory safety of the HDLC decoder: on every input and with every callback, feeding keeps the
  storage at its capacity and the number of collected bytes within it, from any well-formed
  decoder; init and reset establish it.
\<close>

theorem hdlc_decoder_feed_safe:
  "hdlc_decoder_wf (rns_hdlc_decoder_init storage) \<and>
   (hdlc_decoder_wf d \<longrightarrow>
      hdlc_decoder_wf (rns_hdlc_decoder_reset d) \<and>
      hdlc_decoder_wf (fst (snd (rns_hdlc_decoder_feed cb input d c))))"
  using hdlc.feed_invariant [of hdlc_decoder_wf cb d input c, OF hdlc_feed_step_wf]
  by (auto simp: rns_hdlc_decoder_feed_def rns_hdlc_decoder_init_def rns_hdlc_decoder_reset_def
                 hdlc_decoder_wf_def)

theorem hdlc_decoder_feed_safe_witness:
  "hdlc_decoder_wf (fst (snd (rns_hdlc_decoder_feed (\<lambda>f c. (RNS_OK, c)) [0x7e, 1, 2, 3]
     (rns_hdlc_decoder_init [0, 0]) ())))"
  using hdlc_decoder_feed_safe [of "[0, 0]" "rns_hdlc_decoder_init [0, 0]" "\<lambda>f c. (RNS_OK, c)"
      "[0x7e, 1, 2, 3]" "()"] by simp

lemma hdlc_flag_ready_after:
  "hdlc_decoder_wf d \<Longrightarrow> hdlc_flag cb d c = (status, d', c') \<Longrightarrow>
     hdlc_ready d' \<and> hdlc_synchronized d' \<and> \<not> hdlc_discarding d' \<and> hdlc_capacity d' = hdlc_capacity d"
  by (auto simp: hdlc_flag_def hdlc_ready_def hdlc_decoder_wf_def Let_def split: prod.splits if_splits)

lemma hdlc_feed_step_capacity:
  "hdlc_capacity (fst (snd (hdlc_feed_step cb b d c))) = hdlc_capacity d"
  by (auto simp: hdlc_feed_step_def hdlc_flag_def hdlc_store_def split: prod.splits)

text \<open>A callback that only records what it is given.\<close>

abbreviation log_frame :: "'f \<Rightarrow> 'f list \<Rightarrow> rns_status \<times> 'f list" where
  "log_frame f seen \<equiv> (RNS_OK, seen @ [f])"

lemma hdlc_feed_step_log:
  "\<exists>d' more. hdlc_feed_step log_frame b d seen = (RNS_OK, d', seen @ more)"
  by (auto simp: hdlc_feed_step_def hdlc_flag_def Let_def)

lemma hdlc_feed_log:
  assumes "hdlc_decoder_wf d"
  shows "\<exists>d' more. hdlc_feed_loop log_frame bs d seen = (RNS_OK, d', seen @ more) \<and>
           hdlc_decoder_wf d' \<and> hdlc_capacity d' = hdlc_capacity d"
  using assms
proof (induction bs arbitrary: d seen)
  case Nil
  then show ?case by simp
next
  case (Cons b bs)
  obtain d1 more where step: "hdlc_feed_step log_frame b d seen = (RNS_OK, d1, seen @ more)"
    using hdlc_feed_step_log by blast
  then have "hdlc_decoder_wf d1" "hdlc_capacity d1 = hdlc_capacity d"
    using hdlc_feed_step_wf [OF Cons.prems, of log_frame b seen]
      hdlc_feed_step_capacity [of log_frame b d seen] by simp_all
  with Cons.IH [of d1 "seen @ more"] step show ?case by auto
qed

text \<open>
  C18. The HDLC decoder resynchronises: whatever state it is in and whatever bytes arrive first
  (noise, a truncated frame, a dangling escape, an oversized frame), the next complete frame is
  delivered as the last one, and the decoder is ready afterwards.
\<close>

theorem hdlc_resynchronise:
  assumes "hdlc_decoder_wf d" and "frame \<noteq> []" and "length frame \<le> hdlc_capacity d"
    and "rns_hdlc_encode frame cap = Inr wire"
  shows "\<exists>d' junk. rns_hdlc_decoder_feed log_frame (noise @ wire) d seen =
                     (RNS_OK, d', seen @ junk @ [frame]) \<and> hdlc_ready d'"
proof -
  have wire: "wire = RNS_HDLC_FLAG # hdlc_escape frame @ [RNS_HDLC_FLAG]"
    using assms(4) by (auto simp: rns_hdlc_encode_eq hdlc_wire_def split: if_splits)
  obtain d1 j1 where d1: "hdlc_feed_loop log_frame noise d seen = (RNS_OK, d1, seen @ j1)"
    "hdlc_decoder_wf d1" "hdlc_capacity d1 = hdlc_capacity d"
    using hdlc_feed_log [OF assms(1)] by blast
  obtain d2 j2 where d2: "hdlc_flag log_frame d1 (seen @ j1) = (RNS_OK, d2, (seen @ j1) @ j2)"
    using hdlc_feed_step_log [of RNS_HDLC_FLAG d1 "seen @ j1"] by (auto simp: hdlc_feed_step_def)
  note ready = hdlc_flag_ready_after [OF d1(2) d2]
  obtain d3 where "hdlc_feed_loop log_frame (hdlc_escape frame @ [RNS_HDLC_FLAG]) d2 (seen @ j1 @ j2) =
      (RNS_OK, d3, (seen @ j1 @ j2) @ [frame])" "hdlc_ready d3"
    using hdlc_feed_body [of d2 frame log_frame "seen @ j1 @ j2"] ready d1(3) assms(2,3)
    by (auto simp: hdlc_ready_def)
  moreover have "0 < hdlc_capacity d" using assms(2,3) by (cases frame) auto
  ultimately show ?thesis
    using d1 d2
    by (auto simp: rns_hdlc_decoder_feed_def wire hdlc.feed_append hdlc_feed_step_def
             intro!: exI [of _ "j1 @ j2"])
qed

theorem hdlc_resynchronise_witness:
  "\<exists>d' junk. rns_hdlc_decoder_feed log_frame ([0x7e, 5, 0x7d] @ [0x7e, 9, 0x7e])
       (rns_hdlc_decoder_init [0, 0]) [] = (RNS_OK, d', [] @ junk @ [[9]]) \<and> hdlc_ready d'"
  using hdlc_resynchronise [of "rns_hdlc_decoder_init [0, 0]" "[9]" 3 "[0x7e, 9, 0x7e]" "[0x7e, 5, 0x7d]" "[]"]
  by (simp add: hdlc_decoder_wf_def rns_hdlc_decoder_init_def rns_hdlc_encode_eq hdlc_wire_def)

text \<open>
  The HDLC encoder writes the reference encoding or nothing: it succeeds exactly when the
  escaped frame and the two flags fit the output, the frame's flag bytes are all escaped, and the
  length is that of the frame plus one byte per escaped byte plus two.
\<close>

theorem hdlc_encode_exact:
  "(if length frame + length (filter (\<lambda>b. b = RNS_HDLC_FLAG \<or> b = RNS_HDLC_ESCAPE) frame) + 2 \<le> cap
    then \<exists>body. rns_hdlc_encode frame cap = Inr (RNS_HDLC_FLAG # body @ [RNS_HDLC_FLAG]) \<and>
                RNS_HDLC_FLAG \<notin> set body \<and>
                length body = length frame +
                  length (filter (\<lambda>b. b = RNS_HDLC_FLAG \<or> b = RNS_HDLC_ESCAPE) frame)
    else rns_hdlc_encode frame cap = Inl RNS_ERROR_OVERFLOW)"
  using flag_notin_hdlc_escape [of frame]
  by (auto simp: rns_hdlc_encode_eq hdlc_wire_def length_hdlc_escape)

section \<open>The KISS encoder and decoder\<close>

definition kiss_escape :: "bytes \<Rightarrow> bytes" where
  "kiss_escape payload =
     concat (map (\<lambda>b. if b = RNS_KISS_FEND then [RNS_KISS_FESC, RNS_KISS_TFEND]
                       else if b = RNS_KISS_FESC then [RNS_KISS_FESC, RNS_KISS_TFESC]
                       else [b]) payload)"

definition kiss_wire :: "byte \<times> byte \<times> bytes \<Rightarrow> bytes" where
  "kiss_wire = (\<lambda>(port, command, payload).
     RNS_KISS_FEND # (push_bit 4 port OR command) # kiss_escape payload @ [RNS_KISS_FEND])"

definition kiss_decoder_wf :: "kiss_decoder \<Rightarrow> bool" where
  "kiss_decoder_wf d \<longleftrightarrow>
     length (kiss_buffer d) = kiss_capacity d \<and> kiss_length d \<le> kiss_capacity d"

definition kiss_ready :: "kiss_decoder \<Rightarrow> bool" where
  "kiss_ready d \<longleftrightarrow>
     kiss_decoder_wf d \<and> kiss_length d = 0 \<and> \<not> kiss_escaped d \<and> \<not> kiss_have_command d"

text \<open>
  The command byte must not be a FEND: the encoder does not escape it, so port 12 with command 0
  would be read as the end of a frame.
\<close>

definition kiss_fits :: "kiss_decoder \<Rightarrow> byte \<times> byte \<times> bytes \<Rightarrow> bool" where
  "kiss_fits d = (\<lambda>(port, command, payload).
     port \<le> 15 \<and> command \<le> 15 \<and> \<not> (port = 12 \<and> command = 0) \<and> length payload \<le> kiss_capacity d)"

lemma kiss_escape_simps [simp]:
  "kiss_escape [] = []"
  "kiss_escape (b # payload) =
     (if b = RNS_KISS_FEND then [RNS_KISS_FESC, RNS_KISS_TFEND]
      else if b = RNS_KISS_FESC then [RNS_KISS_FESC, RNS_KISS_TFESC] else [b]) @ kiss_escape payload"
  by (simp_all add: kiss_escape_def)

lemma kiss_encode_loop_eq:
  "length out \<le> cap \<Longrightarrow>
   kiss_encode_loop payload cap out =
     (if length out + length (kiss_escape payload) \<le> cap then Inr (out @ kiss_escape payload)
      else Inl RNS_ERROR_OVERFLOW)"
  by (induction payload arbitrary: out) auto

lemma rns_kiss_encode_command_eq:
  "rns_kiss_encode_command port command payload cap =
     (if port > 15 \<or> command > 15 then Inl RNS_ERROR_INVALID_ARGUMENT
      else if length (kiss_wire (port, command, payload)) \<le> cap
      then Inr (kiss_wire (port, command, payload))
      else Inl RNS_ERROR_OVERFLOW)"
  by (auto simp: rns_kiss_encode_command_def kiss_encode_loop_eq kiss_wire_def)

interpretation kiss: byte_stream_decoder "kiss_feed_step cb" "kiss_feed_loop cb" for cb
  by unfold_locales simp_all

lemma kiss_feed_step_wf:
  "kiss_decoder_wf d \<Longrightarrow> kiss_decoder_wf (fst (snd (kiss_feed_step cb b d c)))"
  by (auto simp: kiss_feed_step_def kiss_fend_def kiss_decoder_wf_def kiss_store_def
           split: prod.splits)

text \<open>Packing and unpacking the command byte, by evaluation over the 256 pairs.\<close>

lemma kiss_command_byte:
  fixes port command :: byte
  assumes "port \<le> 15" "command \<le> 15"
  shows "drop_bit 4 (push_bit 4 port OR command) = port"
    and "(push_bit 4 port OR command) AND 0x0f = command"
    and "push_bit 4 port OR command = RNS_KISS_FEND \<longleftrightarrow> port = 12 \<and> command = 0"
proof -
  have *: "\<forall>p \<in> set (map of_nat [0..<16]). \<forall>q \<in> set (map of_nat [0..<16]).
      drop_bit 4 (push_bit 4 p OR q) = (p :: byte) \<and> (push_bit 4 p OR q) AND 0x0f = q \<and>
      (push_bit 4 p OR q = RNS_KISS_FEND \<longleftrightarrow> p = 12 \<and> q = 0)"
    by code_simp
  show "drop_bit 4 (push_bit 4 port OR command) = port"
    and "(push_bit 4 port OR command) AND 0x0f = command"
    and "push_bit 4 port OR command = RNS_KISS_FEND \<longleftrightarrow> port = 12 \<and> command = 0"
    using * byte_below [of port 16] byte_below [of command 16] assms
    by (auto simp del: set_map simp: word_le_nat_alt)
qed

definition kiss_collect :: "bytes \<Rightarrow> kiss_decoder \<Rightarrow> kiss_decoder" where
  "kiss_collect bs d =
     d\<lparr>kiss_buffer := take (kiss_length d) (kiss_buffer d) @ bs @
                      drop (kiss_length d + length bs) (kiss_buffer d),
       kiss_length := kiss_length d + length bs\<rparr>"

lemma kiss_collect_Cons:
  assumes "kiss_decoder_wf d" and "kiss_length d < kiss_capacity d"
  shows "kiss_collect bs (kiss_store b d) = kiss_collect (b # bs) d"
  using assms by (simp add: kiss_collect_def kiss_store_def kiss_decoder_wf_def)

lemma kiss_not_escaped [simp]: "\<not> kiss_escaped d \<Longrightarrow> d\<lparr>kiss_escaped := False\<rparr> = d"
  by (cases d) simp

lemma kiss_feed_escape:
  assumes "kiss_decoder_wf d" "kiss_synchronized d" "kiss_have_command d" "\<not> kiss_escaped d"
    "\<not> kiss_discarding d" and "kiss_length d + length payload \<le> kiss_capacity d"
  shows "kiss_feed_loop cb (kiss_escape payload) d c = (RNS_OK, kiss_collect payload d, c)"
  using assms
proof (induction payload arbitrary: d)
  case Nil
  then show ?case by (simp add: kiss_collect_def)
next
  case (Cons b payload)
  let ?d = "kiss_store b d"
  have small: "kiss_length d < kiss_capacity d" using Cons.prems by simp
  have "kiss_feed_loop cb (kiss_escape payload) ?d c = (RNS_OK, kiss_collect payload ?d, c)"
    using Cons.prems small by (intro Cons.IH) (auto simp: kiss_store_def kiss_decoder_wf_def)
  then show ?case
    using Cons.prems small by (auto simp: kiss_collect_Cons kiss_feed_step_def)
qed

lemma kiss_feed_wire:
  assumes "kiss_ready d" and "kiss_fits d (port, command, payload)"
  shows "\<exists>d'. kiss_feed_loop cb (kiss_wire (port, command, payload)) d c =
                (fst (cb port command payload c), d', snd (cb port command payload c)) \<and>
              kiss_ready d' \<and> kiss_capacity d' = kiss_capacity d"
proof -
  let ?d = "d\<lparr>kiss_synchronized := True, kiss_discarding := False, kiss_port := port,
             kiss_command := command, kiss_have_command := True\<rparr>"
  have fits: "port \<le> 15" "command \<le> 15" "\<not> (port = 12 \<and> command = 0)"
    "length payload \<le> kiss_capacity d"
    using assms(2) by (auto simp: kiss_fits_def)
  note byte = kiss_command_byte [OF fits(1,2)]
  have d: "kiss_decoder_wf d" "kiss_length d = 0" "\<not> kiss_escaped d" "\<not> kiss_have_command d"
    using assms(1) by (auto simp: kiss_ready_def)
  then have head: "kiss_feed_loop cb [RNS_KISS_FEND, push_bit 4 port OR command] d c = (RNS_OK, ?d, c)"
    using byte fits(3) by (simp add: kiss_feed_step_def kiss_fend_def)
  have body: "kiss_feed_loop cb (kiss_escape payload) ?d c = (RNS_OK, kiss_collect payload ?d, c)"
    using d fits(4) by (intro kiss_feed_escape) (auto simp: kiss_decoder_wf_def)
  have "kiss_wire (port, command, payload) =
      [RNS_KISS_FEND, push_bit 4 port OR command] @ kiss_escape payload @ [RNS_KISS_FEND]"
    by (simp add: kiss_wire_def)
  then have "kiss_feed_loop cb (kiss_wire (port, command, payload)) d c =
      kiss_feed_loop cb [RNS_KISS_FEND] (kiss_collect payload ?d) c"
    by (simp only: kiss.feed_append_ok [OF head] kiss.feed_append_ok [OF body])
  then show ?thesis
    using d fits(4)
    by (auto simp: kiss_feed_step_def kiss_fend_def kiss_collect_def kiss_ready_def
                   kiss_decoder_wf_def split: prod.splits)
qed

interpretation kiss_frames: framed_stream "kiss_feed_step cb" "kiss_feed_loop cb" kiss_wire
  kiss_ready kiss_fits "\<lambda>(port, command, payload). cb port command payload" for cb
proof unfold_locales
  fix d :: kiss_decoder and f :: "byte \<times> byte \<times> bytes" and c :: 'a
  assume "kiss_ready d" and "kiss_fits d f"
  then show "\<exists>d'. kiss_feed_loop cb (kiss_wire f) d c =
      (fst ((case f of (port, command, payload) \<Rightarrow> cb port command payload) c), d',
       snd ((case f of (port, command, payload) \<Rightarrow> cb port command payload) c)) \<and>
      kiss_ready d' \<and> kiss_fits d' = kiss_fits d"
    using kiss_feed_wire [of d "fst f" "fst (snd f)" "snd (snd f)" cb c]
    by (cases f) (auto simp: kiss_fits_def)
qed

text \<open>
  C19. A stream of KISS command frames is decoded to exactly those commands, in order: for ports and
  commands that fit their nibble, except the pair (12, 0) whose command byte is the frame delimiter,
  and payloads (empty ones included) that fit the storage, the decoder calls back once per frame
  with its port, its command and its payload, and is ready again afterwards.
\<close>

theorem kiss_stream_roundtrip:
  assumes "kiss_ready d" and "0 < kiss_capacity d"
    and "\<forall>(port, command, payload) \<in> set frames.
           \<not> (port = 12 \<and> command = 0) \<and> length payload \<le> kiss_capacity d \<and>
           rns_kiss_encode_command port command payload cap = Inr (w (port, command, payload))"
  shows "\<exists>d'. rns_kiss_decoder_feed_commands cb (concat (map w frames)) d c =
     (fst (deliver_all (\<lambda>(port, command, payload). cb port command payload) frames c), d',
      snd (deliver_all (\<lambda>(port, command, payload). cb port command payload) frames c)) \<and>
     kiss_ready d'"
proof -
  have each: "w f = kiss_wire f \<and> kiss_fits d f" if "f \<in> set frames" for f
    using assms(3) that
    by (fastforce simp: rns_kiss_encode_command_eq kiss_fits_def not_less split: if_splits)
  then have "map w frames = map kiss_wire frames" by simp
  then have "concat (map w frames) = concat (map kiss_wire frames)" by (rule arg_cong)
  then show ?thesis
    using assms(1,2) each kiss_frames.feed_stream [of d frames cb c]
    by (simp only: rns_kiss_decoder_feed_commands_def) simp
qed

theorem kiss_stream_roundtrip_witness:
  "\<exists>d'. rns_kiss_decoder_feed_commands (\<lambda>p q f. log_frame (p, q, f))
          (concat (map kiss_wire [(0, 0, [0xc0, 1]), (2, 7, [])])) (rns_kiss_decoder_init [0, 0]) [] =
          (RNS_OK, d', [(0, 0, [0xc0, 1]), (2, 7, [])]) \<and> kiss_ready d'"
proof -
  let ?frames = "[(0, 0, [0xc0, 1]), (2, 7, [])] :: (byte \<times> byte \<times> bytes) list"
  let ?d = "rns_kiss_decoder_init [0, 0]"
  have "kiss_ready ?d" "0 < kiss_capacity ?d"
    by (simp_all add: kiss_ready_def kiss_decoder_wf_def rns_kiss_decoder_init_def)
  moreover have "\<forall>(port, command, payload) \<in> set ?frames.
      \<not> (port = 12 \<and> command = 0) \<and> length payload \<le> kiss_capacity ?d \<and>
      rns_kiss_encode_command port command payload 10 = Inr (kiss_wire (port, command, payload))"
    by (simp add: rns_kiss_encode_command_eq kiss_wire_def rns_kiss_decoder_init_def)
  ultimately show ?thesis
    using kiss_stream_roundtrip [of ?d ?frames 10 kiss_wire "\<lambda>p q f. log_frame (p, q, f)" "[]"]
    by simp
qed

text \<open>
  What a receiver makes of a data frame for port 12. Its command byte is 0xC0, the frame delimiter,
  so the first byte of the escaped payload is taken for the command byte.
\<close>

definition port_12_reading :: "bytes \<Rightarrow> (byte \<times> byte \<times> bytes) list" where
  "port_12_reading payload =
     (case payload of
        [] \<Rightarrow> []
      | b # rest \<Rightarrow>
          [if b = RNS_KISS_FEND then (13, 11, RNS_KISS_TFEND # rest)
           else if b = RNS_KISS_FESC then (13, 11, RNS_KISS_TFESC # rest)
           else (drop_bit 4 b, b AND 0x0f, rest)])"

lemma kiss_split_byte:
  fixes b :: byte
  shows "drop_bit 4 b \<le> 15" "b AND 0x0f \<le> 15" "push_bit 4 (drop_bit 4 b) OR (b AND 0x0f) = b"
proof -
  have "unat b < 256" using unsigned_less [of b, where 'a = nat] by simp
  moreover from this have "unat (drop_bit 4 b) = unat b div 16"
    by (simp add: unsigned_drop_bit_eq drop_bit_nat_def take_bit_nat_eq_self)
  ultimately have "unat (drop_bit 4 b) \<le> 15" by linarith
  then show "drop_bit 4 b \<le> 15" by (simp add: word_le_nat_alt)
  show "b AND 0x0f \<le> 15" by (rule word_and_le1)
  have low: "(0x0f :: byte) = mask 4" by (simp add: mask_eq_exp_minus_1)
  show "push_bit 4 (drop_bit 4 b) OR (b AND 0x0f) = b"
    unfolding low by (rule bit_word_eqI) (auto simp: bit_simps not_less)
qed

lemma port_12_wire:
  "kiss_wire (12, 0, []) = replicate 3 RNS_KISS_FEND"
  "kiss_wire (12, 0, b # rest) = RNS_KISS_FEND # concat (map kiss_wire (port_12_reading (b # rest)))"
  by (simp_all add: kiss_wire_def port_12_reading_def kiss_split_byte(3) numeral_3_eq_3)

lemma port_12_fits:
  assumes "length payload \<le> kiss_capacity d" "f \<in> set (port_12_reading payload)"
  shows "kiss_fits d f \<and> f \<noteq> (12, 0, payload)"
proof (cases payload)
  case (Cons b rest)
  have "\<not> (drop_bit 4 b = 12 \<and> b AND 0x0f = 0)" if "b \<noteq> RNS_KISS_FEND"
  proof
    assume "drop_bit 4 b = 12 \<and> b AND 0x0f = 0"
    then have "push_bit 4 (drop_bit 4 b) OR (b AND 0x0f) = push_bit 4 12 OR 0" by (simp only:)
    with that show False by (simp add: kiss_split_byte(3))
  qed
  moreover have "f = (if b = RNS_KISS_FEND then (13, 11, RNS_KISS_TFEND # rest)
      else if b = RNS_KISS_FESC then (13, 11, RNS_KISS_TFESC # rest)
      else (drop_bit 4 b, b AND 0x0f, rest))"
    using assms(2) Cons by (simp add: port_12_reading_def)
  ultimately show ?thesis
    using assms(1) Cons kiss_split_byte(1,2) [of b] unfolding kiss_fits_def by (simp split: if_split)
qed (use assms in \<open>simp add: port_12_reading_def\<close>)

lemma kiss_feed_delimiters:
  assumes "kiss_ready d"
  shows "\<exists>d'. kiss_feed_loop cb (replicate n RNS_KISS_FEND) d c = (RNS_OK, d', c) \<and> kiss_ready d' \<and>
              kiss_capacity d' = kiss_capacity d"
  using assms
proof (induction n arbitrary: d)
  case (Suc n)
  let ?d = "d\<lparr>kiss_synchronized := True, kiss_discarding := False\<rparr>"
  have "kiss_feed_step cb RNS_KISS_FEND d c = (RNS_OK, ?d, c)" "kiss_ready ?d"
    using Suc.prems by (auto simp: kiss_feed_step_def kiss_fend_def kiss_ready_def kiss_decoder_wf_def)
  with Suc.IH [of ?d] show ?case by simp
qed simp

text \<open>
  C20. The one pair the KISS encoder gets wrong: a data frame for port 12 has the command byte 0xC0,
  which is the frame delimiter and is written unescaped. Whatever its payload, a decoder that is
  ready, with room for the payload and with any callback, never reports the frame that was sent: an
  empty payload is not reported at all, and of any other payload the first byte (the escape byte,
  where it was escaped) is taken for the command byte, so that a port and command made of its two
  nibbles and the rest of the payload are reported.
\<close>

theorem kiss_port_12_misread:
  assumes "kiss_ready d" and "0 < kiss_capacity d" and "length payload \<le> kiss_capacity d"
    and "rns_kiss_encode 12 payload cap = Inr wire"
  shows "(\<exists>d'. rns_kiss_decoder_feed_commands cb wire d c =
            (fst (deliver_all (\<lambda>(port, command, payload). cb port command payload) (port_12_reading payload) c), d',
             snd (deliver_all (\<lambda>(port, command, payload). cb port command payload) (port_12_reading payload) c)) \<and>
            kiss_ready d') \<and>
         (12, 0, payload) \<notin> set (port_12_reading payload)"
proof
  let ?frames = "port_12_reading payload"
  have wire: "wire = kiss_wire (12, 0, payload)"
    using assms(4) by (auto simp: rns_kiss_encode_def rns_kiss_encode_command_eq split: if_splits)
  obtain n where n: "wire = replicate n RNS_KISS_FEND @ concat (map kiss_wire ?frames)"
  proof (cases payload)
    case Nil
    then show thesis using that [of 3] by (simp add: wire port_12_wire(1) port_12_reading_def)
  next
    case (Cons b rest)
    then show thesis using that [of 1] by (simp only: wire port_12_wire(2)) simp
  qed
  obtain d1 where d1: "kiss_feed_loop cb (replicate n RNS_KISS_FEND) d c = (RNS_OK, d1, c)" "kiss_ready d1"
      "kiss_capacity d1 = kiss_capacity d"
    using kiss_feed_delimiters [OF assms(1), of cb n c] by blast
  have "\<forall>f \<in> set ?frames. kiss_fits d1 f" using port_12_fits [of payload d1] assms(3) d1(3) by simp
  then show "\<exists>d'. rns_kiss_decoder_feed_commands cb wire d c =
      (fst (deliver_all (\<lambda>(port, command, payload). cb port command payload) ?frames c), d',
       snd (deliver_all (\<lambda>(port, command, payload). cb port command payload) ?frames c)) \<and> kiss_ready d'"
    using kiss_frames.feed_stream [OF d1(2), of ?frames cb c] assms(2)
    by (simp add: rns_kiss_decoder_feed_commands_def n kiss.feed_append_ok [OF d1(1)])
  show "(12, 0, payload) \<notin> set ?frames" using port_12_fits [OF assms(3)] by blast
qed

theorem kiss_port_12_misread_witness:
  "\<exists>d'. rns_kiss_decoder_feed_commands (\<lambda>p q f. log_frame (p, q, f)) [0xc0, 0xc0, 0x25, 0x31, 0xc0]
     (rns_kiss_decoder_init [0, 0]) [] = (RNS_OK, d', [(2, 5, [0x31])]) \<and> kiss_ready d'"
proof -
  have "kiss_ready (rns_kiss_decoder_init [0, 0])" "0 < kiss_capacity (rns_kiss_decoder_init [0, 0])"
    "length [0x25, 0x31] \<le> kiss_capacity (rns_kiss_decoder_init [0, 0])"
    by (simp_all add: kiss_ready_def kiss_decoder_wf_def rns_kiss_decoder_init_def)
  from kiss_port_12_misread [OF this, of 5 "[0xc0, 0xc0, 0x25, 0x31, 0xc0]" "\<lambda>p q f. log_frame (p, q, f)" "[]"]
  show ?thesis
    by (simp add: rns_kiss_encode_def rns_kiss_encode_command_eq kiss_wire_def port_12_reading_def)
qed

text \<open>
  Memory safety of the KISS decoder: on every input and with every callback the number of
  collected bytes stays within the storage.
\<close>

theorem kiss_decoder_feed_safe:
  assumes "kiss_decoder_wf d"
  shows "kiss_decoder_wf (rns_kiss_decoder_reset d) \<and>
         kiss_decoder_wf (fst (snd (rns_kiss_decoder_feed_commands cb input d c))) \<and>
         kiss_decoder_wf (fst (snd (rns_kiss_decoder_feed data_cb input d c)))"
  using kiss.feed_invariant [of kiss_decoder_wf _ d input c, OF kiss_feed_step_wf assms] assms
  by (auto simp: rns_kiss_decoder_feed_commands_def rns_kiss_decoder_reset_def
                 rns_kiss_decoder_feed_def kiss_decoder_wf_def)

theorem kiss_decoder_feed_safe_witness:
  "kiss_decoder_wf (fst (snd (rns_kiss_decoder_feed (\<lambda>f c. (RNS_OK, c)) [0xc0, 0, 1, 2, 3]
     (rns_kiss_decoder_init [0, 0]) ())))"
proof -
  have "kiss_decoder_wf (rns_kiss_decoder_init [0, 0])"
    by (simp add: kiss_decoder_wf_def rns_kiss_decoder_init_def)
  then show ?thesis by (rule kiss_decoder_feed_safe [THEN conjunct2, THEN conjunct2])
qed

end
