(* ===== verification/Crypto.thy ===== *)
theory Crypto
  imports Prelude
begin

text \<open>
  The cryptographic provider of \<^verbatim>\<open>src/crypto/provider.c\<close> and the part of the OpenSSL provider
  (\<^verbatim>\<open>src/crypto/crypto.c\<close>) that is this program's own code: HKDF and the modified Fernet token.

  A provider is the record of its functions. An \<^verbatim>\<open>int\<close> result with an output buffer is an
  \<open>option\<close> of the bytes written; the functions that draw randomness thread a generator state
  \<open>'r\<close>, which stands for \<^verbatim>\<open>provider->context\<close>. The primitives of OpenSSL are a record of
  parameters, and what the code relies on from them are the predicates at the end of the theory.
\<close>

section \<open>Providers\<close>

record 'r rns_crypto_provider =
  cp_sha256 :: "bytes \<Rightarrow> bytes option"
  cp_hmac_sha256 :: "bytes \<Rightarrow> bytes \<Rightarrow> bytes option"
  cp_hkdf_sha256 :: "bytes \<Rightarrow> bytes \<Rightarrow> bytes \<Rightarrow> nat \<Rightarrow> bytes option"
  cp_random_bytes :: "nat \<Rightarrow> 'r \<Rightarrow> bytes option \<times> 'r"
  cp_x25519_generate :: "'r \<Rightarrow> (bytes \<times> bytes) option \<times> 'r"
  cp_x25519_public_from_private :: "bytes \<Rightarrow> bytes option"
  cp_x25519_exchange :: "bytes \<Rightarrow> bytes \<Rightarrow> bytes option"
  cp_ed25519_generate :: "'r \<Rightarrow> (bytes \<times> bytes) option \<times> 'r"
  cp_ed25519_public_from_private :: "bytes \<Rightarrow> bytes option"
  cp_ed25519_sign :: "bytes \<Rightarrow> bytes \<Rightarrow> bytes option"
  cp_ed25519_verify :: "bytes \<Rightarrow> bytes \<Rightarrow> bytes \<Rightarrow> bool"
  cp_constant_time_equal :: "bytes \<Rightarrow> bytes \<Rightarrow> bool"
  cp_token_encrypt :: "bytes \<Rightarrow> bytes \<Rightarrow> nat \<Rightarrow> 'r \<Rightarrow> bytes option \<times> 'r"
  cp_token_decrypt :: "bytes \<Rightarrow> bytes \<Rightarrow> nat \<Rightarrow> bytes option"

text \<open>
  The installed provider is an address, so that installing the same table twice is accepted and
  another table refused. \<open>present\<close> says which of the fourteen function pointers are set.
\<close>

definition crypto_provider :: "'p option \<Rightarrow> 'p option \<Rightarrow> 'p option" where
  "crypto_provider installed_provider default_provider =
     (if installed_provider \<noteq> None then installed_provider else default_provider)"

definition rns_crypto_provider_install ::
  "nat option \<Rightarrow> bool list \<Rightarrow> nat option \<Rightarrow> rns_status \<times> nat option" where
  "rns_crypto_provider_install provider present installed_provider =
     (if provider = None \<or> False \<in> set present
      then (RNS_ERROR_INVALID_ARGUMENT, installed_provider)
      else if installed_provider \<noteq> None \<and> installed_provider \<noteq> provider
      then (RNS_ERROR_INVALID_STATE, installed_provider)
      else (RNS_OK, provider))"

definition rns_crypto_provider_restore_default :: "nat option \<Rightarrow> nat option" where
  "rns_crypto_provider_restore_default installed_provider = None"

definition rns_crypto_provider_current :: "'p option \<Rightarrow> 'p option \<Rightarrow> 'p option" where
  "rns_crypto_provider_current installed_provider default_provider =
     crypto_provider installed_provider default_provider"

text \<open>The dispatching functions take the current provider; without one they fail.\<close>

definition rns_sha256 :: "'r rns_crypto_provider option \<Rightarrow> bytes \<Rightarrow> bytes option" where
  "rns_sha256 P data = (case P of None \<Rightarrow> None | Some p \<Rightarrow> cp_sha256 p data)"

definition rns_hmac_sha256 :: "'r rns_crypto_provider option \<Rightarrow> bytes \<Rightarrow> bytes \<Rightarrow> bytes option" where
  "rns_hmac_sha256 P key data = (case P of None \<Rightarrow> None | Some p \<Rightarrow> cp_hmac_sha256 p key data)"

definition rns_hkdf_sha256 ::
  "'r rns_crypto_provider option \<Rightarrow> bytes \<Rightarrow> bytes \<Rightarrow> bytes \<Rightarrow> nat \<Rightarrow> bytes option" where
  "rns_hkdf_sha256 P input salt info out_length =
     (case P of None \<Rightarrow> None | Some p \<Rightarrow> cp_hkdf_sha256 p input salt info out_length)"

definition rns_random_bytes ::
  "'r rns_crypto_provider option \<Rightarrow> nat \<Rightarrow> 'r \<Rightarrow> bytes option \<times> 'r" where
  "rns_random_bytes P n r = (case P of None \<Rightarrow> (None, r) | Some p \<Rightarrow> cp_random_bytes p n r)"

definition rns_x25519_generate ::
  "'r rns_crypto_provider option \<Rightarrow> 'r \<Rightarrow> (bytes \<times> bytes) option \<times> 'r" where
  "rns_x25519_generate P r = (case P of None \<Rightarrow> (None, r) | Some p \<Rightarrow> cp_x25519_generate p r)"

definition rns_x25519_public_from_private ::
  "'r rns_crypto_provider option \<Rightarrow> bytes \<Rightarrow> bytes option" where
  "rns_x25519_public_from_private P private_key =
     (case P of None \<Rightarrow> None | Some p \<Rightarrow> cp_x25519_public_from_private p private_key)"

definition rns_x25519_exchange ::
  "'r rns_crypto_provider option \<Rightarrow> bytes \<Rightarrow> bytes \<Rightarrow> bytes option" where
  "rns_x25519_exchange P private_key peer_public =
     (case P of None \<Rightarrow> None | Some p \<Rightarrow> cp_x25519_exchange p private_key peer_public)"

definition rns_ed25519_generate ::
  "'r rns_crypto_provider option \<Rightarrow> 'r \<Rightarrow> (bytes \<times> bytes) option \<times> 'r" where
  "rns_ed25519_generate P r = (case P of None \<Rightarrow> (None, r) | Some p \<Rightarrow> cp_ed25519_generate p r)"

definition rns_ed25519_public_from_private ::
  "'r rns_crypto_provider option \<Rightarrow> bytes \<Rightarrow> bytes option" where
  "rns_ed25519_public_from_private P private_key =
     (case P of None \<Rightarrow> None | Some p \<Rightarrow> cp_ed25519_public_from_private p private_key)"

definition rns_ed25519_sign ::
  "'r rns_crypto_provider option \<Rightarrow> bytes \<Rightarrow> bytes \<Rightarrow> bytes option" where
  "rns_ed25519_sign P private_key message =
     (case P of None \<Rightarrow> None | Some p \<Rightarrow> cp_ed25519_sign p private_key message)"

definition rns_ed25519_verify ::
  "'r rns_crypto_provider option \<Rightarrow> bytes \<Rightarrow> bytes \<Rightarrow> bytes \<Rightarrow> bool" where
  "rns_ed25519_verify P public_key message signature =
     (case P of None \<Rightarrow> False | Some p \<Rightarrow> cp_ed25519_verify p public_key message signature)"

definition rns_constant_time_equal ::
  "'r rns_crypto_provider option \<Rightarrow> bytes \<Rightarrow> bytes \<Rightarrow> bool" where
  "rns_constant_time_equal P left right =
     (case P of None \<Rightarrow> False | Some p \<Rightarrow> cp_constant_time_equal p left right)"

definition rns_token_encrypt ::
  "'r rns_crypto_provider option \<Rightarrow> bytes \<Rightarrow> bytes \<Rightarrow> nat \<Rightarrow> 'r \<Rightarrow> bytes option \<times> 'r" where
  "rns_token_encrypt P key plaintext out_capacity r =
     (case P of None \<Rightarrow> (None, r) | Some p \<Rightarrow> cp_token_encrypt p key plaintext out_capacity r)"

definition rns_token_decrypt ::
  "'r rns_crypto_provider option \<Rightarrow> bytes \<Rightarrow> bytes \<Rightarrow> nat \<Rightarrow> bytes option" where
  "rns_token_decrypt P key token out_capacity =
     (case P of None \<Rightarrow> None | Some p \<Rightarrow> cp_token_decrypt p key token out_capacity)"

section \<open>The OpenSSL provider\<close>

text \<open>
  The primitives that OpenSSL supplies. The cipher entries stand for the init, update and final
  calls on a cipher context together; the key entries for the raw-key calls on \<^verbatim>\<open>EVP_PKEY\<close>.
\<close>

record 'r openssl =
  SHA256 :: "bytes \<Rightarrow> bytes option"
  HMAC :: "bytes \<Rightarrow> bytes \<Rightarrow> bytes option"
  RAND_bytes :: "nat \<Rightarrow> 'r \<Rightarrow> bytes option \<times> 'r"
  X25519_keygen :: "'r \<Rightarrow> (bytes \<times> bytes) option \<times> 'r"
  X25519_public :: "bytes \<Rightarrow> bytes option"
  X25519_derive :: "bytes \<Rightarrow> bytes \<Rightarrow> bytes option"
  ED25519_keygen :: "'r \<Rightarrow> (bytes \<times> bytes) option \<times> 'r"
  ED25519_public :: "bytes \<Rightarrow> bytes option"
  ED25519_DigestSign :: "bytes \<Rightarrow> bytes \<Rightarrow> bytes option"
  ED25519_DigestVerify :: "bytes \<Rightarrow> bytes \<Rightarrow> bytes \<Rightarrow> bool"
  AES_256_CBC_encrypt :: "bytes \<Rightarrow> bytes \<Rightarrow> bytes \<Rightarrow> bytes option"
  AES_256_CBC_decrypt :: "bytes \<Rightarrow> bytes \<Rightarrow> bytes \<Rightarrow> bytes option"

abbreviation (input) INT_MAX :: nat where "INT_MAX \<equiv> 2147483647"

definition openssl_sha256 :: "'r openssl \<Rightarrow> bytes \<Rightarrow> bytes option" where
  "openssl_sha256 ssl data = SHA256 ssl data"

definition openssl_hmac_sha256 :: "'r openssl \<Rightarrow> bytes \<Rightarrow> bytes \<Rightarrow> bytes option" where
  "openssl_hmac_sha256 ssl key data =
     (if length key > INT_MAX then None
      else case HMAC ssl key data of
             None \<Rightarrow> None
           | Some out \<Rightarrow> if length out = 32 then Some out else None)"

lemma openssl_hmac_sha256_length:
  "openssl_hmac_sha256 ssl key data = Some mac \<Longrightarrow> length mac = 32"
  by (auto simp: openssl_hmac_sha256_def split: if_splits option.splits)

text \<open>
  The expansion loop. \<open>block\<close> is empty until the first block has been produced
  (\<^verbatim>\<open>previous\<close> is 0), and \<open>out\<close> is what has been written so far.
\<close>

function hkdf_expand ::
  "'r openssl \<Rightarrow> bytes \<Rightarrow> bytes \<Rightarrow> nat \<Rightarrow> u32 \<Rightarrow> bytes \<Rightarrow> bytes \<Rightarrow> bytes option" where
  "hkdf_expand ssl prk info out_length counter block out =
     (if length out < out_length then
        case openssl_hmac_sha256 ssl prk (block @ info @ [ucast counter]) of
          None \<Rightarrow> None
        | Some block' \<Rightarrow>
            hkdf_expand ssl prk info out_length (counter + 1) block'
              (out @ take (if out_length - length out < 32 then out_length - length out else 32) block')
      else Some out)"
  by auto
termination
  by (relation "measure (\<lambda>(ssl, prk, info, out_length, counter, block, out).
        out_length - length out)")
     (auto dest: openssl_hmac_sha256_length)

declare hkdf_expand.simps [simp del]

definition openssl_hkdf_sha256 ::
  "'r openssl \<Rightarrow> bytes \<Rightarrow> bytes \<Rightarrow> bytes \<Rightarrow> nat \<Rightarrow> bytes option" where
  "openssl_hkdf_sha256 ssl input salt info out_length =
     (if out_length = 0 \<or> out_length > 255 * 32 \<or> length input = 0 \<or> length info > 255 then None
      else case openssl_hmac_sha256 ssl (if length salt = 0 then replicate 32 0 else salt) input of
             None \<Rightarrow> None
           | Some prk \<Rightarrow> hkdf_expand ssl prk info out_length 1 [] [])"

definition openssl_random_bytes :: "'r openssl \<Rightarrow> nat \<Rightarrow> 'r \<Rightarrow> bytes option \<times> 'r" where
  "openssl_random_bytes ssl n r = (if n \<le> INT_MAX then RAND_bytes ssl n r else (None, r))"

definition openssl_x25519_generate :: "'r openssl \<Rightarrow> 'r \<Rightarrow> (bytes \<times> bytes) option \<times> 'r" where
  "openssl_x25519_generate ssl r =
     (case X25519_keygen ssl r of
        (Some (private_key, public_key), r') \<Rightarrow>
          if length private_key = 32 \<and> length public_key = 32
          then (Some (private_key, public_key), r') else (None, r')
      | (None, r') \<Rightarrow> (None, r'))"

definition openssl_x25519_public_from_private :: "'r openssl \<Rightarrow> bytes \<Rightarrow> bytes option" where
  "openssl_x25519_public_from_private ssl private_key =
     (case X25519_public ssl private_key of
        None \<Rightarrow> None | Some k \<Rightarrow> if length k = 32 then Some k else None)"

definition openssl_ed25519_generate :: "'r openssl \<Rightarrow> 'r \<Rightarrow> (bytes \<times> bytes) option \<times> 'r" where
  "openssl_ed25519_generate ssl r =
     (case ED25519_keygen ssl r of
        (Some (private_key, public_key), r') \<Rightarrow>
          if length private_key = 32 \<and> length public_key = 32
          then (Some (private_key, public_key), r') else (None, r')
      | (None, r') \<Rightarrow> (None, r'))"

definition openssl_ed25519_public_from_private :: "'r openssl \<Rightarrow> bytes \<Rightarrow> bytes option" where
  "openssl_ed25519_public_from_private ssl private_key =
     (case ED25519_public ssl private_key of
        None \<Rightarrow> None | Some k \<Rightarrow> if length k = 32 then Some k else None)"

definition openssl_x25519_exchange :: "'r openssl \<Rightarrow> bytes \<Rightarrow> bytes \<Rightarrow> bytes option" where
  "openssl_x25519_exchange ssl private_key peer_public =
     (case X25519_derive ssl private_key peer_public of
        None \<Rightarrow> None | Some k \<Rightarrow> if length k = 32 then Some k else None)"

definition openssl_ed25519_sign :: "'r openssl \<Rightarrow> bytes \<Rightarrow> bytes \<Rightarrow> bytes option" where
  "openssl_ed25519_sign ssl private_key message =
     (case ED25519_DigestSign ssl private_key message of
        None \<Rightarrow> None | Some s \<Rightarrow> if length s = 64 then Some s else None)"

definition openssl_ed25519_verify :: "'r openssl \<Rightarrow> bytes \<Rightarrow> bytes \<Rightarrow> bytes \<Rightarrow> bool" where
  "openssl_ed25519_verify ssl public_key message signature =
     ED25519_DigestVerify ssl public_key message signature"

definition openssl_constant_time_equal :: "bytes \<Rightarrow> bytes \<Rightarrow> bool" where
  "openssl_constant_time_equal left right \<longleftrightarrow> left = right"

text \<open>The token: IV, then the cipher text, then the MAC over both.\<close>

definition openssl_token_encrypt ::
  "'r openssl \<Rightarrow> bytes \<Rightarrow> bytes \<Rightarrow> nat \<Rightarrow> 'r \<Rightarrow> bytes option \<times> 'r" where
  "openssl_token_encrypt ssl key plaintext out_capacity r =
     (let needed = 16 + (length plaintext div 16 + 1) * 16 + 32
      in if length plaintext > INT_MAX \<or> out_capacity < needed \<or> needed > INT_MAX then (None, r)
         else case openssl_random_bytes ssl 16 r of
                (None, r') \<Rightarrow> (None, r')
              | (Some iv, r') \<Rightarrow>
                  (case AES_256_CBC_encrypt ssl (drop 32 key) iv plaintext of
                     None \<Rightarrow> (None, r')
                   | Some cipher \<Rightarrow>
                       (case openssl_hmac_sha256 ssl (take 32 key) (iv @ cipher) of
                          None \<Rightarrow> (None, r')
                        | Some mac \<Rightarrow> (Some (iv @ cipher @ mac), r'))))"

definition openssl_token_decrypt ::
  "'r openssl \<Rightarrow> bytes \<Rightarrow> bytes \<Rightarrow> nat \<Rightarrow> bytes option" where
  "openssl_token_decrypt ssl key token out_capacity =
     (if length token < 64 \<or> (length token - 48) mod 16 \<noteq> 0 \<or> length token - 48 > INT_MAX \<or>
         out_capacity < length token - 48 then None
      else case openssl_hmac_sha256 ssl (take 32 key) (take (length token - 32) token) of
             None \<Rightarrow> None
           | Some mac \<Rightarrow>
               if \<not> openssl_constant_time_equal mac (drop (length token - 32) token) then None
               else AES_256_CBC_decrypt ssl (drop 32 key) (take 16 token)
                      (bytes_at 16 (length token - 48) token))"

definition openssl_provider :: "'r openssl \<Rightarrow> 'r rns_crypto_provider" where
  "openssl_provider ssl =
     \<lparr>cp_sha256 = openssl_sha256 ssl,
      cp_hmac_sha256 = openssl_hmac_sha256 ssl,
      cp_hkdf_sha256 = openssl_hkdf_sha256 ssl,
      cp_random_bytes = openssl_random_bytes ssl,
      cp_x25519_generate = openssl_x25519_generate ssl,
      cp_x25519_public_from_private = openssl_x25519_public_from_private ssl,
      cp_x25519_exchange = openssl_x25519_exchange ssl,
      cp_ed25519_generate = openssl_ed25519_generate ssl,
      cp_ed25519_public_from_private = openssl_ed25519_public_from_private ssl,
      cp_ed25519_sign = openssl_ed25519_sign ssl,
      cp_ed25519_verify = openssl_ed25519_verify ssl,
      cp_constant_time_equal = openssl_constant_time_equal,
      cp_token_encrypt = openssl_token_encrypt ssl,
      cp_token_decrypt = openssl_token_decrypt ssl\<rparr>"

text \<open>The constant-time comparison that \<^verbatim>\<open>ifac.c\<close> and \<^verbatim>\<open>proof.c\<close> both define.\<close>

fun equal_ct_loop :: "byte \<Rightarrow> bytes \<Rightarrow> bytes \<Rightarrow> byte" where
  "equal_ct_loop different (a # as) (b # bs) = equal_ct_loop (different OR (a XOR b)) as bs"
| "equal_ct_loop different _ _ = different"

definition equal_ct :: "bytes \<Rightarrow> bytes \<Rightarrow> bool" where
  "equal_ct a b \<longleftrightarrow> equal_ct_loop 0 a b = 0"

lemma word_or_eq_0_iff: "(a OR b = (0 :: 'a::len word)) \<longleftrightarrow> a = 0 \<and> b = 0"
  by (rule or_eq_0_iff)

lemma word_xor_eq_0_iff: "(a XOR b = (0 :: 'a::len word)) \<longleftrightarrow> a = b"
  by (metis xor.assoc xor.left_neutral xor.right_neutral xor_self_eq)

lemma equal_ct_loop_eq_0:
  "length a = length b \<Longrightarrow> equal_ct_loop different a b = 0 \<longleftrightarrow> different = 0 \<and> a = b"
  by (induction a b arbitrary: different rule: list_induct2)
     (auto simp: word_or_eq_0_iff word_xor_eq_0_iff)

lemma equal_ct_iff: "length a = length b \<Longrightarrow> equal_ct a b \<longleftrightarrow> a = b"
  by (simp add: equal_ct_def equal_ct_loop_eq_0)

section \<open>HKDF is RFC 5869\<close>

text \<open>
  The reference: block \<open>i\<close> is the MAC of the previous block, the info string and the block number.
\<close>

primrec rfc5869_block :: "(bytes \<Rightarrow> bytes \<Rightarrow> bytes) \<Rightarrow> bytes \<Rightarrow> bytes \<Rightarrow> nat \<Rightarrow> bytes" where
  "rfc5869_block mac prk info 0 = []"
| "rfc5869_block mac prk info (Suc i) =
     mac prk (rfc5869_block mac prk info i @ info @ [of_nat (Suc i)])"

definition rfc5869 :: "(bytes \<Rightarrow> bytes \<Rightarrow> bytes) \<Rightarrow> bytes \<Rightarrow> bytes \<Rightarrow> bytes \<Rightarrow> nat \<Rightarrow> bytes" where
  "rfc5869 mac input salt info out_length =
     take out_length
       (concat (map (rfc5869_block mac (mac (if salt = [] then replicate 32 0 else salt) input) info)
                    [1..<Suc ((out_length + 31) div 32)]))"

lemma length_concat_blocks:
  assumes "\<And>i. length (T (Suc i)) = 32"
  shows "length (concat (map T [1..<Suc n])) = 32 * n"
  by (induction n) (simp_all add: assms)

lemma hkdf_expand_done:
  "out_length \<le> length out \<Longrightarrow> hkdf_expand ssl prk info out_length counter block out = Some out"
  by (subst hkdf_expand.simps) simp

lemma hkdf_expand_more:
  assumes "length out < out_length"
    and "openssl_hmac_sha256 ssl prk (block @ info @ [ucast counter]) = Some block'"
  shows "hkdf_expand ssl prk info out_length counter block out =
     hkdf_expand ssl prk info out_length (counter + 1) block'
       (out @ take (min (out_length - length out) 32) block')"
  by (subst hkdf_expand.simps) (simp add: assms min_def not_less)

lemma ucast_of_nat_byte: "(ucast (of_nat n :: u32) :: byte) = of_nat n"
  by (simp add: unsigned_of_nat word_of_nat_eq_iff take_bit_take_bit)

lemma hkdf_expand_blocks:
  fixes ssl :: "'r openssl" and mac prk info
  defines "T \<equiv> rfc5869_block mac prk info"
  assumes hmac: "\<And>data. openssl_hmac_sha256 ssl prk data = Some (mac prk data)"
    and len: "\<And>j. length (T (Suc j)) = 32"
    and i: "32 * i \<le> out_length" and n: "n = (out_length + 31) div 32"
  shows "hkdf_expand ssl prk info out_length (of_nat (Suc i)) (T i) (concat (map T [1..<Suc i])) =
           Some (take out_length (concat (map T [1..<Suc n])))"
  using i
proof (induction "n - i" arbitrary: i)
  case 0
  have "out_length \<le> 32 * n" "32 * n < out_length + 32" unfolding n by linarith+
  with 0 have "out_length = 32 * i" "i = n" by auto
  then show ?case
    using length_concat_blocks [of T n, OF len] by (simp add: hkdf_expand_done del: upt_Suc)
next
  case (Suc k)
  have bounds: "out_length \<le> 32 * n" "32 * n < out_length + 32" unfolding n by linarith+
  then have less: "32 * i < out_length" using Suc.hyps(2) Suc.prems by linarith
  note total = length_concat_blocks [of T, OF len]
  have next_block: "openssl_hmac_sha256 ssl prk (T i @ info @ [ucast (of_nat (Suc i) :: u32)]) =
      Some (T (Suc i))"
    by (simp only: hmac T_def rfc5869_block.simps) (simp only: ucast_of_nat_byte)
  have append: "concat (map T [1..<Suc (Suc i)]) = concat (map T [1..<Suc i]) @ T (Suc i)" by simp
  have step: "hkdf_expand ssl prk info out_length (of_nat (Suc i)) (T i) (concat (map T [1..<Suc i])) =
      hkdf_expand ssl prk info out_length (of_nat (Suc i) + 1) (T (Suc i))
        (concat (map T [1..<Suc i]) @ take (min (out_length - 32 * i) 32) (T (Suc i)))"
    using hkdf_expand_more [OF _ next_block, of "concat (map T [1..<Suc i])" out_length] less
    by (simp only: total)
  show ?case
  proof (cases "32 * Suc i \<le> out_length")
    case True
    then have "hkdf_expand ssl prk info out_length (of_nat (Suc (Suc i))) (T (Suc i))
        (concat (map T [1..<Suc (Suc i)])) = Some (take out_length (concat (map T [1..<Suc n])))"
      using Suc.hyps(2) by (intro Suc.hyps(1)) auto
    moreover have "take (min (out_length - 32 * i) 32) (T (Suc i)) = T (Suc i)"
      using True len by simp
    moreover have "of_nat (Suc (Suc i)) = (of_nat (Suc i) + 1 :: u32)" by simp
    ultimately show ?thesis by (simp only: step append)
  next
    case False
    then have last: "n = Suc i" unfolding n using less by (intro div_nat_eqI) simp_all
    have "take out_length (concat (map T [1..<Suc n])) =
        concat (map T [1..<Suc i]) @ take (out_length - 32 * i) (T (Suc i))"
      using total [of i] less by (simp only: last append take_append) simp
    then show ?thesis
      using False less total [of i] len [of i]
      by (simp only: step) (subst hkdf_expand_done, simp_all del: upt_Suc)
  qed
qed

lemma openssl_hkdf_eq:
  assumes "\<forall>key data. HMAC ssl key data = Some (mac key data) \<and> length (mac key data) = 32"
    and "length salt \<le> INT_MAX"
  shows "openssl_hkdf_sha256 ssl input salt info out_length =
           (if input \<noteq> [] \<and> length info \<le> 255 \<and> 0 < out_length \<and> out_length \<le> 8160
            then Some (rfc5869 mac input salt info out_length) else None)"
proof -
  let ?salt = "if salt = [] then replicate 32 0 else salt"
  let ?prk = "mac ?salt input"
  have prk: "openssl_hmac_sha256 ssl ?salt input = Some ?prk"
    using assms by (simp add: openssl_hmac_sha256_def)
  have "openssl_hmac_sha256 ssl ?prk data = Some (mac ?prk data)" for data
    using assms(1) by (simp add: openssl_hmac_sha256_def)
  then have "hkdf_expand ssl ?prk info out_length 1 [] [] = Some (rfc5869 mac input salt info out_length)"
    using hkdf_expand_blocks [of ssl ?prk mac info 0 out_length, OF _ _ _ refl] assms(1)
    by (simp add: rfc5869_def)
  with prk show ?thesis by (auto simp: openssl_hkdf_sha256_def)
qed

text \<open>
  C21. The provider's HKDF is RFC 5869 HKDF: for every non-empty input key, every salt (an empty one
  standing for 32 zero bytes), every info string of at most 255 bytes and every output length from
  1 to 8160 bytes, the loop returns the first \<open>out_length\<close> bytes of the concatenated expansion
  blocks; its one-byte counter never wraps within that bound. All other requests are refused.
\<close>

theorem openssl_hkdf_is_rfc5869:
  assumes "\<forall>key data. HMAC ssl key data = Some (mac key data) \<and> length (mac key data) = 32"
    and "length salt \<le> INT_MAX"
  shows "rns_hkdf_sha256 (Some (openssl_provider ssl)) input salt info out_length =
           (if input \<noteq> [] \<and> length info \<le> 255 \<and> 0 < out_length \<and> out_length \<le> 8160
            then Some (rfc5869 mac input salt info out_length) else None)"
  using openssl_hkdf_eq [OF assms] by (simp add: rns_hkdf_sha256_def openssl_provider_def)

section \<open>What the code relies on from a provider\<close>

definition aes_cbc_sound :: "'r openssl \<Rightarrow> bool" where
  "aes_cbc_sound ssl \<longleftrightarrow>
     (\<forall>key iv plain cipher. AES_256_CBC_encrypt ssl key iv plain = Some cipher \<longrightarrow>
        length cipher = (length plain div 16 + 1) * 16 \<and>
        AES_256_CBC_decrypt ssl key iv cipher = Some plain)"

definition rand_bytes_sound :: "'r openssl \<Rightarrow> bool" where
  "rand_bytes_sound ssl \<longleftrightarrow>
     (\<forall>n r bs r'. RAND_bytes ssl n r = (Some bs, r') \<longrightarrow> length bs = n)"

definition sha256_sound :: "'r rns_crypto_provider option \<Rightarrow> bool" where
  "sha256_sound P \<longleftrightarrow> (\<forall>data h. rns_sha256 P data = Some h \<longrightarrow> length h = 32)"

definition hkdf_sound :: "'r rns_crypto_provider option \<Rightarrow> bool" where
  "hkdf_sound P \<longleftrightarrow>
     (\<forall>input salt info n out. rns_hkdf_sha256 P input salt info n = Some out \<longrightarrow> length out = n)"

definition signature_sound :: "'r rns_crypto_provider option \<Rightarrow> bool" where
  "signature_sound P \<longleftrightarrow>
     (\<forall>sk pk message s. rns_ed25519_public_from_private P sk = Some pk \<longrightarrow>
        rns_ed25519_sign P sk message = Some s \<longrightarrow> rns_ed25519_verify P pk message s)"

definition signature_size :: "'r rns_crypto_provider option \<Rightarrow> bool" where
  "signature_size P \<longleftrightarrow>
     (\<forall>sk message s. rns_ed25519_sign P sk message = Some s \<longrightarrow> length s = 64)"

definition public_key_size :: "'r rns_crypto_provider option \<Rightarrow> bool" where
  "public_key_size P \<longleftrightarrow>
     (\<forall>sk pk. rns_x25519_public_from_private P sk = Some pk \<longrightarrow> length pk = 32) \<and>
     (\<forall>sk pk. rns_ed25519_public_from_private P sk = Some pk \<longrightarrow> length pk = 32)"

definition generate_sound :: "'r rns_crypto_provider option \<Rightarrow> bool" where
  "generate_sound P \<longleftrightarrow>
     (\<forall>r sk pk r'. rns_x25519_generate P r = (Some (sk, pk), r') \<longrightarrow>
        length sk = 32 \<and> rns_x25519_public_from_private P sk = Some pk) \<and>
     (\<forall>r sk pk r'. rns_ed25519_generate P r = (Some (sk, pk), r') \<longrightarrow>
        length sk = 32 \<and> rns_ed25519_public_from_private P sk = Some pk)"

text \<open>The Diffie-Hellman law: both sides derive the same secret.\<close>

definition exchange_sound :: "'r rns_crypto_provider option \<Rightarrow> bool" where
  "exchange_sound P \<longleftrightarrow>
     (\<forall>a pa b pb. rns_x25519_public_from_private P a = Some pa \<longrightarrow>
        rns_x25519_public_from_private P b = Some pb \<longrightarrow>
        rns_x25519_exchange P a pb = rns_x25519_exchange P b pa)"

definition token_sound :: "'r rns_crypto_provider option \<Rightarrow> bool" where
  "token_sound P \<longleftrightarrow>
     (\<forall>key plain cap r token r' cap'. rns_token_encrypt P key plain cap r = (Some token, r') \<longrightarrow>
        length token = 48 + (length plain div 16 + 1) * 16 \<and> length token \<le> cap \<and>
        (length token - 48 \<le> cap' \<longrightarrow> rns_token_decrypt P key token cap' = Some plain))"

lemma generate_soundD:
  assumes "generate_sound P" "public_key_size P"
  shows "rns_x25519_generate P r = (Some (sk, pk), r') \<Longrightarrow>
           length sk = 32 \<and> rns_x25519_public_from_private P sk = Some pk \<and> length pk = 32"
    and "rns_ed25519_generate P r = (Some (sk, pk), r') \<Longrightarrow>
           length sk = 32 \<and> rns_ed25519_public_from_private P sk = Some pk \<and> length pk = 32"
  using assms unfolding generate_sound_def public_key_size_def by metis+

lemma exchange_soundD:
  assumes "exchange_sound P" "rns_x25519_public_from_private P a = Some pa"
    "rns_x25519_public_from_private P b = Some pb"
  shows "rns_x25519_exchange P a pb = rns_x25519_exchange P b pa"
  by (rule assms(1) [unfolded exchange_sound_def, rule_format, OF assms(2,3)])

lemma token_soundD:
  assumes "token_sound P" "rns_token_encrypt P key plain cap r = (Some token, r')"
  shows "length token = 48 + (length plain div 16 + 1) * 16" and "length token \<le> cap"
    and "length token - 48 \<le> cap' \<Longrightarrow> rns_token_decrypt P key token cap' = Some plain"
  by (rule assms(1) [unfolded token_sound_def, rule_format, OF assms(2), THEN conjunct1]
      assms(1) [unfolded token_sound_def, rule_format, OF assms(2), THEN conjunct2, THEN conjunct1]
      assms(1) [unfolded token_sound_def, rule_format, OF assms(2), THEN conjunct2, THEN conjunct2,
        THEN mp], (assumption)?)+

lemma openssl_token_encryptE:
  assumes "openssl_token_encrypt ssl key plain cap r = (Some token, r')"
    and "aes_cbc_sound ssl" "rand_bytes_sound ssl"
  obtains iv cipher mac where "token = iv @ cipher @ mac" "length iv = 16" "length mac = 32"
    "length cipher = (length plain div 16 + 1) * 16"
    "AES_256_CBC_decrypt ssl (drop 32 key) iv cipher = Some plain"
    "openssl_hmac_sha256 ssl (take 32 key) (iv @ cipher) = Some mac"
    "length token \<le> cap" "length token \<le> INT_MAX"
proof -
  from assms(1) obtain iv r1 cipher mac where step:
    "openssl_random_bytes ssl 16 r = (Some iv, r1)"
    "AES_256_CBC_encrypt ssl (drop 32 key) iv plain = Some cipher"
    "openssl_hmac_sha256 ssl (take 32 key) (iv @ cipher) = Some mac" "token = iv @ cipher @ mac"
    "16 + (length plain div 16 + 1) * 16 + 32 \<le> cap" "16 + (length plain div 16 + 1) * 16 + 32 \<le> INT_MAX"
    by (auto simp: openssl_token_encrypt_def Let_def split: if_splits option.splits prod.splits)
  have cipher: "length cipher = (length plain div 16 + 1) * 16"
    "AES_256_CBC_decrypt ssl (drop 32 key) iv cipher = Some plain"
    using assms(2) step(2) by (auto simp: aes_cbc_sound_def)
  have iv: "length iv = 16"
    using assms(3) step(1) by (auto simp: rand_bytes_sound_def openssl_random_bytes_def)
  have mac: "length mac = 32" using step(3) by (rule openssl_hmac_sha256_length)
  show thesis
    by (rule that [OF step(4) iv mac cipher step(3)])
       (use step(4,5,6) cipher(1) iv mac in simp_all)
qed

lemma openssl_token_decrypt_parts:
  assumes "length iv = 16" "length mac = 32" "length cipher = Suc n * 16" "length cipher \<le> INT_MAX"
    "length cipher \<le> cap"
  shows "openssl_token_decrypt ssl key (iv @ cipher @ mac) cap =
           (if openssl_hmac_sha256 ssl (take 32 key) (iv @ cipher) = Some mac
            then AES_256_CBC_decrypt ssl (drop 32 key) iv cipher else None)"
proof -
  let ?token = "iv @ cipher @ mac"
  have len: "length ?token = 48 + length cipher" using assms by simp
  have parts: "take (48 + length cipher - 32) ?token = iv @ cipher"
    "drop (48 + length cipher - 32) ?token = mac"
    "take 16 ?token = iv" "bytes_at 16 (48 + length cipher - 48) ?token = cipher"
    using assms(1,2) by (simp_all add: bytes_at_def)
  have guards: "\<not> 48 + length cipher < 64" "(48 + length cipher - 48) mod 16 = 0"
    "\<not> 48 + length cipher - 48 > INT_MAX" "\<not> cap < 48 + length cipher - 48"
    using assms(3-5) by simp_all
  show ?thesis
    by (auto simp only: openssl_token_decrypt_def len parts guards openssl_constant_time_equal_def
        simp_thms if_False if_True split: option.splits if_splits)
qed

lemma openssl_token_sound:
  assumes "aes_cbc_sound ssl" and "rand_bytes_sound ssl"
  shows "token_sound (Some (openssl_provider ssl))"
proof -
  have "length token = 48 + (length plain div 16 + 1) * 16 \<and> length token \<le> cap \<and>
      (length token - 48 \<le> cap' \<longrightarrow> openssl_token_decrypt ssl key token cap' = Some plain)"
    if enc: "openssl_token_encrypt ssl key plain cap r = (Some token, r')" for key plain cap r token r' cap'
  proof -
    obtain iv cipher mac where tok: "token = iv @ cipher @ mac" "length iv = 16" "length mac = 32"
      "length cipher = (length plain div 16 + 1) * 16"
      "AES_256_CBC_decrypt ssl (drop 32 key) iv cipher = Some plain"
      "openssl_hmac_sha256 ssl (take 32 key) (iv @ cipher) = Some mac"
      "length token \<le> cap" "length token \<le> INT_MAX"
      using openssl_token_encryptE [OF enc assms] by blast
    have size: "length token = 48 + (length plain div 16 + 1) * 16"
      using tok(1-4) by simp
    moreover have "openssl_token_decrypt ssl key token cap' = Some plain" if "length token - 48 \<le> cap'"
      using openssl_token_decrypt_parts [OF tok(2,3), of cipher "length plain div 16" cap' ssl key]
        tok(1-6,8) that by simp
    ultimately show ?thesis using tok(7) by blast
  qed
  then show ?thesis
    by (simp only: token_sound_def rns_token_encrypt_def rns_token_decrypt_def openssl_provider_def
        option.case rns_crypto_provider.simps) blast
qed

text \<open>
  C22. The token round trip: what \<^verbatim>\<open>rns_token_encrypt\<close> produces with the OpenSSL provider has the
  announced size (48 bytes of overhead on the padded plaintext), fits the output it was given, and
  is decrypted to the plaintext under the same key by any output buffer that can hold the cipher
  text.
\<close>

theorem openssl_token_roundtrip:
  fixes ssl :: "'r openssl"
  defines "P \<equiv> Some (openssl_provider ssl)"
  assumes "aes_cbc_sound ssl" and "rand_bytes_sound ssl"
    and "rns_token_encrypt P key plain cap r = (Some token, r')" and "length token - 48 \<le> cap'"
  shows "length token = 48 + (length plain div 16 + 1) * 16 \<and> length token \<le> cap \<and>
         rns_token_decrypt P key token cap' = Some plain"
  using openssl_token_sound [OF assms(2,3)] assms(4,5)
  unfolding P_def token_sound_def by blast

section \<open>A concrete set of primitives\<close>

text \<open>
  Simple functions with the sizes and the algebraic laws of the real primitives (and none of their
  secrecy), at which the properties that assume those laws are instantiated.
\<close>

definition fit :: "nat \<Rightarrow> bytes \<Rightarrow> bytes" where
  "fit n bs = take n (bs @ replicate n 0)"

lemma length_fit [simp]: "length (fit n bs) = n"
  by (simp add: fit_def)

definition pkcs7_pad :: "bytes \<Rightarrow> bytes" where
  "pkcs7_pad bs = bs @ replicate (16 - length bs mod 16) (of_nat (16 - length bs mod 16))"

definition sample_ssl :: "nat openssl" where
  "sample_ssl =
     \<lparr>SHA256 = (\<lambda>data. Some (fit 32 data)),
      HMAC = (\<lambda>key data. Some (fit 32 data)),
      RAND_bytes = (\<lambda>n r. (Some (replicate n (of_nat r)), Suc r)),
      X25519_keygen = (\<lambda>r. (Some (replicate 32 (of_nat r), replicate 32 (of_nat r)), Suc r)),
      X25519_public = (\<lambda>sk. Some (fit 32 sk)),
      X25519_derive = (\<lambda>sk pk. Some (map2 (\<lambda>a b. a XOR b) (fit 32 sk) (fit 32 pk))),
      ED25519_keygen = (\<lambda>r. (Some (replicate 32 (of_nat r), replicate 32 (of_nat r)), Suc r)),
      ED25519_public = (\<lambda>sk. Some (fit 32 sk)),
      ED25519_DigestSign = (\<lambda>sk message. Some (fit 64 message)),
      ED25519_DigestVerify = (\<lambda>pk message s. s = fit 64 message),
      AES_256_CBC_encrypt = (\<lambda>key iv plain. Some (pkcs7_pad plain)),
      AES_256_CBC_decrypt = (\<lambda>key iv cipher. Some (take (length cipher - unat (last cipher)) cipher))\<rparr>"

definition sample_provider :: "nat rns_crypto_provider option" where
  "sample_provider = Some (openssl_provider sample_ssl)"

lemma fit_full: "length bs = n \<Longrightarrow> fit n bs = bs"
  by (simp add: fit_def)

lemma map2_xor_comm: "map2 (\<lambda>a b. a XOR b) xs ys = map2 (\<lambda>a b. a XOR b) ys (xs :: 'a::len word list)"
  by (rule nth_equalityI) (simp_all add: xor.commute)

lemma pkcs7_sound:
  "length (pkcs7_pad plain) = (length plain div 16 + 1) * 16"
  "take (length (pkcs7_pad plain) - unat (last (pkcs7_pad plain))) (pkcs7_pad plain) = plain"
proof -
  let ?n = "16 - length plain mod 16"
  have n: "0 < ?n" "?n \<le> 16" by (simp_all add: Suc_leI)
  have "length plain mod 16 < 16" by simp
  then have "length plain + ?n = length plain div 16 * 16 + 16"
    using div_mult_mod_eq [of "length plain" 16] by linarith
  then show "length (pkcs7_pad plain) = (length plain div 16 + 1) * 16"
    by (simp add: pkcs7_pad_def)
  have "last (pkcs7_pad plain) = of_nat ?n" using n by (simp add: pkcs7_pad_def)
  moreover have "unat (of_nat ?n :: byte) = ?n" using n(2) by (intro unat_of_nat_byte) linarith
  ultimately show "take (length (pkcs7_pad plain) - unat (last (pkcs7_pad plain))) (pkcs7_pad plain) = plain"
    by (simp only:) (simp add: pkcs7_pad_def)
qed

lemma sample_ssl_sound: "aes_cbc_sound sample_ssl" "rand_bytes_sound sample_ssl"
  using pkcs7_sound by (auto simp: aes_cbc_sound_def rand_bytes_sound_def sample_ssl_def)

lemmas sample_provider_defs = sample_provider_def openssl_provider_def sample_ssl_def

lemma sample_provider_eval:
  "rns_sha256 sample_provider data = Some (fit 32 data)"
  "rns_x25519_public_from_private sample_provider sk = Some (fit 32 sk)"
  "rns_ed25519_public_from_private sample_provider sk = Some (fit 32 sk)"
  "rns_ed25519_sign sample_provider sk message = Some (fit 64 message)"
  "rns_ed25519_verify sample_provider pk message s \<longleftrightarrow> s = fit 64 message"
  by (simp_all add: rns_sha256_def rns_x25519_public_from_private_def rns_ed25519_public_from_private_def
      rns_ed25519_sign_def rns_ed25519_verify_def sample_provider_defs openssl_sha256_def
      openssl_x25519_public_from_private_def openssl_ed25519_public_from_private_def
      openssl_ed25519_sign_def openssl_ed25519_verify_def)

lemma openssl_hkdf_length:
  "hkdf_expand ssl prk info n counter block out = Some out' \<Longrightarrow> length out \<le> n \<Longrightarrow> length out' = n"
proof (induction ssl prk info n counter block out rule: hkdf_expand.induct)
  case (1 ssl prk info n counter block out)
  show ?case
  proof (cases "length out < n")
    case True
    then obtain block' where mac:
      "openssl_hmac_sha256 ssl prk (block @ info @ [ucast counter]) = Some block'"
      using "1.prems" by (subst (asm) hkdf_expand.simps) (auto split: option.splits)
    have "(if n - length out < 32 then n - length out else 32) = min (n - length out) 32"
      by (simp add: min_def)
    with True "1.prems" "1.IH" [OF True mac] hkdf_expand_more [OF True mac] show ?thesis by simp
  next
    case False
    with "1.prems" show ?thesis by (simp add: hkdf_expand_done)
  qed
qed

text \<open>The laws that hold of every OpenSSL provider, and those of the instance.\<close>

lemma sample_provider_sound:
  "sha256_sound sample_provider" "hkdf_sound sample_provider" "signature_sound sample_provider"
  "signature_size sample_provider" "public_key_size sample_provider" "generate_sound sample_provider"
  "exchange_sound sample_provider" "token_sound sample_provider"
proof -
  show "sha256_sound sample_provider"
    by (simp add: sha256_sound_def rns_sha256_def sample_provider_defs openssl_sha256_def)
  show "hkdf_sound sample_provider"
    by (auto simp: hkdf_sound_def rns_hkdf_sha256_def sample_provider_def openssl_provider_def
        openssl_hkdf_sha256_def split: if_splits option.splits dest: openssl_hkdf_length)
  show "signature_sound sample_provider" "signature_size sample_provider"
    by (auto simp: signature_sound_def signature_size_def rns_ed25519_sign_def rns_ed25519_verify_def
        sample_provider_defs openssl_ed25519_sign_def openssl_ed25519_verify_def)
  show "public_key_size sample_provider"
    by (auto simp: public_key_size_def rns_x25519_public_from_private_def
        rns_ed25519_public_from_private_def sample_provider_defs
        openssl_x25519_public_from_private_def openssl_ed25519_public_from_private_def)
  show "generate_sound sample_provider"
    by (auto simp: generate_sound_def rns_x25519_generate_def rns_ed25519_generate_def
        rns_x25519_public_from_private_def rns_ed25519_public_from_private_def sample_provider_defs
        openssl_x25519_generate_def openssl_ed25519_generate_def fit_full
        openssl_x25519_public_from_private_def openssl_ed25519_public_from_private_def)
  show "exchange_sound sample_provider"
    by (auto simp: exchange_sound_def rns_x25519_public_from_private_def rns_x25519_exchange_def
        sample_provider_defs openssl_x25519_public_from_private_def openssl_x25519_exchange_def
        fit_full map2_xor_comm)
  show "token_sound sample_provider"
    unfolding sample_provider_def by (rule openssl_token_sound [OF sample_ssl_sound])
qed

theorem openssl_token_roundtrip_witness:
  "\<exists>token. rns_token_encrypt sample_provider [] [7, 8] 80 5 = (Some token, 6) \<and>
     length token = 64 \<and> rns_token_decrypt sample_provider [] token 16 = Some [7, 8]"
proof -
  let ?token = "replicate 16 5 @ ([7, 8] @ replicate 14 14) @ replicate 16 5 @ [7, 8] @ replicate 14 14"
  have "rns_token_encrypt sample_provider [] [7, 8] 80 5 = (Some ?token, 6)"
    by (simp add: rns_token_encrypt_def sample_provider_defs openssl_token_encrypt_def
        openssl_random_bytes_def openssl_hmac_sha256_def pkcs7_pad_def fit_def)
  then show ?thesis
    using openssl_token_roundtrip [OF sample_ssl_sound, of "[]" "[7, 8]" 80 5 ?token 6 16]
    unfolding sample_provider_def by simp
qed

lemma sample_hkdf:
  "input \<noteq> [] \<Longrightarrow> length salt \<le> INT_MAX \<Longrightarrow> length info \<le> 255 \<Longrightarrow> 0 < n \<Longrightarrow> n \<le> 8160 \<Longrightarrow>
     rns_hkdf_sha256 sample_provider input salt info n =
       Some (rfc5869 (\<lambda>key data. fit 32 data) input salt info n)"
  using openssl_hkdf_eq [of sample_ssl "\<lambda>key data. fit 32 data" salt input info n]
  by (simp add: rns_hkdf_sha256_def sample_provider_def openssl_provider_def sample_ssl_def)

theorem openssl_hkdf_is_rfc5869_witness:
  "rns_hkdf_sha256 sample_provider [1, 2] [] [3] 40 =
     Some (rfc5869 (\<lambda>key data. fit 32 data) [1, 2] [] [3] 40)"
  using openssl_hkdf_is_rfc5869 [of sample_ssl "\<lambda>key data. fit 32 data" "[]" "[1, 2]" "[3]" 40]
  unfolding sample_provider_def by (simp add: sample_ssl_def)

end
