(* ===== verification/Packet.thy ===== *)
theory Packet
  imports Crypto
begin

text \<open>
  The packet header of \<^verbatim>\<open>src/packet/packet.c\<close>: encoding, decoding and the packet hash. The data
  pointer and length of the C struct are one list. Decoding yields a fresh packet whose transport
  id is zero in a type 1 header, as the C code clears the struct first.
\<close>

abbreviation (input) RNS_MTU :: nat where "RNS_MTU \<equiv> 500"

record rns_packet =
  pkt_header_type :: byte
  pkt_context_flag :: byte
  pkt_transport_type :: byte
  pkt_destination_type :: byte
  pkt_packet_type :: byte
  pkt_hops :: byte
  pkt_transport_id :: bytes
  pkt_destination_hash :: bytes
  pkt_context :: byte
  pkt_data :: bytes

definition layout :: "byte \<Rightarrow> nat \<Rightarrow> (nat \<times> nat) option" where
  "layout flags raw_length =
     (let co = (if drop_bit 6 flags AND 1 \<noteq> 0 then 34 else 18)
      in if raw_length \<le> co \<or> raw_length > RNS_MTU then None else Some (co, co + 1))"

definition packet_flags :: "rns_packet \<Rightarrow> byte" where
  "packet_flags packet =
     push_bit 6 (pkt_header_type packet) OR push_bit 5 (pkt_context_flag packet) OR
     push_bit 4 (pkt_transport_type packet) OR push_bit 2 (pkt_destination_type packet) OR
     pkt_packet_type packet"

definition rns_packet_encode :: "rns_packet \<Rightarrow> nat \<Rightarrow> bytes option" where
  "rns_packet_encode packet capacity =
     (if pkt_header_type packet > 1 \<or> pkt_context_flag packet > 1 \<or> pkt_transport_type packet > 1 \<or>
         pkt_destination_type packet > 3 \<or> pkt_packet_type packet > 3 then None
      else let address_length = (if pkt_header_type packet = 1 then 32 else 16);
               total = 2 + address_length + 1 + length (pkt_data packet)
           in if total > RNS_MTU \<or> capacity < total then None
              else Some ([packet_flags packet, pkt_hops packet] @
                         (if pkt_header_type packet = 1 then take 16 (pkt_transport_id packet) else []) @
                         take 16 (pkt_destination_hash packet) @ [pkt_context packet] @
                         pkt_data packet))"

definition rns_packet_decode :: "bytes \<Rightarrow> rns_packet option" where
  "rns_packet_decode raw =
     (if length raw < 2 then None
      else case layout (raw ! 0) (length raw) of
             None \<Rightarrow> None
           | Some (context_offset, data_offset) \<Rightarrow>
               if data_offset = length raw then None
               else let header_type = drop_bit 6 (raw ! 0) AND 1;
                        offset = (if header_type = 1 then 18 else 2)
                    in Some \<lparr>pkt_header_type = header_type,
                             pkt_context_flag = drop_bit 5 (raw ! 0) AND 1,
                             pkt_transport_type = drop_bit 4 (raw ! 0) AND 1,
                             pkt_destination_type = drop_bit 2 (raw ! 0) AND 3,
                             pkt_packet_type = raw ! 0 AND 3,
                             pkt_hops = raw ! 1,
                             pkt_transport_id =
                               (if header_type = 1 then bytes_at 2 16 raw else replicate 16 0),
                             pkt_destination_hash = bytes_at offset 16 raw,
                             pkt_context = raw ! context_offset,
                             pkt_data = drop data_offset raw\<rparr>)"

definition rns_packet_hash :: "'r rns_crypto_provider option \<Rightarrow> bytes \<Rightarrow> bytes option" where
  "rns_packet_hash P raw =
     (if length raw < 2 \<or> layout (raw ! 0) (length raw) = None then None
      else let source_offset = (if drop_bit 6 (raw ! 0) AND 1 \<noteq> 0 then 18 else 2)
           in rns_sha256 P ((raw ! 0 AND 0x0f) # drop source_offset raw))"

definition rns_packet_truncated_hash :: "'r rns_crypto_provider option \<Rightarrow> bytes \<Rightarrow> bytes option" where
  "rns_packet_truncated_hash P raw =
     (case rns_packet_hash P raw of None \<Rightarrow> None | Some digest \<Rightarrow> Some (take 16 digest))"

section \<open>Well-formed packets\<close>

definition packet_wf :: "rns_packet \<Rightarrow> bool" where
  "packet_wf p \<longleftrightarrow>
     pkt_header_type p \<le> 1 \<and> pkt_context_flag p \<le> 1 \<and> pkt_transport_type p \<le> 1 \<and>
     pkt_destination_type p \<le> 3 \<and> pkt_packet_type p \<le> 3 \<and>
     length (pkt_transport_id p) = 16 \<and> length (pkt_destination_hash p) = 16 \<and>
     (pkt_header_type p = 0 \<longrightarrow> pkt_transport_id p = replicate 16 0) \<and>
     pkt_data p \<noteq> []"

lemma byte_le_cases:
  fixes b :: byte
  shows "b \<le> 1 \<Longrightarrow> b \<in> {0, 1}" and "b \<le> 3 \<Longrightarrow> b \<in> {0, 1, 2, 3}"
  by (auto simp: word_le_nat_alt word_unat_eq_iff)

text \<open>The flag byte packs and unpacks its five fields, by evaluation over all their values.\<close>

lemma packet_flags_fields:
  assumes "pkt_header_type p \<le> 1" "pkt_context_flag p \<le> 1" "pkt_transport_type p \<le> 1"
    "pkt_destination_type p \<le> 3" "pkt_packet_type p \<le> 3"
  shows "drop_bit 6 (packet_flags p) AND 1 = pkt_header_type p"
    and "drop_bit 5 (packet_flags p) AND 1 = pkt_context_flag p"
    and "drop_bit 4 (packet_flags p) AND 1 = pkt_transport_type p"
    and "drop_bit 2 (packet_flags p) AND 3 = pkt_destination_type p"
    and "packet_flags p AND 3 = pkt_packet_type p"
    and "packet_flags p AND 0x0f = push_bit 2 (pkt_destination_type p) OR pkt_packet_type p"
    and "packet_flags p < 0x80"
proof -
  have *: "\<forall>h \<in> {0, 1}. \<forall>c \<in> {0, 1}. \<forall>t \<in> {0, 1}. \<forall>d \<in> {0, 1, 2, 3}. \<forall>k \<in> {0, 1, 2, 3 :: byte}.
     let f = push_bit 6 h OR push_bit 5 c OR push_bit 4 t OR push_bit 2 d OR k
     in drop_bit 6 f AND 1 = h \<and> drop_bit 5 f AND 1 = c \<and> drop_bit 4 f AND 1 = t \<and>
        drop_bit 2 f AND 3 = d \<and> f AND 3 = k \<and> f AND 0x0f = (push_bit 2 d OR k) \<and> f < 0x80"
    by code_simp
  have "pkt_header_type p \<in> {0, 1}" "pkt_context_flag p \<in> {0, 1}" "pkt_transport_type p \<in> {0, 1}"
    "pkt_destination_type p \<in> {0, 1, 2, 3}" "pkt_packet_type p \<in> {0, 1, 2, 3}"
    using assms by (simp_all only: byte_le_cases)
  note fields = * [THEN bspec, OF this(1), THEN bspec, OF this(2), THEN bspec, OF this(3),
      THEN bspec, OF this(4), THEN bspec, OF this(5), unfolded Let_def, folded packet_flags_def]
  show "drop_bit 6 (packet_flags p) AND 1 = pkt_header_type p"
    "drop_bit 5 (packet_flags p) AND 1 = pkt_context_flag p"
    "drop_bit 4 (packet_flags p) AND 1 = pkt_transport_type p"
    "drop_bit 2 (packet_flags p) AND 3 = pkt_destination_type p"
    "packet_flags p AND 3 = pkt_packet_type p"
    "packet_flags p AND 0x0f = push_bit 2 (pkt_destination_type p) OR pkt_packet_type p"
    "packet_flags p < 0x80"
    using fields by blast+
qed

lemma packet_flags_rebuild:
  assumes "b < 0x80"
  shows "push_bit 6 (drop_bit 6 b AND 1) OR push_bit 5 (drop_bit 5 b AND 1) OR
         push_bit 4 (drop_bit 4 b AND 1) OR push_bit 2 (drop_bit 2 b AND 3) OR (b AND 3) = (b :: byte)"
proof -
  have "\<forall>b \<in> set (map of_nat [0..<128]).
      push_bit 6 (drop_bit 6 b AND 1) OR push_bit 5 (drop_bit 5 b AND 1) OR
      push_bit 4 (drop_bit 4 b AND 1) OR push_bit 2 (drop_bit 2 b AND 3) OR (b AND 3) = (b :: byte)"
    by code_simp
  moreover have "b \<in> set (map of_nat [0..<128])"
    using assms by (intro byte_below) (simp add: word_less_nat_alt)
  ultimately show ?thesis by blast
qed

lemma word_and_le: "b AND 1 \<le> (1 :: byte)" "b AND 3 \<le> (3 :: byte)"
  by (rule word_and_le1)+

definition packet_image :: "rns_packet \<Rightarrow> bytes" where
  "packet_image p =
     [packet_flags p, pkt_hops p] @ (if pkt_header_type p = 1 then pkt_transport_id p else []) @
     pkt_destination_hash p @ [pkt_context p] @ pkt_data p"

lemma length_packet_image:
  "packet_wf p \<Longrightarrow>
     length (packet_image p) = (if pkt_header_type p = 1 then 35 else 19) + length (pkt_data p)"
  by (auto simp: packet_image_def packet_wf_def)

lemma rns_packet_encode_eq:
  assumes "packet_wf p"
  shows "rns_packet_encode p capacity =
           (if length (packet_image p) \<le> RNS_MTU \<and> length (packet_image p) \<le> capacity
            then Some (packet_image p) else None)"
  using assms length_packet_image [OF assms]
  by (auto simp: rns_packet_encode_def packet_wf_def packet_image_def Let_def not_less)

lemma layout_image:
  assumes "packet_wf p" "length (packet_image p) \<le> RNS_MTU"
  shows "layout (packet_flags p) (length (packet_image p)) =
           (if pkt_header_type p = 1 then Some (34, 35) else Some (18, 19))"
proof -
  have "drop_bit 6 (packet_flags p) AND 1 = pkt_header_type p"
    using assms(1) by (intro packet_flags_fields) (auto simp: packet_wf_def)
  moreover have "pkt_header_type p = 0 \<or> pkt_header_type p = 1"
    using assms(1) byte_le_cases(1) by (auto simp: packet_wf_def)
  ultimately show ?thesis
    using assms length_packet_image [OF assms(1)] by (auto simp: layout_def packet_wf_def)
qed

lemma rns_packet_decode_image:
  assumes "packet_wf p" "length (packet_image p) \<le> RNS_MTU"
  shows "rns_packet_decode (packet_image p) = Some p"
proof -
  have wf: "pkt_header_type p \<le> 1" "pkt_context_flag p \<le> 1" "pkt_transport_type p \<le> 1"
    "pkt_destination_type p \<le> 3" "pkt_packet_type p \<le> 3" "length (pkt_transport_id p) = 16"
    "length (pkt_destination_hash p) = 16" "pkt_data p \<noteq> []"
    "pkt_header_type p = 0 \<Longrightarrow> pkt_transport_id p = replicate 16 0"
    using assms(1) by (auto simp: packet_wf_def)
  note fields = packet_flags_fields [OF wf(1-5)]
  have head: "packet_image p ! 0 = packet_flags p" "packet_image p ! Suc 0 = pkt_hops p"
    "\<not> length (packet_image p) < 2"
    by (simp_all add: packet_image_def)
  note sizes = length_packet_image [OF assms(1)] layout_image [OF assms]
  consider (one) "pkt_header_type p = 0" | (two) "pkt_header_type p = 1"
    using byte_le_cases(1) [OF wf(1)] by auto
  then show ?thesis
  proof cases
    case one
    then have image: "packet_image p =
        [packet_flags p, pkt_hops p] @ pkt_destination_hash p @ [pkt_context p] @ pkt_data p"
      by (simp add: packet_image_def)
    have "bytes_at 2 16 (packet_image p) = pkt_destination_hash p"
      "packet_image p ! 18 = pkt_context p" "drop 19 (packet_image p) = pkt_data p"
      using wf(7) by (simp_all add: image bytes_at_def nth_append)
    moreover have "layout (packet_flags p) (19 + length (pkt_data p)) = Some (18, 19)"
      using sizes one by simp
    ultimately show ?thesis
      using one wf sizes(1)
      by (auto simp: rns_packet_decode_def head fields Let_def intro!: rns_packet.equality)
  next
    case two
    then have image: "packet_image p = [packet_flags p, pkt_hops p] @ pkt_transport_id p @
        pkt_destination_hash p @ [pkt_context p] @ pkt_data p"
      by (simp add: packet_image_def)
    have "bytes_at 2 16 (packet_image p) = pkt_transport_id p"
      "bytes_at 18 16 (packet_image p) = pkt_destination_hash p"
      "packet_image p ! 34 = pkt_context p" "drop 35 (packet_image p) = pkt_data p"
      using wf(6,7) by (simp_all add: image bytes_at_def nth_append)
    moreover have "layout (packet_flags p) (35 + length (pkt_data p)) = Some (34, 35)"
      using sizes two by simp
    ultimately show ?thesis
      using two wf sizes(1)
      by (auto simp: rns_packet_decode_def head fields Let_def intro!: rns_packet.equality)
  qed
qed

lemma rns_packet_decode_sound:
  assumes "rns_packet_decode raw = Some p" "raw ! 0 < 0x80"
  shows "packet_wf p \<and> packet_image p = raw \<and> length raw \<le> RNS_MTU"
proof -
  obtain co do where lay: "length raw \<ge> 2" "layout (raw ! 0) (length raw) = Some (co, do)" "do \<noteq> length raw"
    using assms(1) by (auto simp: rns_packet_decode_def split: if_splits option.splits)
  let ?h = "drop_bit 6 (raw ! 0) AND 1"
  have sizes: "co = (if ?h = 1 then 34 else 18)" "do = co + 1" "do < length raw" "length raw \<le> RNS_MTU"
    "?h = 0 \<or> ?h = 1"
    using lay byte_le_cases(1) [OF word_and_le(1), of "drop_bit 6 (raw ! 0)"]
    by (auto simp: layout_def Let_def split: if_splits)
  have flags: "packet_flags p = raw ! 0"
    using assms lay packet_flags_rebuild [OF assms(2)]
    by (auto simp: rns_packet_decode_def packet_flags_def Let_def)
  have head: "raw = [raw ! 0, raw ! 1] @ drop 2 raw"
    using lay(1) by (cases raw; cases "tl raw") auto
  show ?thesis
  proof (cases "?h = 1")
    case True
    have "drop 2 raw = bytes_at 2 16 raw @ bytes_at 18 16 raw @ raw ! 34 # drop 35 raw"
      using drop_eq_bytes_at [of 2 raw 16] drop_eq_bytes_at_nth [of 18 16 raw] sizes True by simp
    with True sizes show ?thesis
      using assms(1) lay flags head
      by (auto simp: rns_packet_decode_def packet_image_def packet_wf_def Let_def word_and_le)
  next
    case False
    have "drop 2 raw = bytes_at 2 16 raw @ raw ! 18 # drop 19 raw"
      using drop_eq_bytes_at_nth [of 2 16 raw] sizes False by simp
    with False sizes show ?thesis
      using assms(1) lay flags head
      by (auto simp: rns_packet_decode_def packet_image_def packet_wf_def Let_def word_and_le)
  qed
qed

interpretation packet: canonical_codec "\<lambda>p. rns_packet_encode p RNS_MTU" rns_packet_decode packet_wf
  "\<lambda>raw. raw ! 0 < 0x80"
  by unfold_locales
     (auto simp: rns_packet_encode_eq rns_packet_decode_image split: if_splits
           dest: rns_packet_decode_sound)

section \<open>Properties\<close>

definition sample_packet :: rns_packet where
  "sample_packet =
     \<lparr>pkt_header_type = 1, pkt_context_flag = 0, pkt_transport_type = 1, pkt_destination_type = 2,
      pkt_packet_type = 3, pkt_hops = 7, pkt_transport_id = replicate 16 9,
      pkt_destination_hash = replicate 16 4, pkt_context = 5, pkt_data = [1, 2]\<rparr>"

lemma sample_packet_wf: "packet_wf sample_packet"
  by (simp add: packet_wf_def sample_packet_def)

text \<open>
  The flags byte of a received packet may have its top bit set, the interface-access bit; the
  decoder does not look at it.
\<close>

definition clear_access_bit :: "bytes \<Rightarrow> bytes" where
  "clear_access_bit raw = raw[0 := raw ! 0 AND 0x7f]"

lemma and_access_bit: "(b :: byte) AND 0x7f < 0x80" "b < 0x80 \<Longrightarrow> b AND 0x7f = b"
proof -
  have low: "(0x7f :: byte) = mask 7" by (simp add: mask_eq_exp_minus_1)
  have "unat (b AND 0x7f) = unat b mod 128"
    unfolding low take_bit_eq_mask [symmetric] unsigned_take_bit_eq by (simp add: take_bit_nat_def)
  then show "b AND 0x7f < 0x80" "b < 0x80 \<Longrightarrow> b AND 0x7f = b"
    by (simp_all add: word_less_nat_alt word_unat_eq_iff)
qed

lemma rns_packet_decode_clear: "rns_packet_decode (clear_access_bit raw) = rns_packet_decode raw"
proof (cases raw)
  case (Cons b bs)
  have "drop_bit 6 (b AND 0x7f) AND 1 = drop_bit 6 b AND 1" "drop_bit 5 (b AND 0x7f) AND 1 = drop_bit 5 b AND 1"
    "drop_bit 4 (b AND 0x7f) AND 1 = drop_bit 4 b AND 1" "drop_bit 2 (b AND 0x7f) AND 3 = drop_bit 2 b AND 3"
    "(b AND 0x7f) AND 3 = b AND 3"
    by (simp_all add: drop_bit_and and.assoc)
  with Cons show ?thesis
    by (simp add: clear_access_bit_def rns_packet_decode_def layout_def bytes_at_def Let_def numeral_eq_Suc)
qed (simp add: clear_access_bit_def)

text \<open>
  The two address fields of the struct are arrays of 16 bytes. A type 1 header does not carry the
  transport id, which decoding therefore leaves zero.
\<close>

definition packet_typed :: "rns_packet \<Rightarrow> bool" where
  "packet_typed p \<longleftrightarrow> length (pkt_transport_id p) = 16 \<and> length (pkt_destination_hash p) = 16"

definition transmitted :: "rns_packet \<Rightarrow> rns_packet" where
  "transmitted p = (if pkt_header_type p = 1 then p else p\<lparr>pkt_transport_id := replicate 16 0\<rparr>)"

lemma rns_packet_encode_transmitted: "rns_packet_encode (transmitted p) = rns_packet_encode p"
  by (rule ext) (simp add: rns_packet_encode_def transmitted_def packet_flags_def)

lemma transmitted_wf:
  assumes "packet_typed p" "rns_packet_encode p capacity = Some raw" "pkt_data p \<noteq> []"
  shows "packet_wf (transmitted p)"
  using assms by (auto simp: packet_typed_def packet_wf_def transmitted_def rns_packet_encode_def not_less
      split: if_splits dest: byte_le_cases(1))

lemma rns_packet_decode_no_data:
  assumes "packet_typed p" "rns_packet_encode p capacity = Some raw" "pkt_data p = []"
  shows "rns_packet_decode raw = None"
proof -
  have fields: "pkt_header_type p \<le> 1" "pkt_context_flag p \<le> 1" "pkt_transport_type p \<le> 1"
    "pkt_destination_type p \<le> 3" "pkt_packet_type p \<le> 3"
    using assms(2) by (auto simp: rns_packet_encode_def not_less split: if_splits)
  have raw: "raw = packet_image p" "length raw = (if pkt_header_type p = 1 then 35 else 19)"
    using assms by (auto simp: rns_packet_encode_def packet_image_def packet_typed_def Let_def split: if_splits)
  have "drop_bit 6 (raw ! 0) AND 1 = pkt_header_type p"
    using packet_flags_fields(1) [OF fields] by (simp add: raw(1) packet_image_def)
  then show ?thesis
    using raw(2) byte_le_cases(1) [OF fields(1)] by (auto simp: rns_packet_decode_def layout_def)
qed

lemma rns_packet_decode_encoded:
  assumes "packet_typed p" "rns_packet_encode p capacity = Some raw" "pkt_data p \<noteq> []"
  shows "rns_packet_decode raw = Some (transmitted p) \<and> raw ! 0 < 0x80 \<and> 3 \<le> length raw"
proof -
  have wf: "packet_wf (transmitted p)" by (rule transmitted_wf [OF assms])
  have raw: "raw = packet_image (transmitted p)" "length raw \<le> RNS_MTU"
    using assms(2) rns_packet_encode_transmitted [of p] rns_packet_encode_eq [OF wf, of capacity]
    by (auto split: if_splits)
  moreover have "packet_flags (transmitted p) < 0x80"
    using wf by (intro packet_flags_fields(7)) (auto simp: packet_wf_def)
  ultimately show ?thesis
    using rns_packet_decode_image [OF wf] length_packet_image [OF wf]
    by (simp add: packet_image_def split: if_splits)
qed

text \<open>
  C8. What the encoder writes: for every packet it accepts, of either header type and with any field
  values, the encoding respects the MTU and the output's capacity, and decoding it gives the packet
  back, field by field, with the transport id zero when the header does not carry it. The one
  exception is a packet without data: the encoder accepts it and the decoder refuses the result.
\<close>

theorem packet_encode_decode:
  assumes "packet_typed p" and "rns_packet_encode p capacity = Some raw"
  shows "rns_packet_decode raw = (if pkt_data p = [] then None else Some (transmitted p)) \<and>
         length raw = (if pkt_header_type p = 1 then 35 else 19) + length (pkt_data p) \<and>
         length raw \<le> RNS_MTU \<and> length raw \<le> capacity"
  using assms rns_packet_decode_no_data [OF assms] rns_packet_decode_encoded [OF assms]
  by (auto simp: rns_packet_encode_def packet_typed_def Let_def split: if_splits)

theorem packet_encode_decode_witness:
  "rns_packet_decode ([0x5b, 7] @ replicate 16 9 @ replicate 16 4 @ [5, 1, 2]) = Some sample_packet \<and>
   rns_packet_decode ([0x5b, 7] @ replicate 16 9 @ replicate 16 4 @ [5]) = None"
proof -
  have "rns_packet_encode sample_packet 500 =
      Some ([0x5b, 7] @ replicate 16 9 @ replicate 16 4 @ [5, 1, 2])"
    "rns_packet_encode (sample_packet\<lparr>pkt_data := []\<rparr>) 500 =
      Some ([0x5b, 7] @ replicate 16 9 @ replicate 16 4 @ [5])"
    by (simp_all add: rns_packet_encode_def sample_packet_def packet_flags_def)
  from packet_encode_decode [OF _ this(1)] packet_encode_decode [OF _ this(2)] show ?thesis
    by (simp add: packet_typed_def transmitted_def sample_packet_def)
qed

text \<open>
  C9. What the decoder accepts: every packet it accepts decodes to a well-formed packet with data,
  whose re-encoding is the packet received, byte for byte, with the interface-access bit (bit 7 of
  the first byte) cleared. So two received packets that decode to the same packet differ in
  that bit only, and one that arrived with the bit clear re-encodes to itself.
\<close>

theorem packet_decode_encode:
  assumes "rns_packet_decode raw = Some p" and "length raw \<le> capacity"
  shows "packet_wf p \<and> rns_packet_encode p capacity = Some (clear_access_bit raw) \<and>
         (\<forall>raw'. rns_packet_decode raw' = Some p \<longrightarrow> clear_access_bit raw' = clear_access_bit raw) \<and>
         (raw ! 0 < 0x80 \<longrightarrow> rns_packet_encode p capacity = Some raw)"
proof -
  have sound: "packet_wf p \<and> packet_image p = clear_access_bit r \<and> length r \<le> RNS_MTU"
    if "rns_packet_decode r = Some p" for r
  proof -
    have "r \<noteq> []" using that by (auto simp: rns_packet_decode_def)
    then have "clear_access_bit r ! 0 < 0x80" by (simp add: clear_access_bit_def and_access_bit)
    with rns_packet_decode_sound [of "clear_access_bit r" p] that show ?thesis
      by (simp add: rns_packet_decode_clear) (simp add: clear_access_bit_def)
  qed
  have keep: "clear_access_bit raw = raw" if "raw ! 0 < 0x80"
    using that by (simp add: clear_access_bit_def and_access_bit)
  show ?thesis
    using sound [OF assms(1)] sound assms(2) keep
    by (auto simp: rns_packet_encode_eq clear_access_bit_def)
qed

theorem packet_decode_encode_witness:
  "\<exists>p. rns_packet_decode (0x83 # replicate 20 6) = Some p \<and>
       rns_packet_encode p 100 = Some (0x03 # replicate 20 6)"
proof -
  have "rns_packet_decode (0x83 # replicate 20 6) \<noteq> None"
    by (simp add: rns_packet_decode_def layout_def)
  then obtain p where p: "rns_packet_decode (0x83 # replicate 20 6) = Some p" by blast
  then show ?thesis using packet_decode_encode [OF p, of 100] by (simp add: clear_access_bit_def)
qed

lemma rns_packet_hash_image:
  assumes "packet_wf p" "length (packet_image p) \<le> RNS_MTU"
  shows "rns_packet_hash P (packet_image p) =
           rns_sha256 P ((push_bit 2 (pkt_destination_type p) OR pkt_packet_type p) #
                         pkt_destination_hash p @ [pkt_context p] @ pkt_data p)"
proof -
  have wf: "pkt_header_type p \<le> 1" "pkt_context_flag p \<le> 1" "pkt_transport_type p \<le> 1"
    "pkt_destination_type p \<le> 3" "pkt_packet_type p \<le> 3" "length (pkt_transport_id p) = 16"
    using assms(1) by (auto simp: packet_wf_def)
  have head: "packet_image p ! 0 = packet_flags p" "\<not> length (packet_image p) < 2"
    by (simp_all add: packet_image_def)
  have "drop (if pkt_header_type p \<noteq> 0 then 18 else 2) (packet_image p) =
      pkt_destination_hash p @ [pkt_context p] @ pkt_data p"
    using wf(6) byte_le_cases(1) [OF wf(1)] by (auto simp: packet_image_def)
  then show ?thesis
    using layout_image [OF assms]
    by (simp add: rns_packet_hash_def head packet_flags_fields [OF wf(1-5)] Let_def)
qed

lemma hash_nibble_inject:
  assumes "d \<le> 3" "k \<le> 3" "d' \<le> 3" "k' \<le> (3 :: byte)"
    and "push_bit 2 d OR k = push_bit 2 d' OR k'"
  shows "d = d' \<and> k = k'"
proof -
  have "\<forall>d \<in> {0, 1, 2, 3}. \<forall>k \<in> {0, 1, 2, 3 :: byte}.
      drop_bit 2 (push_bit 2 d OR k) = d \<and> (push_bit 2 d OR k) AND 3 = k"
    by code_simp
  then show ?thesis
    using byte_le_cases(2) [OF assms(1)] byte_le_cases(2) [OF assms(2)]
      byte_le_cases(2) [OF assms(3)] byte_le_cases(2) [OF assms(4)] assms(5) by metis
qed

text \<open>
  The packet hash identifies what forwarding keeps and nothing else: two encoded packets have
  the same hash under every hash function if and only if they agree on destination type, packet
  type, destination hash, context and data. Hops, header type, transport type, transport id and
  context flag do not enter it, so a packet keeps its hash along its whole path.
\<close>

theorem packet_hash_forwarding:
  assumes "packet_wf p" "rns_packet_encode p cap = Some raw"
    and "packet_wf q" "rns_packet_encode q cap' = Some raw'"
  shows "(\<forall>P. rns_packet_hash (P :: unit rns_crypto_provider option) raw = rns_packet_hash P raw') \<longleftrightarrow>
         pkt_destination_type p = pkt_destination_type q \<and> pkt_packet_type p = pkt_packet_type q \<and>
         pkt_destination_hash p = pkt_destination_hash q \<and> pkt_context p = pkt_context q \<and>
         pkt_data p = pkt_data q"
    (is "?same \<longleftrightarrow> ?agree")
proof
  have raws: "raw = packet_image p" "raw' = packet_image q" "length raw \<le> RNS_MTU" "length raw' \<le> RNS_MTU"
    using assms by (auto simp: rns_packet_encode_eq split: if_splits)
  note hash = rns_packet_hash_image [OF assms(1)] rns_packet_hash_image [OF assms(3)]
  show ?same if ?agree
    using that raws by (simp add: hash)
  show ?agree if ?same
  proof -
    let ?P = "Some (openssl_provider (undefined\<lparr>SHA256 := Some\<rparr>)) :: unit rns_crypto_provider option"
    have "rns_sha256 ?P data = Some data" for data
      by (simp add: rns_sha256_def openssl_provider_def openssl_sha256_def)
    with that [rule_format, of ?P] raws hash [of ?P]
    have "(push_bit 2 (pkt_destination_type p) OR pkt_packet_type p) #
          pkt_destination_hash p @ [pkt_context p] @ pkt_data p =
        (push_bit 2 (pkt_destination_type q) OR pkt_packet_type q) #
          pkt_destination_hash q @ [pkt_context q] @ pkt_data q" by simp
    then show ?agree
      using assms(1,3) hash_nibble_inject [of "pkt_destination_type p" "pkt_packet_type p"
          "pkt_destination_type q" "pkt_packet_type q"]
      by (auto simp: packet_wf_def)
  qed
qed

theorem packet_hash_forwarding_witness:
  "\<forall>P. rns_packet_hash (P :: unit rns_crypto_provider option)
        ([0x5b, 7] @ replicate 16 9 @ replicate 16 4 @ [5, 1, 2]) =
      rns_packet_hash P ([0x0b, 6] @ replicate 16 4 @ [5, 1, 2])"
proof -
  let ?q = "sample_packet\<lparr>pkt_header_type := 0, pkt_transport_type := 0, pkt_hops := 6,
      pkt_transport_id := replicate 16 0\<rparr>"
  have "rns_packet_encode sample_packet 500 =
      Some ([0x5b, 7] @ replicate 16 9 @ replicate 16 4 @ [5, 1, 2])"
    "rns_packet_encode ?q 500 = Some ([0x0b, 6] @ replicate 16 4 @ [5, 1, 2])" "packet_wf ?q"
    by (simp_all add: rns_packet_encode_def sample_packet_def packet_flags_def packet_wf_def)
  from packet_hash_forwarding [OF sample_packet_wf this(1) this(3) this(2)] show ?thesis
    by (simp add: sample_packet_def)
qed

end
