(* ===== verification/Identity.thy ===== *)
theory Identity
  imports Crypto
begin

text \<open>
  Identities and destinations: \<^verbatim>\<open>src/identity/identity.c\<close> and
  \<^verbatim>\<open>src/destination/destination.c\<close>. An identity is a pair of X25519 and Ed25519 keys with the
  truncated hash of the public halves; decryption tries a list of ratchet keys before the
  identity's own key.
\<close>

section \<open>Identities\<close>

record rns_identity =
  encryption_private :: bytes
  signing_private :: bytes
  encryption_public :: bytes
  signing_public :: bytes
  identity_hash :: bytes
  has_private :: bool

definition zero_identity :: rns_identity where
  "zero_identity =
     \<lparr>encryption_private = replicate 32 0, signing_private = replicate 32 0,
      encryption_public = replicate 32 0, signing_public = replicate 32 0,
      identity_hash = replicate 16 0, has_private = False\<rparr>"

definition update_hash :: "'r rns_crypto_provider option \<Rightarrow> rns_identity \<Rightarrow> rns_identity option" where
  "update_hash P identity =
     (case rns_sha256 P (encryption_public identity @ signing_public identity) of
        None \<Rightarrow> None
      | Some digest \<Rightarrow> Some (identity\<lparr>identity_hash := take 16 digest\<rparr>))"

definition rns_identity_generate ::
  "'r rns_crypto_provider option \<Rightarrow> 'r \<Rightarrow> rns_identity option \<times> 'r" where
  "rns_identity_generate P r =
     (case rns_x25519_generate P r of
        (None, r1) \<Rightarrow> (None, r1)
      | (Some (ek, ep), r1) \<Rightarrow>
          (case rns_ed25519_generate P r1 of
             (None, r2) \<Rightarrow> (None, r2)
           | (Some (sk, sp), r2) \<Rightarrow>
               (update_hash P
                  (zero_identity\<lparr>encryption_private := ek, encryption_public := ep,
                     signing_private := sk, signing_public := sp, has_private := True\<rparr>), r2)))"

definition rns_identity_from_private ::
  "'r rns_crypto_provider option \<Rightarrow> bytes \<Rightarrow> rns_identity option" where
  "rns_identity_from_private P private_key =
     (let ek = take 32 private_key; sk = bytes_at 32 32 private_key
      in case rns_x25519_public_from_private P ek of
           None \<Rightarrow> None
         | Some ep \<Rightarrow>
             (case rns_ed25519_public_from_private P sk of
                None \<Rightarrow> None
              | Some sp \<Rightarrow>
                  update_hash P
                    (zero_identity\<lparr>encryption_private := ek, encryption_public := ep,
                       signing_private := sk, signing_public := sp, has_private := True\<rparr>)))"

definition rns_identity_from_public ::
  "'r rns_crypto_provider option \<Rightarrow> bytes \<Rightarrow> rns_identity option" where
  "rns_identity_from_public P public_key =
     update_hash P (zero_identity\<lparr>encryption_public := take 32 public_key,
                                  signing_public := bytes_at 32 32 public_key\<rparr>)"

definition rns_identity_export_private :: "rns_identity \<Rightarrow> bytes option" where
  "rns_identity_export_private identity =
     (if \<not> has_private identity then None
      else Some (encryption_private identity @ signing_private identity))"

definition rns_identity_export_public :: "rns_identity \<Rightarrow> bytes" where
  "rns_identity_export_public identity = encryption_public identity @ signing_public identity"

definition rns_identity_sign ::
  "'r rns_crypto_provider option \<Rightarrow> rns_identity \<Rightarrow> bytes \<Rightarrow> bytes option" where
  "rns_identity_sign P identity message =
     (if has_private identity then rns_ed25519_sign P (signing_private identity) message else None)"

definition rns_identity_verify ::
  "'r rns_crypto_provider option \<Rightarrow> rns_identity \<Rightarrow> bytes \<Rightarrow> bytes \<Rightarrow> bool" where
  "rns_identity_verify P identity message signature =
     rns_ed25519_verify P (signing_public identity) message signature"

definition rns_identity_encrypt_bound :: "nat \<Rightarrow> nat" where
  "rns_identity_encrypt_bound plaintext_length =
     (if plaintext_length > SIZE_MAX - 16 then 0
      else let blocks = plaintext_length div 16 + 1
           in if blocks > (SIZE_MAX - 80) div 16 then 0 else 80 + blocks * 16)"

definition rns_identity_encrypt ::
  "'r rns_crypto_provider option \<Rightarrow> rns_identity \<Rightarrow> bytes option \<Rightarrow> bytes \<Rightarrow> nat \<Rightarrow> 'r \<Rightarrow>
     bytes option \<times> 'r" where
  "rns_identity_encrypt P identity ratchet_public plaintext out_capacity r =
     (let bound = rns_identity_encrypt_bound (length plaintext);
          target = (case ratchet_public of Some k \<Rightarrow> k | None \<Rightarrow> encryption_public identity)
      in if bound = 0 \<or> out_capacity < bound then (None, r)
         else case rns_x25519_generate P r of
                (None, r1) \<Rightarrow> (None, r1)
              | (Some (ephemeral_private, ephemeral_public), r1) \<Rightarrow>
                  (case rns_x25519_exchange P ephemeral_private target of
                     None \<Rightarrow> (None, r1)
                   | Some shared \<Rightarrow>
                       (case rns_hkdf_sha256 P shared (identity_hash identity) [] 64 of
                          None \<Rightarrow> (None, r1)
                        | Some derived \<Rightarrow>
                            (case rns_token_encrypt P derived plaintext (out_capacity - 32) r1 of
                               (None, r2) \<Rightarrow> (None, r2)
                             | (Some token, r2) \<Rightarrow> (Some (ephemeral_public @ token), r2)))))"

definition rns_identity_ratchet_id :: "'r rns_crypto_provider option \<Rightarrow> bytes \<Rightarrow> bytes" where
  "rns_identity_ratchet_id P public_key =
     (case rns_sha256 P public_key of None \<Rightarrow> replicate 16 0 | Some digest \<Rightarrow> take 16 digest)"

definition rns_identity_ratchet_generate ::
  "'r rns_crypto_provider option \<Rightarrow> 'r \<Rightarrow> (bytes \<times> bytes \<times> bytes) option \<times> 'r" where
  "rns_identity_ratchet_generate P r =
     (case rns_x25519_generate P r of
        (None, r1) \<Rightarrow> (None, r1)
      | (Some (private_key, public_key), r1) \<Rightarrow>
          (Some (private_key, public_key, rns_identity_ratchet_id P public_key), r1))"

definition decrypt_with_private ::
  "'r rns_crypto_provider option \<Rightarrow> rns_identity \<Rightarrow> bytes \<Rightarrow> bytes \<Rightarrow> nat \<Rightarrow> bytes option" where
  "decrypt_with_private P identity private_key ciphertext out_capacity =
     (case rns_x25519_exchange P private_key (take 32 ciphertext) of
        None \<Rightarrow> None
      | Some shared \<Rightarrow>
          (case rns_hkdf_sha256 P shared (identity_hash identity) [] 64 of
             None \<Rightarrow> None
           | Some derived \<Rightarrow> rns_token_decrypt P derived (drop 32 ciphertext) out_capacity))"

text \<open>
  The ratchet loop. The outcome of a key that opens the ciphertext is the plaintext and the ratchet
  id; failing to derive that key's public half aborts the whole decryption (\<open>Some None\<close>), while
  running out of keys (\<open>None\<close>) leaves the decision to the fallback.
\<close>

fun decrypt_ratchet_loop ::
  "'r rns_crypto_provider option \<Rightarrow> rns_identity \<Rightarrow> bool \<Rightarrow> bytes list \<Rightarrow> bytes \<Rightarrow> nat \<Rightarrow>
     (bytes \<times> bytes option) option option" where
  "decrypt_ratchet_loop P identity want_id [] ciphertext out_capacity = None"
| "decrypt_ratchet_loop P identity want_id (private_key # keys) ciphertext out_capacity =
     (case decrypt_with_private P identity private_key ciphertext out_capacity of
        Some plaintext \<Rightarrow>
          Some (if want_id
                then case rns_x25519_public_from_private P private_key of
                       None \<Rightarrow> None
                     | Some public_key \<Rightarrow>
                         Some (plaintext, Some (rns_identity_ratchet_id P public_key))
                else Some (plaintext, None))
      | None \<Rightarrow> decrypt_ratchet_loop P identity want_id keys ciphertext out_capacity)"

record decrypt_result =
  dr_plaintext :: bytes
  dr_ratchet_id :: bytes
  dr_used_ratchet :: bool

definition rns_identity_decrypt_with_ratchets ::
  "'r rns_crypto_provider option \<Rightarrow> rns_identity \<Rightarrow> bytes list \<Rightarrow> bool \<Rightarrow> bytes \<Rightarrow> nat \<Rightarrow> bool \<Rightarrow>
     decrypt_result option" where
  "rns_identity_decrypt_with_ratchets P identity ratchets enforce_ratchets ciphertext out_capacity
       want_id =
     (if \<not> has_private identity \<or> length ciphertext \<le> 32 \<or> length ratchets > SIZE_MAX div 32 then None
      else case decrypt_ratchet_loop P identity want_id ratchets ciphertext out_capacity of
             Some None \<Rightarrow> None
           | Some (Some (plaintext, ratchet_id)) \<Rightarrow>
               Some \<lparr>dr_plaintext = plaintext,
                     dr_ratchet_id = (case ratchet_id of Some i \<Rightarrow> i | None \<Rightarrow> replicate 16 0),
                     dr_used_ratchet = True\<rparr>
           | None \<Rightarrow>
               if enforce_ratchets then None
               else (case decrypt_with_private P identity (encryption_private identity) ciphertext
                            out_capacity of
                       None \<Rightarrow> None
                     | Some plaintext \<Rightarrow>
                         Some \<lparr>dr_plaintext = plaintext, dr_ratchet_id = replicate 16 0,
                               dr_used_ratchet = False\<rparr>))"

definition rns_identity_decrypt ::
  "'r rns_crypto_provider option \<Rightarrow> rns_identity \<Rightarrow> bytes \<Rightarrow> nat \<Rightarrow> bytes option" where
  "rns_identity_decrypt P identity ciphertext out_capacity =
     (case rns_identity_decrypt_with_ratchets P identity [] False ciphertext out_capacity False of
        None \<Rightarrow> None | Some result \<Rightarrow> Some (dr_plaintext result))"

section \<open>Destinations\<close>

text \<open>Names are C strings: byte lists without a zero byte. 46 is the dot.\<close>

definition valid_component :: "bytes \<Rightarrow> bool" where
  "valid_component component \<longleftrightarrow> component \<noteq> [] \<and> 46 \<notin> set component"

fun name_aspects :: "bytes list \<Rightarrow> bytes \<Rightarrow> bytes option" where
  "name_aspects [] name = Some name"
| "name_aspects (aspect # aspects) name =
     (if \<not> valid_component aspect \<or> length aspect > SIZE_MAX - length name - 1 then None
      else name_aspects aspects (name @ 46 # aspect))"

definition rns_destination_name_hash ::
  "'r rns_crypto_provider option \<Rightarrow> bytes \<Rightarrow> bytes list \<Rightarrow> bytes option" where
  "rns_destination_name_hash P app_name aspects =
     (if \<not> valid_component app_name then None
      else case name_aspects aspects app_name of
             None \<Rightarrow> None
           | Some name \<Rightarrow>
               (case rns_sha256 P name of None \<Rightarrow> None | Some digest \<Rightarrow> Some (take 10 digest)))"

definition rns_destination_hash ::
  "'r rns_crypto_provider option \<Rightarrow> rns_identity option \<Rightarrow> bytes \<Rightarrow> bytes list \<Rightarrow> bytes option" where
  "rns_destination_hash P identity app_name aspects =
     (case rns_destination_name_hash P app_name aspects of
        None \<Rightarrow> None
      | Some name_hash \<Rightarrow>
          (case rns_sha256 P (name_hash @
                  (case identity of Some i \<Rightarrow> identity_hash i | None \<Rightarrow> [])) of
             None \<Rightarrow> None
           | Some digest \<Rightarrow> Some (take 16 digest)))"

section \<open>Encryption to an identity or a ratchet\<close>

lemma rns_identity_encryptE:
  assumes "rns_identity_encrypt P identity ratchet plain cap r = (Some ct, r')"
  obtains ek ep r1 shared derived token where
    "rns_x25519_generate P r = (Some (ek, ep), r1)"
    "rns_x25519_exchange P ek (case ratchet of Some k \<Rightarrow> k | None \<Rightarrow> encryption_public identity) = Some shared"
    "rns_hkdf_sha256 P shared (identity_hash identity) [] 64 = Some derived"
    "rns_token_encrypt P derived plain (cap - 32) r1 = (Some token, r')" "ct = ep @ token"
  using assms
  by (auto simp: rns_identity_encrypt_def Let_def split: if_splits option.splits prod.splits)

lemma decrypt_with_private_encrypt:
  assumes laws: "generate_sound P" "public_key_size P" "exchange_sound P" "token_sound P"
    and enc: "rns_identity_encrypt P them ratchet plain cap r = (Some ct, r')"
    and target: "rns_x25519_public_from_private P sk =
                   Some (case ratchet of Some k \<Rightarrow> k | None \<Rightarrow> encryption_public them)"
    and hash: "identity_hash me = identity_hash them"
    and size: "length ct - 80 \<le> cap'"
  shows "length ct = 80 + (length plain div 16 + 1) * 16 \<and> decrypt_with_private P me sk ct cap' = Some plain"
proof -
  obtain ek ep r1 shared derived token where steps:
    "rns_x25519_generate P r = (Some (ek, ep), r1)"
    "rns_x25519_exchange P ek (case ratchet of Some k \<Rightarrow> k | None \<Rightarrow> encryption_public them) = Some shared"
    "rns_hkdf_sha256 P shared (identity_hash them) [] 64 = Some derived"
    "rns_token_encrypt P derived plain (cap - 32) r1 = (Some token, r')" "ct = ep @ token"
    using rns_identity_encryptE [OF enc] by blast
  have ep: "rns_x25519_public_from_private P ek = Some ep" "length ep = 32"
    using generate_soundD(1) [OF laws(1,2) steps(1)] by simp_all
  have shared: "rns_x25519_exchange P sk ep = Some shared"
    using exchange_soundD [OF laws(3) ep(1) target] steps(2) by simp
  have "length token - 48 \<le> cap'" using size steps(5) ep(2) by simp
  note token = token_soundD(1) [OF laws(4) steps(4)] token_soundD(3) [OF laws(4) steps(4) this]
  have "take 32 ct = ep" "drop 32 ct = token" using steps(5) ep(2) by simp_all
  then have "decrypt_with_private P me sk ct cap' = Some plain"
    using token(2) steps(3) shared hash by (simp add: decrypt_with_private_def)
  moreover have "length ct = 80 + (length plain div 16 + 1) * 16"
    using token(1) steps(5) ep(2) by simp
  ultimately show ?thesis by blast
qed

lemma decrypt_ratchet_loop_skip:
  assumes "\<forall>k \<in> set before. decrypt_with_private P me k ct cap = None"
  shows "decrypt_ratchet_loop P me want_id (before @ keys) ct cap =
           decrypt_ratchet_loop P me want_id keys ct cap"
  using assms by (induction before) auto

text \<open>
  C7. Encryption to an identity round-trips: what anyone encrypts to an identity's public key is 80
  bytes longer than the padded plaintext and is decrypted by the holder of the private key to the
  plaintext, whatever random values were drawn.
\<close>

theorem identity_encrypt_decrypt:
  assumes "generate_sound P" "public_key_size P" "exchange_sound P" "token_sound P"
    and "rns_identity_encrypt P them None plain cap r = (Some ct, r')"
    and "has_private me"
    and "rns_x25519_public_from_private P (encryption_private me) = Some (encryption_public them)"
    and "identity_hash me = identity_hash them" and "length ct - 80 \<le> cap'"
  shows "length ct = 80 + (length plain div 16 + 1) * 16 \<and>
         rns_identity_decrypt P me ct cap' = Some plain"
  using decrypt_with_private_encrypt [OF assms(1-5) _ assms(8,9)] assms(6,7)
  by (simp add: rns_identity_decrypt_def rns_identity_decrypt_with_ratchets_def)

text \<open>
  Ratchet decryption: a message encrypted to a ratchet key is opened by that key wherever it
  stands in the list, as long as no earlier key opens it, enforcement or not; the result names the
  ratchet used. Conversely, with enforcement on, whatever is returned was opened by a ratchet.
\<close>

theorem ratchet_decrypt:
  assumes "generate_sound P" "public_key_size P" "exchange_sound P" "token_sound P"
    and "rns_identity_encrypt P them (Some ratchet) plain cap r = (Some ct, r')"
    and "has_private me" and "rns_x25519_public_from_private P sk = Some ratchet"
    and "identity_hash me = identity_hash them" and "length ct - 80 \<le> cap'"
    and "\<forall>k \<in> set before. decrypt_with_private P me k ct cap' = None"
    and "length (before @ sk # after) \<le> SIZE_MAX div 32"
  shows "rns_identity_decrypt_with_ratchets P me (before @ sk # after) enforce ct cap' True =
           Some \<lparr>dr_plaintext = plain, dr_ratchet_id = rns_identity_ratchet_id P ratchet,
                 dr_used_ratchet = True\<rparr> \<and>
         (\<forall>keys ct' result.
            rns_identity_decrypt_with_ratchets P me keys True ct' cap' True = Some result \<longrightarrow>
            dr_used_ratchet result)"
proof -
  have "decrypt_with_private P me sk ct cap' = Some plain" "length ct > 32"
    using decrypt_with_private_encrypt [OF assms(1-5) _ assms(8,9)] assms(7) by simp_all
  then have "rns_identity_decrypt_with_ratchets P me (before @ sk # after) enforce ct cap' True =
      Some \<lparr>dr_plaintext = plain, dr_ratchet_id = rns_identity_ratchet_id P ratchet,
            dr_used_ratchet = True\<rparr>"
    using assms(6,7,11)
    by (simp add: rns_identity_decrypt_with_ratchets_def decrypt_ratchet_loop_skip [OF assms(10)])
  then show ?thesis
    by (auto simp: rns_identity_decrypt_with_ratchets_def split: if_splits option.splits)
qed

section \<open>Keys and signatures\<close>

text \<open>An identity as the constructors leave it.\<close>

definition identity_wf :: "'r rns_crypto_provider option \<Rightarrow> rns_identity \<Rightarrow> bool" where
  "identity_wf P i \<longleftrightarrow>
     length (encryption_public i) = 32 \<and> length (signing_public i) = 32 \<and> length (identity_hash i) = 16 \<and>
     (\<exists>digest. rns_sha256 P (encryption_public i @ signing_public i) = Some digest \<and>
               identity_hash i = take 16 digest) \<and>
     (has_private i \<longrightarrow>
        rns_x25519_public_from_private P (encryption_private i) = Some (encryption_public i) \<and>
        rns_ed25519_public_from_private P (signing_private i) = Some (signing_public i))"

lemma update_hash_wf:
  assumes "update_hash P i = Some i'" "sha256_sound P"
    and "length (encryption_public i) = 32" "length (signing_public i) = 32"
    and "has_private i \<Longrightarrow>
           rns_x25519_public_from_private P (encryption_private i) = Some (encryption_public i) \<and>
           rns_ed25519_public_from_private P (signing_private i) = Some (signing_public i)"
  shows "identity_wf P i' \<and> encryption_public i' = encryption_public i \<and>
         signing_public i' = signing_public i \<and> encryption_private i' = encryption_private i \<and>
         signing_private i' = signing_private i \<and> has_private i' = has_private i"
  using assms by (auto simp: update_hash_def identity_wf_def sha256_sound_def split: option.splits)

lemma identity_from_exported_public:
  assumes "identity_wf P me" "sha256_sound P"
  shows "\<exists>them. rns_identity_from_public P (rns_identity_export_public me) = Some them \<and>
                signing_public them = signing_public me"
  using assms
  by (auto simp: rns_identity_from_public_def rns_identity_export_public_def update_hash_def
      identity_wf_def sha256_sound_def bytes_at_def split: option.splits)

lemma identity_sign_verify:
  assumes "identity_wf P me" "signature_sound P" "signing_public them = signing_public me"
    and "rns_identity_sign P me message = Some s"
  shows "rns_identity_verify P them message s"
  using assms
  by (auto simp: identity_wf_def signature_sound_def rns_identity_sign_def rns_identity_verify_def
           split: if_splits)

text \<open>
  Identities survive export and import: an identity built from an exported private key is the
  identity itself, one built from the exported public key has its public keys and hash and no
  private key, and what the first signs the second verifies.
\<close>

theorem identity_export_import:
  assumes "sha256_sound P" "public_key_size P" "signature_sound P"
    and "length private_key = 64" and "rns_identity_from_private P private_key = Some me"
  shows "rns_identity_export_private me = Some private_key \<and>
         (\<exists>them. rns_identity_from_public P (rns_identity_export_public me) = Some them \<and>
                 \<not> has_private them \<and> identity_hash them = identity_hash me \<and>
                 rns_identity_export_public them = rns_identity_export_public me \<and>
                 (\<forall>message s. rns_identity_sign P me message = Some s \<longrightarrow>
                              rns_identity_verify P them message s))"
proof -
  obtain ep sp where pub: "rns_x25519_public_from_private P (take 32 private_key) = Some ep"
    "rns_ed25519_public_from_private P (bytes_at 32 32 private_key) = Some sp"
    and upd: "update_hash P (zero_identity\<lparr>encryption_private := take 32 private_key,
        encryption_public := ep, signing_private := bytes_at 32 32 private_key,
        signing_public := sp, has_private := True\<rparr>) = Some me"
    using assms(5) by (auto simp: rns_identity_from_private_def Let_def split: option.splits)
  have len: "length ep = 32" "length sp = 32"
    using assms(2) pub by (auto simp: public_key_size_def)
  have me: "identity_wf P me" "encryption_public me = ep" "signing_public me = sp"
    "encryption_private me = take 32 private_key" "signing_private me = bytes_at 32 32 private_key"
    "has_private me"
    using update_hash_wf [OF upd assms(1)] len pub by simp_all
  have key: "take 32 private_key @ bytes_at 32 32 private_key = private_key"
    using assms(4) by (simp add: bytes_at_def)
  obtain digest where digest: "rns_sha256 P (ep @ sp) = Some digest" "identity_hash me = take 16 digest"
    using me(1-3) by (auto simp: identity_wf_def)
  let ?them = "zero_identity\<lparr>encryption_public := ep, signing_public := sp, identity_hash := take 16 digest\<rparr>"
  have "rns_identity_from_public P (rns_identity_export_public me) = Some ?them"
    using len digest me
    by (simp add: rns_identity_from_public_def rns_identity_export_public_def update_hash_def bytes_at_def)
  moreover have "\<forall>message s. rns_identity_sign P me message = Some s \<longrightarrow> rns_identity_verify P ?them message s"
    using identity_sign_verify [OF me(1) assms(3), of ?them] me(3) by simp
  ultimately show ?thesis
    using me digest key
    by (simp add: rns_identity_export_private_def rns_identity_export_public_def zero_identity_def)
qed

section \<open>Instances\<close>

definition sample_key :: bytes where
  "sample_key = replicate 32 1 @ replicate 32 2"

definition sample_identity :: rns_identity where
  "sample_identity =
     \<lparr>encryption_private = replicate 32 1, signing_private = replicate 32 2,
      encryption_public = replicate 32 1, signing_public = replicate 32 2,
      identity_hash = replicate 16 1, has_private = True\<rparr>"

lemma sample_identity_from_private:
  "rns_identity_from_private sample_provider sample_key = Some sample_identity"
  by (simp add: rns_identity_from_private_def sample_key_def sample_identity_def bytes_at_def
      rns_x25519_public_from_private_def rns_ed25519_public_from_private_def rns_sha256_def
      update_hash_def sample_provider_defs openssl_x25519_public_from_private_def
      openssl_ed25519_public_from_private_def openssl_sha256_def fit_def zero_identity_def Let_def)

lemma sample_identity_wf: "identity_wf sample_provider sample_identity"
  by (simp add: identity_wf_def sample_identity_def rns_sha256_def sample_provider_defs
      openssl_sha256_def fit_def rns_x25519_public_from_private_def rns_ed25519_public_from_private_def
      openssl_x25519_public_from_private_def openssl_ed25519_public_from_private_def)

theorem identity_export_import_witness:
  "rns_identity_export_private sample_identity = Some sample_key"
  using identity_export_import [OF sample_provider_sound(1,5,3) _ sample_identity_from_private]
  by (simp add: sample_key_def)

lemma sample_has_private: "has_private sample_identity"
  by (simp add: sample_identity_def)

lemma sample_public: "length (encryption_public sample_identity) = 32"
  by (simp add: sample_identity_def)

lemma sample_encrypt:
  assumes "length target = 32"
    and "target = (case ratchet of Some k \<Rightarrow> k | None \<Rightarrow> encryption_public sample_identity)"
  shows "\<exists>ct. rns_identity_encrypt sample_provider sample_identity ratchet [7, 8] 112 5 = (Some ct, 7) \<and>
              length ct = 96"
proof -
  have gen: "rns_x25519_generate sample_provider 5 = (Some (replicate 32 5, replicate 32 5), 6)"
    by (simp add: rns_x25519_generate_def sample_provider_defs openssl_x25519_generate_def)
  obtain shared where shared: "rns_x25519_exchange sample_provider (replicate 32 5) target = Some shared"
    "length shared = 32"
    by (simp add: rns_x25519_exchange_def sample_provider_defs openssl_x25519_exchange_def)
  then have "shared \<noteq> []" by auto
  then obtain derived where
    derived: "rns_hkdf_sha256 sample_provider shared (identity_hash sample_identity) [] 64 = Some derived"
    using sample_hkdf [of shared "identity_hash sample_identity" "[]" 64] by (simp add: sample_identity_def)
  have "\<exists>token. rns_token_encrypt sample_provider derived [7, 8] 80 6 = (Some token, 7) \<and> length token = 64"
    by (simp add: rns_token_encrypt_def sample_provider_defs openssl_token_encrypt_def
        openssl_random_bytes_def openssl_hmac_sha256_def pkcs7_pad_def)
  then show ?thesis
    using gen shared derived assms(2)
    by (auto simp: rns_identity_encrypt_def rns_identity_encrypt_bound_def SIZE_MAX_def Let_def)
qed

theorem identity_encrypt_decrypt_witness:
  "\<exists>ct. rns_identity_encrypt sample_provider sample_identity None [7, 8] 112 5 = (Some ct, 7) \<and>
        rns_identity_decrypt sample_provider sample_identity ct 16 = Some [7, 8]"
proof -
  obtain ct where ct: "rns_identity_encrypt sample_provider sample_identity None [7, 8] 112 5 = (Some ct, 7)"
    "length ct = 96"
    using sample_encrypt [of "encryption_public sample_identity" None] sample_public by auto
  have "rns_x25519_public_from_private sample_provider (encryption_private sample_identity) =
      Some (encryption_public sample_identity)"
    by (simp add: rns_x25519_public_from_private_def sample_provider_defs sample_identity_def
        openssl_x25519_public_from_private_def fit_def)
  then have "rns_identity_decrypt sample_provider sample_identity ct 16 = Some [7, 8]"
    using identity_encrypt_decrypt [OF sample_provider_sound(6,5,7,8) ct(1), of sample_identity 16] ct(2)
    by (simp add: sample_has_private)
  with ct show ?thesis by blast
qed

theorem ratchet_decrypt_witness:
  "\<exists>ct. rns_identity_encrypt sample_provider sample_identity (Some (replicate 32 3)) [7, 8] 112 5 = (Some ct, 7) \<and>
        rns_identity_decrypt_with_ratchets sample_provider sample_identity [replicate 32 3] True ct 16 True =
          Some \<lparr>dr_plaintext = [7, 8], dr_ratchet_id = replicate 16 3, dr_used_ratchet = True\<rparr>"
proof -
  obtain ct where ct: "rns_identity_encrypt sample_provider sample_identity (Some (replicate 32 3)) [7, 8] 112 5 =
      (Some ct, 7)" "length ct = 96"
    using sample_encrypt [of "replicate 32 3" "Some (replicate 32 3)"] by auto
  have "rns_x25519_public_from_private sample_provider (replicate 32 3) = Some (replicate 32 3)"
    by (simp add: rns_x25519_public_from_private_def sample_provider_defs
        openssl_x25519_public_from_private_def fit_def)
  moreover have "rns_identity_ratchet_id sample_provider (replicate 32 3) = replicate 16 3"
    by (simp add: rns_identity_ratchet_id_def rns_sha256_def sample_provider_defs openssl_sha256_def fit_def)
  ultimately show ?thesis
    using ct ratchet_decrypt [OF sample_provider_sound(6,5,7,8) ct(1) sample_has_private, of "replicate 32 3"
        16 "[]" "[]" True]
    by (simp add: SIZE_MAX_def)
qed

end
