(* ===== verification/Announce.thy ===== *)
theory Announce
  imports Identity
begin

text \<open>
  Announces: \<^verbatim>\<open>src/announce/announce.c\<close>. The body of an announce is the public key, the name
  hash, a random blob whose last five bytes are a timestamp, an optional ratchet, a signature over
  the destination hash and the body, and application data. Parsed fields, which point into the body
  in C, are the bytes they point to.
\<close>

record rns_announce =
  ann_public_key :: bytes
  ann_name_hash :: bytes
  ann_random_blob :: bytes
  ann_ratchet :: "bytes option"
  ann_signature :: bytes
  ann_app_data :: bytes
  ann_timestamp :: u64
  ann_has_ratchet :: bool

definition decode_timestamp :: "bytes \<Rightarrow> u64" where
  "decode_timestamp blob = be_get (bytes_at 5 5 blob)"

definition encode_timestamp :: "u64 \<Rightarrow> bytes" where
  "encode_timestamp v = be_put 5 v"

definition rns_announce_parse :: "bytes \<Rightarrow> byte \<Rightarrow> rns_announce option" where
  "rns_announce_parse body context_flag =
     (if context_flag > 1 \<or> length body > 465 \<or> (context_flag = 0 \<and> length body < 148) \<or>
         (context_flag \<noteq> 0 \<and> length body < 180) then None
      else let has_ratchet = (context_flag \<noteq> 0);
               signature_offset = (if has_ratchet then 116 else 84)
           in Some \<lparr>ann_public_key = take 64 body,
                    ann_name_hash = bytes_at 64 10 body,
                    ann_random_blob = bytes_at 74 10 body,
                    ann_ratchet = (if has_ratchet then Some (bytes_at 84 32 body) else None),
                    ann_signature = bytes_at signature_offset 64 body,
                    ann_app_data = drop (signature_offset + 64) body,
                    ann_timestamp = decode_timestamp (bytes_at 74 10 body),
                    ann_has_ratchet = has_ratchet\<rparr>)"

definition rns_announce_build ::
  "'r rns_crypto_provider option \<Rightarrow> rns_identity \<Rightarrow> bytes \<Rightarrow> bytes \<Rightarrow> bytes \<Rightarrow> u64 \<Rightarrow> bytes option \<Rightarrow>
     bytes \<Rightarrow> nat \<Rightarrow> (bytes \<times> byte) option" where
  "rns_announce_build P identity destination_hash name_hash random_prefix timestamp ratchet app_data
       out_capacity =
     (if \<not> has_private identity \<or> timestamp > 0xffffffffff then None
      else let prefix_length = (if ratchet \<noteq> None then 116 else 84)
           in if length app_data > SIZE_MAX - prefix_length - 64 then None
              else let body_length = prefix_length + 64 + length app_data
                   in if body_length > 465 \<or> out_capacity < body_length then None
                      else let prefix = rns_identity_export_public identity @ name_hash @
                                        random_prefix @ encode_timestamp timestamp @
                                        (case ratchet of Some k \<Rightarrow> k | None \<Rightarrow> [])
                           in if length app_data > SIZE_MAX - 16 - length prefix then None
                              else case rns_identity_sign P identity (destination_hash @ prefix @ app_data) of
                                     None \<Rightarrow> None
                                   | Some signature \<Rightarrow>
                                       Some (prefix @ signature @ app_data,
                                             if ratchet \<noteq> None then 1 else 0))"

definition rns_announce_verify ::
  "'r rns_crypto_provider option \<Rightarrow> bytes \<Rightarrow> bytes \<Rightarrow> byte \<Rightarrow> bool" where
  "rns_announce_verify P destination_hash body context_flag =
     (case rns_announce_parse body context_flag of
        None \<Rightarrow> False
      | Some announce \<Rightarrow>
          (case rns_identity_from_public P (ann_public_key announce) of
             None \<Rightarrow> False
           | Some identity \<Rightarrow>
               (case rns_sha256 P (ann_name_hash announce @ identity_hash identity) of
                  None \<Rightarrow> False
                | Some digest \<Rightarrow>
                    if take 16 digest \<noteq> destination_hash then False
                    else let prefix_length = (if ann_has_ratchet announce then 116 else 84)
                         in if length (ann_app_data announce) > SIZE_MAX - 16 - prefix_length then False
                            else rns_identity_verify P identity
                                   (destination_hash @ take prefix_length body @ ann_app_data announce)
                                   (ann_signature announce))))"

section \<open>Building, parsing and verifying\<close>

lemma timestamp_roundtrip:
  assumes "length random_prefix = 5" "timestamp \<le> 0xffffffffff"
  shows "decode_timestamp (random_prefix @ encode_timestamp timestamp) = timestamp"
proof -
  have "take_bit 40 timestamp = timestamp"
    using assms(2)
    by (simp add: word_unat_eq_iff unsigned_take_bit_eq take_bit_nat_eq_self word_le_nat_alt)
  then show ?thesis
    using assms(1)
    by (simp add: decode_timestamp_def encode_timestamp_def bytes_at_def be_get_put)
qed

text \<open>The body a build produces, by its parts.\<close>

definition announce_inputs_wf :: "bytes \<Rightarrow> bytes \<Rightarrow> bytes option \<Rightarrow> bool" where
  "announce_inputs_wf name_hash random_prefix ratchet \<longleftrightarrow>
     length name_hash = 10 \<and> length random_prefix = 5 \<and> (\<forall>k. ratchet = Some k \<longrightarrow> length k = 32)"

lemma rns_announce_buildE:
  assumes "rns_announce_build P identity dest name_hash random_prefix timestamp ratchet app_data cap =
             Some (body, flag)"
  obtains prefix signature where
    "prefix = rns_identity_export_public identity @ name_hash @ random_prefix @
       encode_timestamp timestamp @ (case ratchet of Some k \<Rightarrow> k | None \<Rightarrow> [])"
    "rns_identity_sign P identity (dest @ prefix @ app_data) = Some signature"
    "body = prefix @ signature @ app_data" "flag = (if ratchet \<noteq> None then 1 else 0)"
    "has_private identity" "timestamp \<le> 0xffffffffff"
    "(if ratchet \<noteq> None then 116 else 84) + 64 + length app_data \<le> 465"
    "(if ratchet \<noteq> None then 116 else 84) + 64 + length app_data \<le> cap"
  using assms by (auto simp: rns_announce_build_def Let_def not_less split: if_splits option.splits)

lemma rns_announce_parse_build:
  assumes "rns_announce_build P identity dest name_hash random_prefix timestamp ratchet app_data cap =
             Some (body, flag)"
    and "length (rns_identity_export_public identity) = 64"
    and "announce_inputs_wf name_hash random_prefix ratchet" and "signature_size P"
  shows "\<exists>signature. rns_announce_parse body flag =
           Some \<lparr>ann_public_key = rns_identity_export_public identity, ann_name_hash = name_hash,
                 ann_random_blob = random_prefix @ encode_timestamp timestamp, ann_ratchet = ratchet,
                 ann_signature = signature, ann_app_data = app_data, ann_timestamp = timestamp,
                 ann_has_ratchet = (ratchet \<noteq> None)\<rparr> \<and>
         rns_identity_sign P identity
           (dest @ take (if ratchet \<noteq> None then 116 else 84) body @ app_data) = Some signature"
proof -
  let ?keys = "rns_identity_export_public identity"
  let ?r = "case ratchet of Some k \<Rightarrow> k | None \<Rightarrow> []"
  obtain prefix signature where b:
    "prefix = ?keys @ name_hash @ random_prefix @ encode_timestamp timestamp @ ?r"
    "rns_identity_sign P identity (dest @ prefix @ app_data) = Some signature"
    "body = prefix @ signature @ app_data" "flag = (if ratchet \<noteq> None then 1 else 0)"
    "timestamp \<le> 0xffffffffff" "(if ratchet \<noteq> None then 116 else 84) + 64 + length app_data \<le> 465"
    using rns_announce_buildE [OF assms(1)] by metis
  have sig: "length signature = 64"
    using b(2) assms(4) by (auto simp: rns_identity_sign_def signature_size_def split: if_splits)
  have wf: "length name_hash = 10" "length random_prefix = 5" "length ?r = (if ratchet \<noteq> None then 32 else 0)"
    using assms(3) by (auto simp: announce_inputs_wf_def split: option.splits)
  have time: "decode_timestamp (random_prefix @ encode_timestamp timestamp) = timestamp"
    using timestamp_roundtrip wf(2) b(5) by blast
  have len: "length prefix = (if ratchet \<noteq> None then 116 else 84)" "length (encode_timestamp timestamp) = 5"
    using assms(2) wf by (simp_all add: b(1) encode_timestamp_def)
  have parts: "take 64 body = ?keys" "bytes_at 64 10 body = name_hash"
    "bytes_at 74 10 body = random_prefix @ encode_timestamp timestamp"
    "bytes_at (length prefix) 64 body = signature" "drop (length prefix + 64) body = app_data"
    "take (length prefix) body = prefix" "ratchet \<noteq> None \<Longrightarrow> bytes_at 84 32 body = ?r"
    using assms(2) wf sig len(2) by (auto simp: b(1,3) bytes_at_def)
  have "length body = length prefix + 64 + length app_data" using b(3) sig by simp
  then have "rns_announce_parse body flag =
           Some \<lparr>ann_public_key = ?keys, ann_name_hash = name_hash,
                 ann_random_blob = random_prefix @ encode_timestamp timestamp, ann_ratchet = ratchet,
                 ann_signature = signature, ann_app_data = app_data, ann_timestamp = timestamp,
                 ann_has_ratchet = (ratchet \<noteq> None)\<rparr>"
    using parts len(1) b(4,6) time
    by (cases ratchet) (simp_all add: rns_announce_parse_def)
  with b(2) parts(6) len(1) show ?thesis by simp
qed

text \<open>
  C10. An announce that was built verifies, and parses to what was announced: for an identity with its
  private keys and the destination hash of its name, the body is at most 465 bytes, every field
  (key, name hash, random blob, ratchet, application data and the 40-bit timestamp) is read back,
  and verification of the destination derivation and of the signature succeeds.
\<close>

theorem announce_build_verify:
  assumes "sha256_sound P" "signature_sound P" "signature_size P"
    and "identity_wf P me" and "announce_inputs_wf name_hash random_prefix ratchet"
    and "rns_sha256 P (name_hash @ identity_hash me) = Some digest"
    and "rns_announce_build P me (take 16 digest) name_hash random_prefix timestamp ratchet app_data cap =
           Some (body, flag)"
  shows "rns_announce_verify P (take 16 digest) body flag \<and> length body \<le> 465 \<and> length body \<le> cap \<and>
         (\<exists>a. rns_announce_parse body flag = Some a \<and>
              ann_public_key a = rns_identity_export_public me \<and> ann_name_hash a = name_hash \<and>
              ann_random_blob a = random_prefix @ be_put 5 timestamp \<and> ann_ratchet a = ratchet \<and>
              ann_app_data a = app_data \<and> ann_timestamp a = timestamp)"
proof -
  let ?keys = "rns_identity_export_public me" and ?n = "if ratchet \<noteq> None then 116 else 84"
  have keys: "length ?keys = 64" "take 32 ?keys = encryption_public me" "bytes_at 32 32 ?keys = signing_public me"
    using assms(4) by (auto simp: identity_wf_def rns_identity_export_public_def bytes_at_def)
  obtain signature where parse: "rns_announce_parse body flag =
      Some \<lparr>ann_public_key = ?keys, ann_name_hash = name_hash,
            ann_random_blob = random_prefix @ encode_timestamp timestamp, ann_ratchet = ratchet,
            ann_signature = signature, ann_app_data = app_data, ann_timestamp = timestamp,
            ann_has_ratchet = (ratchet \<noteq> None)\<rparr>"
    and sign: "rns_identity_sign P me (take 16 digest @ take ?n body @ app_data) = Some signature"
    using rns_announce_parse_build [OF assms(7) keys(1) assms(5,3)] by blast
  obtain prefix s where size: "body = prefix @ s @ app_data" "?n + 64 + length app_data \<le> 465"
    "?n + 64 + length app_data \<le> cap" "rns_identity_sign P me (take 16 digest @ prefix @ app_data) = Some s"
    "prefix = ?keys @ name_hash @ random_prefix @ encode_timestamp timestamp @
       (case ratchet of Some k \<Rightarrow> k | None \<Rightarrow> [])"
    using rns_announce_buildE [OF assms(7)] by metis
  have "length prefix = ?n"
    using assms(5) keys(1) size(5)
    by (auto simp: announce_inputs_wf_def encode_timestamp_def split: option.splits)
  moreover have "length s = 64"
    using size(4) assms(3) by (auto simp: rns_identity_sign_def signature_size_def split: if_splits)
  ultimately have len: "length body \<le> 465" "length body \<le> cap" using size(1-3) by auto
  obtain d where d: "rns_sha256 P (encryption_public me @ signing_public me) = Some d"
    "identity_hash me = take 16 d"
    using assms(4) by (auto simp: identity_wf_def)
  let ?them = "zero_identity\<lparr>encryption_public := encryption_public me,
      signing_public := signing_public me, identity_hash := take 16 d\<rparr>"
  have them: "rns_identity_from_public P ?keys = Some ?them"
    using d(1) by (simp add: rns_identity_from_public_def update_hash_def keys(2,3))
  have "rns_identity_verify P ?them (take 16 digest @ take ?n body @ app_data) signature"
    using identity_sign_verify [OF assms(4,2) _ sign, of ?them] by simp
  moreover have "\<not> length app_data > SIZE_MAX - 16 - ?n" using size(2) by (auto simp: SIZE_MAX_def)
  ultimately have "rns_announce_verify P (take 16 digest) body flag"
    using parse them assms(6) d(2) by (simp add: rns_announce_verify_def Let_def)
  with len parse show ?thesis by (simp add: encode_timestamp_def)
qed

text \<open>
  C11. What verification establishes: whenever a body verifies for a destination hash, that hash is the
  truncated hash of the announced name hash and the announced key's hash, and the announced key
  verifies the signature over the destination hash, the body before the signature and the
  application data.
\<close>

theorem announce_verify_binds:
  assumes "rns_announce_verify P destination body flag"
  shows "\<exists>a key_digest digest. rns_announce_parse body flag = Some a \<and>
           rns_sha256 P (take 64 body) = Some key_digest \<and>
           rns_sha256 P (ann_name_hash a @ take 16 key_digest) = Some digest \<and>
           destination = take 16 digest \<and>
           rns_ed25519_verify P (bytes_at 32 32 body)
             (destination @ take (length body - length (ann_app_data a) - 64) body @ ann_app_data a)
             (ann_signature a)"
proof -
  have whole: "take 32 body @ bytes_at 32 32 body = take 64 body"
    using take_add [of 32 32 body] by (simp add: bytes_at_def)
  have keys: "take 32 (take 64 body) = take 32 body" "bytes_at 32 32 (take 64 body) = bytes_at 32 32 body"
    by (simp_all add: bytes_at_def drop_take)
  obtain a where a: "rns_announce_parse body flag = Some a"
    using assms by (auto simp: rns_announce_verify_def split: option.splits)
  then have fields: "ann_public_key a = take 64 body"
    "(if ann_has_ratchet a then 116 else 84) = length body - length (ann_app_data a) - 64"
    by (auto simp: rns_announce_parse_def Let_def split: if_splits)
  show ?thesis
    using assms a
    by (auto simp: rns_announce_verify_def fields keys whole rns_identity_from_public_def update_hash_def
        rns_identity_verify_def Let_def zero_identity_def split: option.splits if_splits)
qed

section \<open>Instances\<close>

definition sample_destination :: bytes where
  "sample_destination = replicate 10 3 @ replicate 6 1"

lemma sample_name_digest:
  "\<exists>digest. rns_sha256 sample_provider (replicate 10 3 @ identity_hash sample_identity) = Some digest \<and>
            take 16 digest = sample_destination"
  by (simp add: rns_sha256_def sample_provider_defs openssl_sha256_def fit_def sample_identity_def
      sample_destination_def)

lemma sample_announce:
  "\<exists>body. rns_announce_build sample_provider sample_identity sample_destination (replicate 10 3)
            (replicate 5 4) 77 None [1, 2, 3] 465 = Some (body, 0)"
  by (simp add: rns_announce_build_def rns_identity_sign_def rns_ed25519_sign_def SIZE_MAX_def
      sample_provider_defs sample_identity_def openssl_ed25519_sign_def Let_def
      rns_identity_export_public_def encode_timestamp_def)

theorem announce_build_verify_witness:
  "\<exists>body a. rns_announce_build sample_provider sample_identity sample_destination (replicate 10 3)
             (replicate 5 4) 77 None [1, 2, 3] 465 = Some (body, 0) \<and>
           rns_announce_verify sample_provider sample_destination body 0 \<and>
           rns_announce_parse body 0 = Some a \<and> ann_timestamp a = 77"
proof -
  obtain body where body: "rns_announce_build sample_provider sample_identity sample_destination
      (replicate 10 3) (replicate 5 4) 77 None [1, 2, 3] 465 = Some (body, 0)"
    using sample_announce by blast
  obtain digest where digest:
    "rns_sha256 sample_provider (replicate 10 3 @ identity_hash sample_identity) = Some digest"
    "take 16 digest = sample_destination"
    using sample_name_digest by blast
  have "announce_inputs_wf (replicate 10 3) (replicate 5 4) None"
    by (simp add: announce_inputs_wf_def)
  from announce_build_verify [OF sample_provider_sound(1,3,4) sample_identity_wf this digest(1),
      unfolded digest(2), OF body]
  show ?thesis using body by blast
qed

theorem announce_verify_binds_witness:
  "\<exists>body a key_digest digest. rns_announce_parse body 0 = Some a \<and>
     rns_sha256 sample_provider (take 64 body) = Some key_digest \<and>
     rns_sha256 sample_provider (ann_name_hash a @ take 16 key_digest) = Some digest \<and>
     sample_destination = take 16 digest"
proof -
  let ?body = "replicate 32 1 @ replicate 32 2 @ replicate 10 3 @ replicate 10 0 @
      fit 64 (sample_destination @ replicate 32 1 @ replicate 32 2 @ replicate 10 3 @ replicate 10 0)"
  have "rns_announce_verify sample_provider sample_destination ?body 0"
    by (simp add: rns_announce_verify_def rns_announce_parse_def bytes_at_def fit_def SIZE_MAX_def
        rns_identity_from_public_def update_hash_def rns_sha256_def sample_provider_defs
        openssl_sha256_def rns_identity_verify_def rns_ed25519_verify_def openssl_ed25519_verify_def
        sample_destination_def Let_def)
  from announce_verify_binds [OF this] show ?thesis by blast
qed

end
