(* ===== verification/Packet_Proof.thy ===== *)
theory Packet_Proof
  imports Identity
begin

text \<open>
  Delivery proofs: \<^verbatim>\<open>src/transport/proof.c\<close>. An explicit proof is the packet hash followed by
  the signature over it, an implicit one the signature alone; the length tells them apart.
\<close>

definition rns_proof_generate_explicit ::
  "'r rns_crypto_provider option \<Rightarrow> rns_identity \<Rightarrow> bytes \<Rightarrow> bytes option" where
  "rns_proof_generate_explicit P identity packet_hash =
     (case rns_identity_sign P identity packet_hash of
        None \<Rightarrow> None
      | Some signature \<Rightarrow> Some (packet_hash @ signature))"

definition rns_proof_generate_implicit ::
  "'r rns_crypto_provider option \<Rightarrow> rns_identity \<Rightarrow> bytes \<Rightarrow> bytes option" where
  "rns_proof_generate_implicit P identity packet_hash = rns_identity_sign P identity packet_hash"

definition rns_proof_validate ::
  "'r rns_crypto_provider option \<Rightarrow> rns_identity \<Rightarrow> bytes \<Rightarrow> bytes \<Rightarrow> bool" where
  "rns_proof_validate P identity expected_packet_hash pr =
     (if length pr = 96
      then if \<not> equal_ct (take 32 pr) expected_packet_hash then False
           else rns_identity_verify P identity expected_packet_hash (drop 32 pr)
      else if length pr = 64 then rns_identity_verify P identity expected_packet_hash pr
      else False)"

text \<open>
  C23. Proofs prove: both kinds of proof generated for a packet hash by an identity are accepted by
  whoever knows its public key; an accepted proof is of one of the two sizes and carries a signature
  over the expected hash that the key verifies; and an explicit proof for another hash is rejected.
\<close>

theorem proof_generate_validate:
  assumes "identity_wf P me" "signature_sound P" "signature_size P" "signing_public them = signing_public me"
    and "length packet_hash = 32"
    and "rns_proof_generate_explicit P me packet_hash = Some explicit"
    and "rns_proof_generate_implicit P me packet_hash = Some implicit"
  shows "rns_proof_validate P them packet_hash explicit \<and> rns_proof_validate P them packet_hash implicit \<and>
         length explicit = 96 \<and> length implicit = 64 \<and>
         (\<forall>hash. length hash = 32 \<and> hash \<noteq> packet_hash \<longrightarrow> \<not> rns_proof_validate P them hash explicit) \<and>
         (\<forall>hash pr. length hash = 32 \<and> rns_proof_validate P them hash pr \<longrightarrow>
            (\<exists>signature. (pr = hash @ signature \<or> pr = signature) \<and> length signature = 64 \<and>
                         rns_ed25519_verify P (signing_public them) hash signature))"
proof -
  have sign: "rns_identity_sign P me packet_hash = Some implicit" and exp: "explicit = packet_hash @ implicit"
    using assms(6,7)
    by (auto simp: rns_proof_generate_explicit_def rns_proof_generate_implicit_def split: option.splits)
  have len: "length implicit = 64"
    using sign assms(3) by (auto simp: rns_identity_sign_def signature_size_def split: if_splits)
  have ok: "rns_identity_verify P them packet_hash implicit"
    by (rule identity_sign_verify [OF assms(1,2,4) sign])
  have sound: "\<exists>signature. (pr = hash @ signature \<or> pr = signature) \<and> length signature = 64 \<and>
      rns_ed25519_verify P (signing_public them) hash signature"
    if "length hash = 32" "rns_proof_validate P them hash pr" for hash pr
  proof (cases "length pr = 96")
    case True
    with that have "take 32 pr = hash" "rns_ed25519_verify P (signing_public them) hash (drop 32 pr)"
      by (auto simp: rns_proof_validate_def rns_identity_verify_def equal_ct_iff split: if_splits)
    with True show ?thesis
      by (intro exI [of _ "drop 32 pr"]) (use append_take_drop_id [of 32 pr] in auto)
  next
    case False
    with that show ?thesis
      by (auto simp: rns_proof_validate_def rns_identity_verify_def split: if_splits)
  qed
  have "\<not> rns_proof_validate P them hash explicit" if "length hash = 32" "hash \<noteq> packet_hash" for hash
    using that assms(5) len by (simp add: rns_proof_validate_def exp equal_ct_iff)
  moreover have "rns_proof_validate P them packet_hash explicit" "rns_proof_validate P them packet_hash implicit"
    using ok assms(5) len by (simp_all add: rns_proof_validate_def exp equal_ct_iff)
  ultimately show ?thesis using sound exp len assms(5) by auto
qed

theorem proof_generate_validate_witness:
  "rns_proof_validate sample_provider sample_identity (replicate 32 5)
     (replicate 32 5 @ replicate 32 5 @ replicate 32 0)"
proof -
  have "rns_proof_generate_explicit sample_provider sample_identity (replicate 32 5) =
      Some (replicate 32 5 @ replicate 32 5 @ replicate 32 0)"
    "rns_proof_generate_implicit sample_provider sample_identity (replicate 32 5) =
      Some (replicate 32 5 @ replicate 32 0)"
    by (simp_all add: rns_proof_generate_explicit_def rns_proof_generate_implicit_def
        rns_identity_sign_def rns_ed25519_sign_def sample_provider_defs sample_identity_def
        openssl_ed25519_sign_def fit_def)
  then show ?thesis
    using proof_generate_validate [OF sample_identity_wf sample_provider_sound(3,4) refl] by simp
qed

end
