(* ===== verification/Ifac.thy ===== *)
theory Ifac
  imports Identity Packet
begin

text \<open>
  Interface access codes: \<^verbatim>\<open>src/transport/ifac.c\<close>. A protected packet carries, after its first
  two bytes, a tag that is the tail of a signature over the plain packet; everything but the tag is
  masked with a key stream derived from the tag.
\<close>

record rns_ifac =
  ifac_key :: bytes
  ifac_identity :: rns_identity
  ifac_tag_size :: nat

abbreviation (input) RNS_IFAC_MIN_SIZE :: nat where "RNS_IFAC_MIN_SIZE \<equiv> 1"
abbreviation (input) RNS_IFAC_MAX_SIZE :: nat where "RNS_IFAC_MAX_SIZE \<equiv> 64"

definition IFAC_SALT :: bytes where
  "IFAC_SALT =
     [0xad,0xf5,0x4d,0x88,0x2c,0x9a,0x9b,0x80,0x77,0x1e,0xb4,0x99,0x5d,0x70,0x2d,0x4a,
      0x3e,0x73,0x33,0x91,0xb2,0xa0,0xf5,0x3f,0x41,0x6d,0x9f,0x90,0x7e,0x55,0xcf,0xf8]"

definition ifac_valid :: "rns_ifac \<Rightarrow> bool" where
  "ifac_valid ifac \<longleftrightarrow>
     ifac_tag_size ifac \<ge> RNS_IFAC_MIN_SIZE \<and> ifac_tag_size ifac \<le> RNS_IFAC_MAX_SIZE \<and>
     has_private (ifac_identity ifac)"

definition rns_ifac_derive ::
  "'r rns_crypto_provider option \<Rightarrow> bytes \<Rightarrow> bytes \<Rightarrow> nat \<Rightarrow> rns_ifac option" where
  "rns_ifac_derive P network_name passphrase tag_size =
     (if tag_size < RNS_IFAC_MIN_SIZE \<or> tag_size > RNS_IFAC_MAX_SIZE \<or>
         (network_name = [] \<and> passphrase = []) then None
      else case (if network_name = [] then Some [] else rns_sha256 P network_name) of
             None \<Rightarrow> None
           | Some name_hash \<Rightarrow>
               (case (if passphrase = [] then Some [] else rns_sha256 P passphrase) of
                  None \<Rightarrow> None
                | Some phrase_hash \<Rightarrow>
                    (case rns_sha256 P (name_hash @ phrase_hash) of
                       None \<Rightarrow> None
                     | Some origin_hash \<Rightarrow>
                         (case rns_hkdf_sha256 P origin_hash IFAC_SALT [] 64 of
                            None \<Rightarrow> None
                          | Some key \<Rightarrow>
                              (case rns_identity_from_private P key of
                                 None \<Rightarrow> None
                               | Some identity \<Rightarrow>
                                   Some \<lparr>ifac_key = key, ifac_identity = identity,
                                         ifac_tag_size = tag_size\<rparr>)))))"

definition rns_ifac_protected_bound :: "nat \<Rightarrow> nat \<Rightarrow> nat" where
  "rns_ifac_protected_bound raw_length tag_size =
     (if raw_length < 2 \<or> raw_length > RNS_MTU \<or> tag_size < RNS_IFAC_MIN_SIZE \<or>
         tag_size > RNS_IFAC_MAX_SIZE \<or> raw_length > SIZE_MAX - tag_size then 0
      else raw_length + tag_size)"

definition rns_ifac_protect ::
  "'r rns_crypto_provider option \<Rightarrow> rns_ifac \<Rightarrow> bytes \<Rightarrow> nat \<Rightarrow> bytes option" where
  "rns_ifac_protect P ifac raw out_capacity =
     (let n = ifac_tag_size ifac; total = rns_ifac_protected_bound (length raw) n
      in if \<not> ifac_valid ifac \<or> total = 0 \<or> out_capacity < total then None
         else case rns_identity_sign P (ifac_identity ifac) raw of
                None \<Rightarrow> None
              | Some signature \<Rightarrow>
                  let tag = take n (drop (64 - n) signature)
                  in (case rns_hkdf_sha256 P tag (ifac_key ifac) [] total of
                        None \<Rightarrow> None
                      | Some stream \<Rightarrow>
                          Some ([((raw ! 0 OR 0x80) XOR stream ! 0) OR 0x80, raw ! 1 XOR stream ! 1] @ tag @
                                map2 (\<lambda>a b. a XOR b) (drop 2 raw) (drop (2 + n) stream))))"

definition rns_ifac_unprotect ::
  "'r rns_crypto_provider option \<Rightarrow> rns_ifac \<Rightarrow> bytes \<Rightarrow> nat \<Rightarrow> bytes option" where
  "rns_ifac_unprotect P ifac protected_raw out_capacity =
     (let n = ifac_tag_size ifac
      in if \<not> ifac_valid ifac \<or> length protected_raw \<le> 2 + n \<or> protected_raw ! 0 AND 0x80 = 0 then None
         else let raw_length = length protected_raw - n; tag = bytes_at 2 n protected_raw
              in if raw_length > RNS_MTU \<or> out_capacity < raw_length then None
                 else case rns_hkdf_sha256 P tag (ifac_key ifac) [] (length protected_raw) of
                        None \<Rightarrow> None
                      | Some stream \<Rightarrow>
                          let out = [(protected_raw ! 0 XOR stream ! 0) AND 0x7f, protected_raw ! 1 XOR stream ! 1] @
                                    map2 (\<lambda>a b. a XOR b) (drop (2 + n) protected_raw) (drop (2 + n) stream)
                          in (case rns_identity_sign P (ifac_identity ifac) out of
                                None \<Rightarrow> None
                              | Some expected \<Rightarrow>
                                  if \<not> equal_ct tag (take n (drop (64 - n) expected)) then None
                                  else Some out))"

section \<open>Masking\<close>

lemma bit_flag_byte: "bit (0x80 :: byte) n \<longleftrightarrow> n = 7" and bit_mask_byte: "bit (0x7f :: byte) n \<longleftrightarrow> n < 7"
proof -
  have "\<forall>n \<in> set [0..<8]. (bit (0x80 :: byte) n \<longleftrightarrow> n = 7) \<and> (bit (0x7f :: byte) n \<longleftrightarrow> n < 7)"
    by code_simp
  moreover have "\<not> bit (b :: byte) n" if "\<not> n < 8" for b
    using that bit_imp_le_length [of b n] by auto
  ultimately show "bit (0x80 :: byte) n \<longleftrightarrow> n = 7" and "bit (0x7f :: byte) n \<longleftrightarrow> n < 7"
    by (cases "n < 8"; auto)+
qed

lemma byte_bit_7:
  fixes a :: byte
  shows "a < 0x80 \<longleftrightarrow> \<not> bit a 7" and "a AND 0x80 = 0 \<longleftrightarrow> \<not> bit a 7"
proof -
  have *: "\<forall>a \<in> set (map of_nat [0..<256]). (a < (0x80 :: byte) \<longleftrightarrow> \<not> bit a 7) \<and>
      (a AND 0x80 = 0 \<longleftrightarrow> \<not> bit a 7)"
    by code_simp
  have "a \<in> set (map of_nat [0..<256])"
    by (rule byte_below) (use unsigned_less [of a] in simp)
  from bspec [OF * this] show "a < 0x80 \<longleftrightarrow> \<not> bit a 7" and "a AND 0x80 = 0 \<longleftrightarrow> \<not> bit a 7"
    by (rule conjunct1, rule conjunct2)
qed

lemma unmask_mask_flag:
  fixes a m :: byte
  assumes "a < 0x80"
  shows "((((a OR 0x80) XOR m) OR 0x80) XOR m) AND 0x7f = a"
proof (rule bit_word_eqI)
  fix n assume "n < LENGTH(8)"
  then have "n < 7 \<or> n = 7" by auto
  then show "bit (((((a OR 0x80) XOR m) OR 0x80) XOR m) AND 0x7f) n = bit a n"
    using assms by (auto simp: byte_bit_7 bit_and_iff bit_or_iff bit_xor_iff bit_flag_byte bit_mask_byte
      simp del: bit_numeral_word_iff)
qed

lemma mask_unmask_flag:
  fixes b m :: byte
  assumes "bit b 7"
  shows "((((b XOR m) AND 0x7f) OR 0x80) XOR m) OR 0x80 = b"
proof (rule bit_word_eqI)
  fix n assume "n < LENGTH(8)"
  then have "n < 7 \<or> n = 7" by auto
  then show "bit (((((b XOR m) AND 0x7f) OR 0x80) XOR m) OR 0x80) n = bit b n"
    using assms by (auto simp: bit_and_iff bit_or_iff bit_xor_iff bit_flag_byte bit_mask_byte
      simp del: bit_numeral_word_iff)
qed

lemma xor_stream_involutive:
  "length xs \<le> length ys \<Longrightarrow>
     map2 (\<lambda>a b. a XOR b) (map2 (\<lambda>a b. a XOR b) xs ys) ys = (xs :: bytes)"
  by (rule nth_equalityI) (simp_all add: xor.assoc)

lemma two_bytes: "2 \<le> length xs \<Longrightarrow> xs = [xs ! 0, xs ! 1] @ drop 2 xs"
  by (cases xs; cases "tl xs") auto

text \<open>The image of a packet under a tag and a key stream, and its inverse.\<close>

definition ifac_image :: "bytes \<Rightarrow> bytes \<Rightarrow> bytes \<Rightarrow> bytes" where
  "ifac_image tag stream raw =
     [((raw ! 0 OR 0x80) XOR stream ! 0) OR 0x80, raw ! 1 XOR stream ! 1] @ tag @
     map2 (\<lambda>a b. a XOR b) (drop 2 raw) (drop (2 + length tag) stream)"

definition ifac_preimage :: "nat \<Rightarrow> bytes \<Rightarrow> bytes \<Rightarrow> bytes" where
  "ifac_preimage n stream pr =
     [(pr ! 0 XOR stream ! 0) AND 0x7f, pr ! 1 XOR stream ! 1] @
     map2 (\<lambda>a b. a XOR b) (drop (2 + n) pr) (drop (2 + n) stream)"

lemma ifac_preimage_image:
  assumes "raw ! 0 < 0x80" "2 \<le> length raw" "length stream = length raw + length tag"
  shows "ifac_preimage (length tag) stream (ifac_image tag stream raw) = raw"
proof -
  have "map2 (\<lambda>a b. a XOR b) (map2 (\<lambda>a b. a XOR b) (drop 2 raw) (drop (2 + length tag) stream))
      (drop (2 + length tag) stream) = drop 2 raw"
    using assms(2,3) by (intro xor_stream_involutive) simp
  then show ?thesis
    using assms(1) two_bytes [OF assms(2)]
    by (simp add: ifac_preimage_def ifac_image_def unmask_mask_flag xor.assoc)
qed

lemma ifac_image_preimage:
  assumes "bit (pr ! 0) 7" "2 + n \<le> length pr" "length stream = length pr"
  shows "ifac_image (bytes_at 2 n pr) stream (ifac_preimage n stream pr) = pr"
proof -
  have "map2 (\<lambda>a b. a XOR b) (map2 (\<lambda>a b. a XOR b) (drop (2 + n) pr) (drop (2 + n) stream))
      (drop (2 + n) stream) = drop (2 + n) pr"
    using assms(3) by (intro xor_stream_involutive) simp
  moreover have "length (bytes_at 2 n pr) = n" using assms(2) by simp
  moreover have "pr = [pr ! 0, pr ! 1] @ bytes_at 2 n pr @ drop (2 + n) pr"
    using two_bytes [of pr] assms(2) drop_eq_bytes_at [of 2 pr n] by simp
  ultimately show ?thesis
    using assms(1) by (simp add: ifac_preimage_def ifac_image_def mask_unmask_flag xor.assoc)
qed

section \<open>Protecting and unprotecting\<close>

definition ifac_tag :: "nat \<Rightarrow> bytes \<Rightarrow> bytes" where
  "ifac_tag n signature = take n (drop (64 - n) signature)"

lemma rns_ifac_protect_iff:
  assumes "hkdf_sound P" "signature_size P" "ifac_valid ifac" "ifac_tag_size ifac = n"
  shows "rns_ifac_protect P ifac raw cap = Some pr \<longleftrightarrow>
         2 \<le> length raw \<and> length raw \<le> RNS_MTU \<and> length raw + n \<le> cap \<and>
         (\<exists>signature stream. rns_identity_sign P (ifac_identity ifac) raw = Some signature \<and>
            rns_hkdf_sha256 P (ifac_tag n signature) (ifac_key ifac) [] (length raw + n) = Some stream \<and>
            pr = ifac_image (ifac_tag n signature) stream raw)"
proof -
  have n: "0 < n" "n \<le> 64" using assms(3,4) by (auto simp: ifac_valid_def)
  then have bound: "rns_ifac_protected_bound (length raw) n =
      (if 2 \<le> length raw \<and> length raw \<le> RNS_MTU then length raw + n else 0)"
    by (auto simp: rns_ifac_protected_bound_def SIZE_MAX_def)
  have tag: "length (ifac_tag n s) = n" if "rns_identity_sign P (ifac_identity ifac) raw = Some s" for s
    using that assms(2) n
    by (auto simp: rns_identity_sign_def signature_size_def ifac_tag_def split: if_splits)
  show ?thesis
    using assms(3,4) n tag
    by (auto simp: rns_ifac_protect_def bound Let_def ifac_image_def ifac_tag_def [symmetric] not_less
        split: option.splits)
qed

lemma rns_ifac_unprotect_iff:
  assumes "signature_size P" "ifac_valid ifac" "ifac_tag_size ifac = n"
  shows "rns_ifac_unprotect P ifac pr cap = Some raw \<longleftrightarrow>
         2 + n < length pr \<and> bit (pr ! 0) 7 \<and> length pr - n \<le> RNS_MTU \<and> length pr - n \<le> cap \<and>
         (\<exists>stream signature.
            rns_hkdf_sha256 P (bytes_at 2 n pr) (ifac_key ifac) [] (length pr) = Some stream \<and>
            raw = ifac_preimage n stream pr \<and>
            rns_identity_sign P (ifac_identity ifac) raw = Some signature \<and>
            bytes_at 2 n pr = ifac_tag n signature)"
proof -
  have n: "n \<le> 64" using assms(2,3) by (auto simp: ifac_valid_def)
  have tag: "length (ifac_tag n s) = n" if "rns_identity_sign P (ifac_identity ifac) m = Some s" for s m
    using that assms(1) n
    by (auto simp: rns_identity_sign_def signature_size_def ifac_tag_def split: if_splits)
  have "equal_ct (bytes_at 2 n pr) (ifac_tag n s) \<longleftrightarrow> bytes_at 2 n pr = ifac_tag n s"
    if "rns_identity_sign P (ifac_identity ifac) m = Some s" "2 + n < length pr" for s m
    using tag [OF that(1)] that(2) by (intro equal_ct_iff) simp
  then show ?thesis
    unfolding rns_ifac_unprotect_def Let_def assms(3) ifac_preimage_def [symmetric] ifac_tag_def [symmetric]
    using assms(2) by (auto simp: byte_bit_7(2) not_less not_le split: option.splits if_splits)
qed

lemma ifac_tag_length:
  assumes "signature_size P" "ifac_valid ifac" "rns_identity_sign P (ifac_identity ifac) m = Some s"
  shows "length (ifac_tag (ifac_tag_size ifac) s) = ifac_tag_size ifac"
  using assms by (auto simp: rns_identity_sign_def signature_size_def ifac_tag_def ifac_valid_def split: if_splits)

lemma hkdf_length: "hkdf_sound P \<Longrightarrow> rns_hkdf_sha256 P a b [] m = Some s \<Longrightarrow> length s = m"
  by (auto simp: hkdf_sound_def)

lemma ifac_protected_length:
  assumes "hkdf_sound P" "signature_size P" "ifac_valid ifac" "rns_ifac_protect P ifac raw cap = Some pr"
  shows "length pr = length raw + ifac_tag_size ifac \<and> length pr \<le> cap"
proof -
  let ?n = "ifac_tag_size ifac"
  obtain str signature where q: "2 \<le> length raw" "length raw + ?n \<le> cap"
    "rns_identity_sign P (ifac_identity ifac) raw = Some signature"
    "rns_hkdf_sha256 P (ifac_tag ?n signature) (ifac_key ifac) [] (length raw + ?n) = Some str"
    "pr = ifac_image (ifac_tag ?n signature) str raw"
    using rns_ifac_protect_iff [OF assms(1-3) refl, of raw cap pr] assms(4) by blast
  then show ?thesis
    using ifac_tag_length [OF assms(2,3) q(3)] hkdf_length [OF assms(1) q(4)] by (auto simp: ifac_image_def)
qed

lemma ifac_unprotect_protected:
  assumes "hkdf_sound P" "signature_size P" "ifac_valid ifac" and "rns_ifac_protect P ifac raw cap' = Some pr"
    and "raw ! 0 < 0x80" "3 \<le> length raw" "length pr \<le> cap"
  shows "rns_ifac_unprotect P ifac pr cap = Some raw"
proof -
  define n where "n = ifac_tag_size ifac"
  note protect = rns_ifac_protect_iff [OF assms(1-3) n_def [symmetric]]
  note unprotect = rns_ifac_unprotect_iff [OF assms(2,3) n_def [symmetric]]
  have "0 < n" using assms(3) by (simp add: ifac_valid_def n_def)
  obtain str signature where q: "length raw \<le> RNS_MTU"
    "rns_identity_sign P (ifac_identity ifac) raw = Some signature"
    "rns_hkdf_sha256 P (ifac_tag n signature) (ifac_key ifac) [] (length raw + n) = Some str"
    "pr = ifac_image (ifac_tag n signature) str raw"
    using assms(4) protect by blast
  note len = ifac_tag_length [OF assms(2,3) q(2), folded n_def] hkdf_length [OF assms(1) q(3)]
  have "length pr = length raw + n" using ifac_protected_length [OF assms(1-4)] by (simp add: n_def)
  moreover have "bit (pr ! 0) 7"
    by (simp add: q(4) ifac_image_def bit_or_iff bit_flag_byte del: bit_numeral_word_iff)
  moreover have "bytes_at 2 n pr = ifac_tag n signature"
    using len by (simp add: q(4) ifac_image_def bytes_at_def)
  moreover have "ifac_preimage n str pr = raw"
    using ifac_preimage_image [of raw str "ifac_tag n signature"] assms(5,6) len by (simp add: q(4))
  ultimately show ?thesis
    using q assms(5-7) by (auto simp: unprotect)
qed

text \<open>
  C24. Interface access codes are exact: for a key, a tag size and an output buffer large enough, a
  packet of at least three bytes with a clear access bit is what a received packet unprotects to if
  and only if the received packet is the protected form of it. So protection round-trips, and every
  accepted packet was produced with the interface's key: nothing else passes.
\<close>

theorem ifac_protect_unprotect:
  assumes "hkdf_sound P" "signature_size P" and "ifac_valid ifac"
    and "length pr \<le> cap" "length pr \<le> cap'"
  shows "rns_ifac_unprotect P ifac pr cap = Some raw \<longleftrightarrow>
         rns_ifac_protect P ifac raw cap' = Some pr \<and> raw ! 0 < 0x80 \<and> 3 \<le> length raw"
proof
  define n where "n = ifac_tag_size ifac"
  note protect = rns_ifac_protect_iff [OF assms(1-3) n_def [symmetric]]
  note unprotect = rns_ifac_unprotect_iff [OF assms(2,3) n_def [symmetric]]
  assume "rns_ifac_unprotect P ifac pr cap = Some raw"
  then obtain str signature where u: "2 + n < length pr" "bit (pr ! 0) 7" "length pr - n \<le> RNS_MTU"
    "rns_hkdf_sha256 P (bytes_at 2 n pr) (ifac_key ifac) [] (length pr) = Some str"
    "raw = ifac_preimage n str pr" "rns_identity_sign P (ifac_identity ifac) raw = Some signature"
    "bytes_at 2 n pr = ifac_tag n signature"
    using unprotect by blast
  note stream = hkdf_length [OF assms(1) u(4)]
  have "length raw = length pr - n"
    using u(1,5) stream by (simp add: ifac_preimage_def)
  moreover have "ifac_image (ifac_tag n signature) str raw = pr"
    using ifac_image_preimage [OF u(2) _ stream, of n] u(1,5,7) by simp
  moreover have "raw ! 0 < 0x80"
    by (simp add: u(5) ifac_preimage_def byte_bit_7 bit_and_iff bit_mask_byte del: bit_numeral_word_iff)
  ultimately show "rns_ifac_protect P ifac raw cap' = Some pr \<and> raw ! 0 < 0x80 \<and> 3 \<le> length raw"
    using u assms(5) by (auto simp: protect)
qed (use ifac_unprotect_protected [OF assms(1-3) _ _ _ assms(4)] in blast)

lemma sample_ifac: "\<exists>ifac. rns_ifac_derive sample_provider [1] [2, 3] 8 = Some ifac \<and> ifac_valid ifac"
proof -
  let ?h = "fit 32 (fit 32 [1] @ fit 32 [2, 3])"
  have "?h \<noteq> []" by (metis length_fit list.size(3) zero_neq_numeral)
  then have hkdf: "rns_hkdf_sha256 sample_provider ?h IFAC_SALT [] 64 =
      Some (rfc5869 (\<lambda>key data. fit 32 data) ?h IFAC_SALT [] 64)"
    by (intro sample_hkdf) (simp_all add: IFAC_SALT_def)
  have "\<exists>i. rns_identity_from_private sample_provider key = Some i \<and> has_private i" for key
    by (simp add: rns_identity_from_private_def update_hash_def Let_def sample_provider_eval)
  then obtain i where "rns_identity_from_private sample_provider
      (rfc5869 (\<lambda>key data. fit 32 data) ?h IFAC_SALT [] 64) = Some i" "has_private i" by blast
  with hkdf show ?thesis
    by (simp add: rns_ifac_derive_def sample_provider_eval ifac_valid_def)
qed

theorem ifac_protect_unprotect_witness:
  "\<exists>ifac pr. rns_ifac_protect sample_provider ifac [0x10, 2, 3, 4] 12 = Some pr \<and>
     rns_ifac_unprotect sample_provider ifac pr 12 = Some [0x10, 2, 3, 4]"
proof -
  obtain ifac where i: "rns_ifac_derive sample_provider [1] [2, 3] 8 = Some ifac" "ifac_valid ifac"
    using sample_ifac by blast
  have size: "ifac_tag_size ifac = 8"
    using i(1) by (auto simp: rns_ifac_derive_def split: if_splits option.splits)
  let ?s = "fit 64 [0x10, 2, 3, 4]"
  have sign: "rns_identity_sign sample_provider (ifac_identity ifac) [0x10, 2, 3, 4] = Some ?s"
    using i(2) by (simp add: rns_identity_sign_def sample_provider_eval ifac_valid_def)
  have key: "length (ifac_key ifac) = 64"
    using i(1) sample_provider_sound(2)
    by (auto simp: rns_ifac_derive_def hkdf_sound_def split: if_splits option.splits)
  have tag: "length (ifac_tag 8 ?s) = 8" by (simp add: ifac_tag_def)
  then have "ifac_tag 8 ?s \<noteq> []" by auto
  with key have "\<exists>stream. rns_hkdf_sha256 sample_provider (ifac_tag 8 ?s) (ifac_key ifac) [] 12 = Some stream"
    using sample_hkdf [of "ifac_tag 8 ?s" "ifac_key ifac" "[]" 12] by simp
  with sign obtain pr where pr: "rns_ifac_protect sample_provider ifac [0x10, 2, 3, 4] 12 = Some pr"
    using rns_ifac_protect_iff [OF sample_provider_sound(2,4) i(2) size, of "[0x10, 2, 3, 4]" 12] by auto
  have "length pr = 12"
    using pr rns_ifac_protect_iff [OF sample_provider_sound(2,4) i(2) size, of "[0x10, 2, 3, 4]" 12 pr]
      tag sign sample_provider_sound(2) by (auto simp: ifac_image_def hkdf_sound_def)
  then show ?thesis
    using ifac_protect_unprotect [OF sample_provider_sound(2,4) i(2), of pr 12 12 "[0x10, 2, 3, 4]"] pr
    by auto
qed

end
