(* ===== verification/Radio_Framing.thy ===== *)
theory Radio_Framing
  imports Framing
begin

text \<open>
  Split framing for LoRa radios: \<^verbatim>\<open>src/interfaces/radio_framing.c\<close>. A packet of up to 500 bytes
  travels in one or two frames of at most 255 bytes, each with a header of a four-bit sequence
  number and a split flag. The reassembler keeps one pending first fragment; a sequence number that
  completed, timed out or was abandoned is blocked until its reuse guard has passed.

  Times are the 64-bit millisecond readings passed to each call. The \<^verbatim>\<open>size_t\<close> counters wrap
  at 64 bits.
\<close>

abbreviation (input) RNS_RADIO_PHY_MTU :: nat where "RNS_RADIO_PHY_MTU \<equiv> 255"
abbreviation (input) RNS_RADIO_FRAME_PAYLOAD_MTU :: nat where "RNS_RADIO_FRAME_PAYLOAD_MTU \<equiv> 254"
abbreviation (input) RNS_RADIO_PACKET_MTU :: nat where "RNS_RADIO_PACKET_MTU \<equiv> 500"
abbreviation (input) RNS_RADIO_SPLIT_FLAG :: byte where "RNS_RADIO_SPLIT_FLAG \<equiv> 0x01"
abbreviation (input) RNS_RADIO_RESERVED_MASK :: byte where "RNS_RADIO_RESERVED_MASK \<equiv> 0x0e"
abbreviation (input) RNS_RADIO_SEQUENCE_MASK :: byte where "RNS_RADIO_SEQUENCE_MASK \<equiv> 0xf0"

record rns_radio_encoded_packet =
  enc_frames :: "bytes list"
  enc_lengths :: "nat list"
  enc_count :: nat

record rns_radio_reassembler =
  rr_buffer :: bytes
  rr_capacity :: nat
  rr_length :: nat
  rr_fragment_timeout_ms :: u64
  rr_sequence_reuse_guard_ms :: u64
  rr_pending_since_ms :: u64
  rr_sequence_blocked_until_ms :: "u64 list"
  rr_sequence_blocked :: "bool list"
  rr_completed_packets :: u64
  rr_malformed_frames :: u64
  rr_oversized_packets :: u64
  rr_timed_out_packets :: u64
  rr_duplicate_fragments :: u64
  rr_out_of_order_fragments :: u64
  rr_sequence_collisions :: u64
  rr_discarded_packets :: u64
  rr_sequence :: byte
  rr_pending :: bool

definition deadline_after :: "u64 \<Rightarrow> u64 \<Rightarrow> u64" where
  "deadline_after now_ms interval_ms =
     (if interval_ms > - 1 - now_ms then - 1 else now_ms + interval_ms)"

definition clear_pending :: "rns_radio_reassembler \<Rightarrow> rns_radio_reassembler" where
  "clear_pending d = d\<lparr>rr_length := 0, rr_pending_since_ms := 0, rr_sequence := 0, rr_pending := False\<rparr>"

definition block_sequence :: "byte \<Rightarrow> u64 \<Rightarrow> rns_radio_reassembler \<Rightarrow> rns_radio_reassembler" where
  "block_sequence sequence now_ms d =
     d\<lparr>rr_sequence_blocked := (rr_sequence_blocked d)[unat sequence := True],
       rr_sequence_blocked_until_ms := (rr_sequence_blocked_until_ms d)
         [unat sequence := deadline_after now_ms (rr_sequence_reuse_guard_ms d)]\<rparr>"

definition sequence_is_blocked ::
  "byte \<Rightarrow> u64 \<Rightarrow> rns_radio_reassembler \<Rightarrow> bool \<times> rns_radio_reassembler" where
  "sequence_is_blocked sequence now_ms d =
     (if \<not> rr_sequence_blocked d ! unat sequence then (False, d)
      else if now_ms \<ge> rr_sequence_blocked_until_ms d ! unat sequence
      then (False, d\<lparr>rr_sequence_blocked := (rr_sequence_blocked d)[unat sequence := False],
                     rr_sequence_blocked_until_ms :=
                       (rr_sequence_blocked_until_ms d)[unat sequence := 0]\<rparr>)
      else (True, d))"

text \<open>A frame buffer has 255 bytes, of which the first \<^verbatim>\<open>lengths[i]\<close> count.\<close>

definition frame_buffer :: "bytes \<Rightarrow> bytes" where
  "frame_buffer bs = bs @ replicate (RNS_RADIO_PHY_MTU - length bs) 0"

definition rns_radio_frame_encode :: "bytes \<Rightarrow> byte \<Rightarrow> rns_status + rns_radio_encoded_packet" where
  "rns_radio_frame_encode packet sequence =
     (if length packet = 0 \<or> length packet > RNS_RADIO_PACKET_MTU \<or> sequence \<ge> 16
      then Inl RNS_ERROR_INVALID_ARGUMENT
      else let header = push_bit 4 sequence
           in if length packet \<le> RNS_RADIO_FRAME_PAYLOAD_MTU
              then Inr \<lparr>enc_frames = [frame_buffer (header # packet), frame_buffer []],
                        enc_lengths = [length packet + 1, 0], enc_count = 1\<rparr>
              else let header = header OR RNS_RADIO_SPLIT_FLAG;
                       second_length = length packet - RNS_RADIO_FRAME_PAYLOAD_MTU
                   in Inr \<lparr>enc_frames =
                             [frame_buffer (header # take RNS_RADIO_FRAME_PAYLOAD_MTU packet),
                              frame_buffer (header # drop RNS_RADIO_FRAME_PAYLOAD_MTU packet)],
                           enc_lengths = [RNS_RADIO_PHY_MTU, second_length + 1], enc_count = 2\<rparr>)"

definition rns_radio_reassembler_init ::
  "bytes \<Rightarrow> u64 \<Rightarrow> u64 \<Rightarrow> rns_status + rns_radio_reassembler" where
  "rns_radio_reassembler_init storage fragment_timeout_ms sequence_reuse_guard_ms =
     (if length storage = 0 \<or> length storage > RNS_RADIO_PACKET_MTU \<or> fragment_timeout_ms = 0 \<or>
         sequence_reuse_guard_ms = 0 then Inl RNS_ERROR_INVALID_ARGUMENT
      else Inr \<lparr>rr_buffer = storage, rr_capacity = length storage, rr_length = 0,
                rr_fragment_timeout_ms = fragment_timeout_ms,
                rr_sequence_reuse_guard_ms = sequence_reuse_guard_ms, rr_pending_since_ms = 0,
                rr_sequence_blocked_until_ms = replicate 16 0,
                rr_sequence_blocked = replicate 16 False, rr_completed_packets = 0,
                rr_malformed_frames = 0, rr_oversized_packets = 0, rr_timed_out_packets = 0,
                rr_duplicate_fragments = 0, rr_out_of_order_fragments = 0,
                rr_sequence_collisions = 0, rr_discarded_packets = 0, rr_sequence = 0,
                rr_pending = False\<rparr>)"

definition rns_radio_reassembler_reset :: "rns_radio_reassembler \<Rightarrow> rns_radio_reassembler" where
  "rns_radio_reassembler_reset d =
     (clear_pending d)\<lparr>rr_sequence_blocked := replicate 16 False,
                       rr_sequence_blocked_until_ms := replicate 16 0\<rparr>"

definition rns_radio_reassembler_expire ::
  "u64 \<Rightarrow> rns_radio_reassembler \<Rightarrow> bool \<times> rns_radio_reassembler" where
  "rns_radio_reassembler_expire now_ms d =
     (if \<not> rr_pending d \<or> now_ms < rr_pending_since_ms d \<or>
         now_ms - rr_pending_since_ms d < rr_fragment_timeout_ms d then (False, d)
      else let d1 = block_sequence (rr_sequence d) now_ms (clear_pending d)
           in (True, d1\<lparr>rr_timed_out_packets := rr_timed_out_packets d1 + 1\<rparr>))"

definition buffer_first ::
  "bytes \<Rightarrow> byte \<Rightarrow> u64 \<Rightarrow> rns_radio_reassembler \<Rightarrow> rns_status \<times> rns_radio_reassembler" where
  "buffer_first payload sequence now_ms d =
     (if RNS_RADIO_FRAME_PAYLOAD_MTU > rr_capacity d
      then (RNS_ERROR_OVERFLOW, d\<lparr>rr_oversized_packets := rr_oversized_packets d + 1\<rparr>)
      else (RNS_OK,
            d\<lparr>rr_buffer := take RNS_RADIO_FRAME_PAYLOAD_MTU payload @
                            drop RNS_RADIO_FRAME_PAYLOAD_MTU (rr_buffer d),
              rr_length := RNS_RADIO_FRAME_PAYLOAD_MTU, rr_pending_since_ms := now_ms,
              rr_sequence := sequence, rr_pending := True\<rparr>))"

definition discard_pending :: "u64 \<Rightarrow> rns_radio_reassembler \<Rightarrow> rns_radio_reassembler" where
  "discard_pending now_ms d =
     (let d1 = block_sequence (rr_sequence d) now_ms (clear_pending d)
      in d1\<lparr>rr_discarded_packets := rr_discarded_packets d1 + 1\<rparr>)"

text \<open>The three parts of the feed function after the checks: whole, first and second frames.\<close>

definition radio_feed_whole ::
  "'c frame_callback \<Rightarrow> bytes \<Rightarrow> u64 \<Rightarrow> rns_radio_reassembler \<Rightarrow> 'c \<Rightarrow>
     rns_status \<times> rns_radio_reassembler \<times> 'c" where
  "radio_feed_whole callback payload now_ms d c =
     (let d1 = (if rr_pending d then discard_pending now_ms d else d)
      in if length payload > rr_capacity d1
         then (RNS_ERROR_OVERFLOW, d1\<lparr>rr_oversized_packets := rr_oversized_packets d1 + 1\<rparr>, c)
         else case callback payload c of
                (status, c') \<Rightarrow>
                  (status,
                   if status = RNS_OK
                   then d1\<lparr>rr_completed_packets := rr_completed_packets d1 + 1\<rparr> else d1, c'))"

definition radio_feed_first ::
  "bytes \<Rightarrow> byte \<Rightarrow> u64 \<Rightarrow> rns_radio_reassembler \<Rightarrow> rns_status \<times> rns_radio_reassembler" where
  "radio_feed_first payload sequence now_ms d =
     (case sequence_is_blocked sequence now_ms d of
        (True, d1) \<Rightarrow>
          (RNS_ERROR_INVALID_STATE, d1\<lparr>rr_sequence_collisions := rr_sequence_collisions d1 + 1\<rparr>)
      | (False, d1) \<Rightarrow>
          if rr_pending d1 \<and> rr_sequence d1 = sequence
          then if take RNS_RADIO_FRAME_PAYLOAD_MTU (rr_buffer d1) = payload
               then (RNS_OK, d1\<lparr>rr_duplicate_fragments := rr_duplicate_fragments d1 + 1\<rparr>)
               else let d2 = block_sequence sequence now_ms (clear_pending d1)
                    in (RNS_ERROR_PROTOCOL,
                        d2\<lparr>rr_sequence_collisions := rr_sequence_collisions d2 + 1\<rparr>)
          else buffer_first payload sequence now_ms
                 (if rr_pending d1 then discard_pending now_ms d1 else d1))"

definition radio_feed_second ::
  "'c frame_callback \<Rightarrow> bytes \<Rightarrow> byte \<Rightarrow> u64 \<Rightarrow> rns_radio_reassembler \<Rightarrow> 'c \<Rightarrow>
     rns_status \<times> rns_radio_reassembler \<times> 'c" where
  "radio_feed_second callback payload sequence now_ms d c =
     (if length payload > RNS_RADIO_PACKET_MTU - RNS_RADIO_FRAME_PAYLOAD_MTU
      then (RNS_ERROR_PROTOCOL, d\<lparr>rr_malformed_frames := rr_malformed_frames d + 1\<rparr>, c)
      else if \<not> rr_pending d \<or> rr_sequence d \<noteq> sequence
      then (RNS_ERROR_PROTOCOL,
            d\<lparr>rr_out_of_order_fragments := rr_out_of_order_fragments d + 1\<rparr>, c)
      else if length payload > rr_capacity d - rr_length d
      then let d1 = block_sequence (rr_sequence d) now_ms (clear_pending d)
           in (RNS_ERROR_OVERFLOW, d1\<lparr>rr_oversized_packets := rr_oversized_packets d1 + 1\<rparr>, c)
      else let n = rr_length d + length payload;
               d1 = d\<lparr>rr_buffer := take (rr_length d) (rr_buffer d) @ payload @ drop n (rr_buffer d)\<rparr>;
               d2 = block_sequence sequence now_ms (clear_pending d1)
           in case callback (take n (rr_buffer d2)) c of
                (status, c') \<Rightarrow>
                  (status,
                   if status = RNS_OK
                   then d2\<lparr>rr_completed_packets := rr_completed_packets d2 + 1\<rparr> else d2, c'))"

definition rns_radio_reassembler_feed ::
  "'c frame_callback \<Rightarrow> bytes \<Rightarrow> u64 \<Rightarrow> rns_radio_reassembler \<Rightarrow> 'c \<Rightarrow>
     rns_status \<times> rns_radio_reassembler \<times> 'c" where
  "rns_radio_reassembler_feed callback frame now_ms d c =
     (if rr_capacity d = 0 then (RNS_ERROR_INVALID_ARGUMENT, d, c)
      else if length frame \<le> 1 \<or> length frame > RNS_RADIO_PHY_MTU
      then (RNS_ERROR_PROTOCOL, d\<lparr>rr_malformed_frames := rr_malformed_frames d + 1\<rparr>, c)
      else if frame ! 0 AND RNS_RADIO_RESERVED_MASK \<noteq> 0
      then (RNS_ERROR_PROTOCOL, d\<lparr>rr_malformed_frames := rr_malformed_frames d + 1\<rparr>, c)
      else let d1 = snd (rns_radio_reassembler_expire now_ms d);
               sequence = drop_bit 4 (frame ! 0 AND RNS_RADIO_SEQUENCE_MASK);
               payload = drop 1 frame
           in if frame ! 0 AND RNS_RADIO_SPLIT_FLAG = 0
              then radio_feed_whole callback payload now_ms d1 c
              else if length frame = RNS_RADIO_PHY_MTU
              then case radio_feed_first payload sequence now_ms d1 of (status, d2) \<Rightarrow> (status, d2, c)
              else radio_feed_second callback payload sequence now_ms d1 c)"

section \<open>The invariant of the reassembler\<close>

definition reassembler_wf :: "rns_radio_reassembler \<Rightarrow> bool" where
  "reassembler_wf d \<longleftrightarrow>
     length (rr_buffer d) = rr_capacity d \<and> 0 < rr_capacity d \<and> rr_capacity d \<le> RNS_RADIO_PACKET_MTU \<and>
     length (rr_sequence_blocked d) = 16 \<and> length (rr_sequence_blocked_until_ms d) = 16 \<and>
     unat (rr_sequence d) < 16 \<and>
     (if rr_pending d then rr_length d = RNS_RADIO_FRAME_PAYLOAD_MTU \<and>
                           RNS_RADIO_FRAME_PAYLOAD_MTU \<le> rr_capacity d
      else rr_length d = 0)"

lemma reassembler_wf_counters [simp]:
  "reassembler_wf (d\<lparr>rr_completed_packets := n\<rparr>) = reassembler_wf d"
  "reassembler_wf (d\<lparr>rr_malformed_frames := n\<rparr>) = reassembler_wf d"
  "reassembler_wf (d\<lparr>rr_oversized_packets := n\<rparr>) = reassembler_wf d"
  "reassembler_wf (d\<lparr>rr_timed_out_packets := n\<rparr>) = reassembler_wf d"
  "reassembler_wf (d\<lparr>rr_duplicate_fragments := n\<rparr>) = reassembler_wf d"
  "reassembler_wf (d\<lparr>rr_out_of_order_fragments := n\<rparr>) = reassembler_wf d"
  "reassembler_wf (d\<lparr>rr_sequence_collisions := n\<rparr>) = reassembler_wf d"
  "reassembler_wf (d\<lparr>rr_discarded_packets := n\<rparr>) = reassembler_wf d"
  by (simp_all add: reassembler_wf_def)

lemma clear_block_wf:
  "reassembler_wf d \<Longrightarrow> reassembler_wf (block_sequence s now (clear_pending d))"
  by (auto simp: reassembler_wf_def block_sequence_def clear_pending_def split: if_splits)

lemma clear_block_simps [simp]:
  "rr_capacity (block_sequence s now d) = rr_capacity d"
  "rr_buffer (block_sequence s now d) = rr_buffer d"
  "rr_pending (block_sequence s now d) = rr_pending d"
  "rr_capacity (clear_pending d) = rr_capacity d"
  "rr_buffer (clear_pending d) = rr_buffer d"
  "\<not> rr_pending (clear_pending d)"
  by (simp_all add: block_sequence_def clear_pending_def)

lemma expire_wf: "reassembler_wf d \<Longrightarrow> reassembler_wf (snd (rns_radio_reassembler_expire now d))"
  by (auto simp: rns_radio_reassembler_expire_def Let_def clear_block_wf)

lemma discard_pending_wf: "reassembler_wf d \<Longrightarrow> reassembler_wf (discard_pending now d)"
  by (simp add: discard_pending_def Let_def clear_block_wf)

lemma sequence_is_blocked_wf:
  "reassembler_wf d \<Longrightarrow> reassembler_wf (snd (sequence_is_blocked s now d))"
  by (auto simp: sequence_is_blocked_def reassembler_wf_def)

lemma feed_whole_wf:
  "reassembler_wf d \<Longrightarrow> reassembler_wf (fst (snd (radio_feed_whole cb payload now d c)))"
  by (auto simp: radio_feed_whole_def Let_def discard_pending_wf split: prod.splits)

lemma buffer_first_wf:
  assumes "reassembler_wf d" "length payload = RNS_RADIO_FRAME_PAYLOAD_MTU" "unat s < 16"
  shows "reassembler_wf (snd (buffer_first payload s now d))"
  using assms by (auto simp: buffer_first_def) (auto simp: reassembler_wf_def)

lemma feed_first_wf:
  assumes "reassembler_wf d" "length payload = RNS_RADIO_FRAME_PAYLOAD_MTU" "unat s < 16"
  shows "reassembler_wf (snd (radio_feed_first payload s now d))"
proof -
  have "reassembler_wf (snd (sequence_is_blocked s now d))"
    using assms(1) by (rule sequence_is_blocked_wf)
  then show ?thesis
    using assms(2,3)
    by (auto simp: radio_feed_first_def Let_def clear_block_wf buffer_first_wf discard_pending_wf
        split: prod.splits bool.splits)
qed

lemma feed_second_wf:
  assumes "reassembler_wf d"
  shows "reassembler_wf (fst (snd (radio_feed_second cb payload s now d c)))"
proof -
  have "reassembler_wf (block_sequence s now (clear_pending
      (d\<lparr>rr_buffer := take (rr_length d) (rr_buffer d) @ payload @
          drop (rr_length d + length payload) (rr_buffer d)\<rparr>)))"
    if "rr_pending d" "length payload \<le> rr_capacity d - rr_length d"
    using assms that by (auto simp: reassembler_wf_def block_sequence_def clear_pending_def)
  with assms show ?thesis
    by (auto simp: radio_feed_second_def Let_def clear_block_wf not_less split: prod.splits)
qed

lemma sequence_nibble: "unat (drop_bit 4 (b AND RNS_RADIO_SEQUENCE_MASK :: byte)) < 16"
proof -
  have "\<forall>b \<in> set (map of_nat [0..<256]). unat (drop_bit 4 (b AND RNS_RADIO_SEQUENCE_MASK :: byte)) < 16"
    by code_simp
  moreover have "b \<in> set (map of_nat [0..<256])"
    by (rule byte_below) (use unsigned_less [of b] in simp)
  ultimately show ?thesis by blast
qed

lemma feed_wf:
  assumes "reassembler_wf d"
  shows "reassembler_wf (fst (snd (rns_radio_reassembler_feed cb frame now d c)))"
proof -
  let ?d = "snd (rns_radio_reassembler_expire now d)"
  have wf: "reassembler_wf ?d" using assms by (rule expire_wf)
  have "reassembler_wf (snd (radio_feed_first (drop 1 frame)
      (drop_bit 4 (frame ! 0 AND RNS_RADIO_SEQUENCE_MASK)) now ?d))" if "length frame = RNS_RADIO_PHY_MTU"
    using that by (intro feed_first_wf [OF wf] sequence_nibble) simp
  with wf assms show ?thesis
    by (auto simp: rns_radio_reassembler_feed_def Let_def feed_whole_wf feed_second_wf
        split: prod.splits)
qed

text \<open>
  The reassembler's invariant: after initialisation, and after every expiry, reset and feed of any
  frame at any time with any callback, the storage keeps its size, a pending fragment has exactly
  the 254 bytes of a first fragment and fits the storage, no bytes are held otherwise, and the
  pending sequence number indexes the guard tables.
\<close>

theorem radio_reassembler_invariant:
  "(rns_radio_reassembler_init storage timeout guard = Inr d0 \<longrightarrow> reassembler_wf d0) \<and>
   (reassembler_wf d \<longrightarrow>
      reassembler_wf (rns_radio_reassembler_reset d) \<and>
      reassembler_wf (snd (rns_radio_reassembler_expire now d)) \<and>
      reassembler_wf (fst (snd (rns_radio_reassembler_feed cb frame now d c))))"
  using feed_wf [of d cb frame now c] expire_wf [of d now]
  by (auto simp: rns_radio_reassembler_init_def rns_radio_reassembler_reset_def clear_pending_def
      reassembler_wf_def split: if_splits)

definition sample_reassembler :: rns_radio_reassembler where
  "sample_reassembler =
     (case rns_radio_reassembler_init (replicate 500 0) 1000 5000 of Inr d \<Rightarrow> d)"

lemma sample_reassembler_init:
  "rns_radio_reassembler_init (replicate 500 0) 1000 5000 = Inr sample_reassembler"
  by (simp add: sample_reassembler_def rns_radio_reassembler_init_def)

theorem radio_reassembler_invariant_witness:
  "reassembler_wf sample_reassembler \<and>
   reassembler_wf (fst (snd (rns_radio_reassembler_feed log_frame (0x31 # replicate 254 7) 10
     sample_reassembler [])))"
  using radio_reassembler_invariant [of "replicate 500 0" 1000 5000 sample_reassembler sample_reassembler
      10 log_frame "0x31 # replicate 254 7" "[]"] sample_reassembler_init by blast

section \<open>Encoding and reassembly\<close>

text \<open>The frames that are transmitted: the first \<open>count\<close> buffers, cut to their lengths.\<close>

definition encoded_frames :: "rns_radio_encoded_packet \<Rightarrow> bytes list" where
  "encoded_frames e = map (\<lambda>i. take (enc_lengths e ! i) (enc_frames e ! i)) [0..<enc_count e]"

fun radio_feed_all ::
  "'c frame_callback \<Rightarrow> (bytes \<times> u64) list \<Rightarrow> rns_radio_reassembler \<Rightarrow> 'c \<Rightarrow>
     rns_status \<times> rns_radio_reassembler \<times> 'c" where
  "radio_feed_all cb [] d c = (RNS_OK, d, c)"
| "radio_feed_all cb ((frame, now) # rest) d c =
     (case rns_radio_reassembler_feed cb frame now d c of
        (status, d', c') \<Rightarrow>
          if status = RNS_OK then radio_feed_all cb rest d' c' else (status, d', c'))"

lemma encoded_frames_cases:
  assumes "rns_radio_frame_encode packet s = Inr e"
  shows "s < 16 \<and> 0 < length packet \<and> length packet \<le> RNS_RADIO_PACKET_MTU \<and>
         encoded_frames e =
           (if length packet \<le> RNS_RADIO_FRAME_PAYLOAD_MTU then [push_bit 4 s # packet]
            else [(push_bit 4 s OR 1) # take 254 packet, (push_bit 4 s OR 1) # drop 254 packet])"
  using assms
  by (auto simp: rns_radio_frame_encode_def Let_def encoded_frames_def frame_buffer_def upt_rec
      split: if_splits)

lemma radio_header:
  fixes s :: byte
  assumes "s < 16"
  shows "push_bit 4 s AND RNS_RADIO_RESERVED_MASK = 0" "push_bit 4 s AND RNS_RADIO_SPLIT_FLAG = 0"
    "(push_bit 4 s OR 1) AND RNS_RADIO_RESERVED_MASK = 0"
    "(push_bit 4 s OR 1) AND RNS_RADIO_SPLIT_FLAG \<noteq> 0"
    "drop_bit 4 ((push_bit 4 s OR 1) AND RNS_RADIO_SEQUENCE_MASK) = s"
    "drop_bit 4 (push_bit 4 s) AND 0x0f = s"
proof -
  have *: "\<forall>s \<in> set (map of_nat [0..<16]).
      push_bit 4 s AND RNS_RADIO_RESERVED_MASK = 0 \<and> push_bit 4 s AND RNS_RADIO_SPLIT_FLAG = 0 \<and>
      (push_bit 4 s OR 1) AND RNS_RADIO_RESERVED_MASK = 0 \<and>
      (push_bit 4 s OR 1) AND RNS_RADIO_SPLIT_FLAG \<noteq> 0 \<and>
      drop_bit 4 ((push_bit 4 s OR 1) AND RNS_RADIO_SEQUENCE_MASK) = (s :: byte) \<and>
      drop_bit 4 (push_bit 4 s) AND 0x0f = s"
    by code_simp
  have "s \<in> set (map of_nat [0..<16])"
    using assms by (intro byte_below) (simp add: word_less_nat_alt)
  note all = bspec [OF * this]
  show "push_bit 4 s AND RNS_RADIO_RESERVED_MASK = 0" "push_bit 4 s AND RNS_RADIO_SPLIT_FLAG = 0"
    "(push_bit 4 s OR 1) AND RNS_RADIO_RESERVED_MASK = 0"
    "(push_bit 4 s OR 1) AND RNS_RADIO_SPLIT_FLAG \<noteq> 0"
    "drop_bit 4 ((push_bit 4 s OR 1) AND RNS_RADIO_SEQUENCE_MASK) = s"
    "drop_bit 4 (push_bit 4 s) AND 0x0f = s"
    using all by blast+
qed

lemma expire_keeps:
  "rr_capacity (snd (rns_radio_reassembler_expire now d)) = rr_capacity d"
  "rr_buffer (snd (rns_radio_reassembler_expire now d)) = rr_buffer d"
  "rr_fragment_timeout_ms (snd (rns_radio_reassembler_expire now d)) = rr_fragment_timeout_ms d"
  "rr_pending (snd (rns_radio_reassembler_expire now d)) \<Longrightarrow> snd (rns_radio_reassembler_expire now d) = d"
  by (auto simp: rns_radio_reassembler_expire_def Let_def block_sequence_def clear_pending_def)

lemma feed_whole_frame:
  assumes "reassembler_wf d" "s < 16" "0 < length packet" "length packet \<le> RNS_RADIO_FRAME_PAYLOAD_MTU"
    "length packet \<le> rr_capacity d"
  shows "\<exists>d'. rns_radio_reassembler_feed cb (push_bit 4 s # packet) now d c =
                (fst (cb packet c), d', snd (cb packet c)) \<and> \<not> rr_pending d'"
proof -
  have "rr_capacity d \<noteq> 0" using assms(1) by (simp add: reassembler_wf_def)
  with assms(2-5) show ?thesis
    by (cases "cb packet c")
       (auto simp: rns_radio_reassembler_feed_def radio_header Let_def radio_feed_whole_def
         discard_pending_def expire_keeps)
qed

definition sequence_free :: "byte \<Rightarrow> u64 \<Rightarrow> rns_radio_reassembler \<Rightarrow> bool" where
  "sequence_free s now d \<longleftrightarrow>
     (\<not> rr_sequence_blocked d ! unat s \<or> rr_sequence_blocked_until_ms d ! unat s \<le> now) \<and>
     (rr_pending d \<longrightarrow> rr_sequence d \<noteq> s)"

lemma expire_sequence_free:
  assumes "sequence_free s now d"
  shows "sequence_free s now (snd (rns_radio_reassembler_expire now d))"
  using assms
  by (auto simp: rns_radio_reassembler_expire_def sequence_free_def Let_def block_sequence_def
      clear_pending_def nth_list_update word_unat_eq_iff)

lemma feed_first_free:
  assumes "reassembler_wf d" "sequence_free s now d" "length payload = RNS_RADIO_FRAME_PAYLOAD_MTU"
    "RNS_RADIO_FRAME_PAYLOAD_MTU \<le> rr_capacity d"
  shows "\<exists>d'. radio_feed_first payload s now d = (RNS_OK, d') \<and> rr_pending d' \<and> rr_sequence d' = s \<and>
              rr_length d' = 254 \<and> rr_pending_since_ms d' = now \<and> take 254 (rr_buffer d') = payload \<and>
              rr_capacity d' = rr_capacity d \<and> rr_fragment_timeout_ms d' = rr_fragment_timeout_ms d"
  using assms
  by (auto simp: radio_feed_first_def sequence_is_blocked_def sequence_free_def buffer_first_def
      discard_pending_def Let_def block_sequence_def clear_pending_def)

lemma feed_split_first:
  assumes "reassembler_wf d" "s < 16" "sequence_free s now d"
    "length payload = RNS_RADIO_FRAME_PAYLOAD_MTU" "RNS_RADIO_FRAME_PAYLOAD_MTU \<le> rr_capacity d"
  shows "\<exists>d'. rns_radio_reassembler_feed cb ((push_bit 4 s OR 1) # payload) now d c = (RNS_OK, d', c) \<and>
              reassembler_wf d' \<and> rr_pending d' \<and> rr_sequence d' = s \<and> rr_length d' = 254 \<and>
              rr_pending_since_ms d' = now \<and> take 254 (rr_buffer d') = payload \<and>
              rr_capacity d' = rr_capacity d \<and> rr_fragment_timeout_ms d' = rr_fragment_timeout_ms d"
proof -
  let ?d = "snd (rns_radio_reassembler_expire now d)"
  have "RNS_RADIO_FRAME_PAYLOAD_MTU \<le> rr_capacity ?d" using assms(5) by (simp add: expire_keeps)
  then obtain d' where d': "radio_feed_first payload s now ?d = (RNS_OK, d')" "rr_pending d'"
    "rr_sequence d' = s" "rr_length d' = 254" "rr_pending_since_ms d' = now"
    "take 254 (rr_buffer d') = payload" "rr_capacity d' = rr_capacity d"
    "rr_fragment_timeout_ms d' = rr_fragment_timeout_ms d"
    using feed_first_free [OF expire_wf [OF assms(1)] expire_sequence_free [OF assms(3)] assms(4)]
    by (auto simp: expire_keeps)
  have feed: "rns_radio_reassembler_feed cb ((push_bit 4 s OR 1) # payload) now d c = (RNS_OK, d', c)"
    using assms(1,4) d'(1)
    by (simp add: rns_radio_reassembler_feed_def radio_header [OF assms(2)] Let_def reassembler_wf_def)
  moreover have "reassembler_wf d'"
    using feed_wf [OF assms(1), of cb "(push_bit 4 s OR 1) # payload" now c] feed by simp
  ultimately show ?thesis using d' by blast
qed

lemma feed_split_second:
  assumes "reassembler_wf d" "s < 16" "rr_pending d" "rr_sequence d = s" "rr_length d = 254"
    "now < rr_pending_since_ms d \<or> now - rr_pending_since_ms d < rr_fragment_timeout_ms d"
    "0 < length payload" "length payload \<le> 246" "254 + length payload \<le> rr_capacity d"
  shows "\<exists>d'. rns_radio_reassembler_feed cb ((push_bit 4 s OR 1) # payload) now d c =
                (fst (cb (take 254 (rr_buffer d) @ payload) c), d',
                 snd (cb (take 254 (rr_buffer d) @ payload) c)) \<and> \<not> rr_pending d'"
proof -
  have "snd (rns_radio_reassembler_expire now d) = d"
    using assms(6) by (auto simp: rns_radio_reassembler_expire_def)
  moreover have "length (rr_buffer d) = rr_capacity d" using assms(1) by (simp add: reassembler_wf_def)
  ultimately show ?thesis
    using assms
    by (cases "cb (take 254 (rr_buffer d) @ payload) c")
       (auto simp: rns_radio_reassembler_feed_def radio_header [OF assms(2)] Let_def radio_feed_second_def)
qed

text \<open>
  C6. Radio framing round-trips: any packet of 1 to 500 bytes that fits the receiver's storage, sent
  under any sequence number and received at times \<open>t0\<close> and \<open>t1\<close>, is handed to the
  callback exactly once and whole, whatever was pending before, provided that for a split packet the
  sequence number is neither blocked nor pending and the second fragment arrives within the timeout.
\<close>

theorem radio_roundtrip:
  assumes "rns_radio_frame_encode packet s = Inr e" and "reassembler_wf d"
    and "length packet \<le> rr_capacity d" and "sequence_free s t0 d"
    and "t1 < t0 \<or> t1 - t0 < rr_fragment_timeout_ms d"
  shows "\<exists>d'. radio_feed_all cb (zip (encoded_frames e) [t0, t1]) d c =
               (fst (cb packet c), d', snd (cb packet c)) \<and> \<not> rr_pending d'"
proof -
  note enc = encoded_frames_cases [OF assms(1)]
  show ?thesis
  proof (cases "length packet \<le> RNS_RADIO_FRAME_PAYLOAD_MTU")
    case True
    with enc have s: "s < 16" "0 < length packet" "encoded_frames e = [push_bit 4 s # packet]" by simp_all
    obtain d' where "rns_radio_reassembler_feed cb (push_bit 4 s # packet) t0 d c =
        (fst (cb packet c), d', snd (cb packet c))" "\<not> rr_pending d'"
      using feed_whole_frame [OF assms(2) s(1,2) True assms(3), of cb t0 c] by blast
    then show ?thesis using s(3) by auto
  next
    case False
    with enc have s: "s < 16" "length packet \<le> 500"
      "encoded_frames e = [(push_bit 4 s OR 1) # take 254 packet, (push_bit 4 s OR 1) # drop 254 packet]"
      by simp_all
    have l: "length (take 254 packet) = 254" "254 \<le> rr_capacity d" using False assms(3) by simp_all
    have m: "0 < length (drop 254 packet)" "length (drop 254 packet) \<le> 246"
      "254 + length (drop 254 packet) \<le> rr_capacity d"
      using False s(2) assms(3) by auto
    obtain d1 where d1: "rns_radio_reassembler_feed cb ((push_bit 4 s OR 1) # take 254 packet) t0 d c =
        (RNS_OK, d1, c)" "reassembler_wf d1" "rr_pending d1" "rr_sequence d1 = s" "rr_length d1 = 254"
      "rr_pending_since_ms d1 = t0" "take 254 (rr_buffer d1) = take 254 packet"
      "rr_capacity d1 = rr_capacity d" "rr_fragment_timeout_ms d1 = rr_fragment_timeout_ms d"
      using feed_split_first [OF assms(2) s(1) assms(4) l, of cb c] by blast
    obtain d2 where d2: "rns_radio_reassembler_feed cb ((push_bit 4 s OR 1) # drop 254 packet) t1 d1 c =
        (fst (cb (take 254 packet @ drop 254 packet) c), d2, snd (cb (take 254 packet @ drop 254 packet) c))"
      "\<not> rr_pending d2"
      using feed_split_second [OF d1(2) s(1) d1(3-5), of t1 "drop 254 packet" cb c] d1(6-9) assms(5) m
      by auto
    show ?thesis
      using d1(1) d2 s(3) by (auto simp: append_take_drop_id)
  qed
qed

theorem radio_roundtrip_witness:
  "\<exists>e d'. rns_radio_frame_encode (replicate 300 9) 5 = Inr e \<and>
     radio_feed_all log_frame (zip (encoded_frames e) [100, 600]) sample_reassembler [] =
       (RNS_OK, d', [replicate 300 9]) \<and> \<not> rr_pending d'"
proof -
  obtain e where e: "rns_radio_frame_encode (replicate 300 9) 5 = Inr e"
    by (auto simp: rns_radio_frame_encode_def)
  have "reassembler_wf sample_reassembler" "sequence_free 5 100 sample_reassembler"
    "length (replicate 300 (9 :: byte)) \<le> rr_capacity sample_reassembler"
    "(600 :: u64) < 100 \<or> 600 - 100 < rr_fragment_timeout_ms sample_reassembler"
    by (simp_all add: sample_reassembler_def rns_radio_reassembler_init_def sequence_free_def
        reassembler_wf_def)
  from radio_roundtrip [OF e this(1,3,2,4), of log_frame "[]"] e show ?thesis by auto
qed

lemma radio_feed_whole_log:
  "radio_feed_whole log_frame payload now d seen = (status, d', seen') \<Longrightarrow>
     seen' = seen \<or> seen' = seen @ [payload]"
  by (auto simp: radio_feed_whole_def Let_def split: if_splits)

lemma radio_feed_second_log:
  assumes "radio_feed_second log_frame payload s now d seen = (status, d', seen')"
    and "length (rr_buffer d) = rr_capacity d" "rr_length d \<le> rr_capacity d"
    "length (rr_sequence_blocked d) = 16" "unat s < 16"
  shows "seen' = seen \<or>
         rr_pending d \<and> rr_sequence d = s \<and> seen' = seen @ [take (rr_length d) (rr_buffer d) @ payload] \<and>
         \<not> rr_pending d' \<and> rr_sequence_blocked d' ! unat s"
  using assms
  by (auto simp: radio_feed_second_def Let_def block_sequence_def clear_pending_def not_less
      split: if_splits)

text \<open>
  C25. Nothing but whole packets is delivered: a feed hands the callback nothing, or the payload of an
  unsplit frame, or the pending first fragment followed by the payload of a shorter split frame with
  the same sequence number, fed before the fragment timed out. In the last case the pending fragment
  is consumed and its sequence number is blocked.
\<close>

theorem radio_delivers_only_whole:
  assumes "reassembler_wf d" and "rns_radio_reassembler_feed log_frame frame now d seen = (status, d', seen')"
  shows "seen' = seen \<or>
         (frame ! 0 AND RNS_RADIO_SPLIT_FLAG = 0 \<and> seen' = seen @ [drop 1 frame]) \<or>
         (frame ! 0 AND RNS_RADIO_SPLIT_FLAG \<noteq> 0 \<and> length frame < RNS_RADIO_PHY_MTU \<and> rr_pending d \<and>
          drop_bit 4 (frame ! 0 AND RNS_RADIO_SEQUENCE_MASK) = rr_sequence d \<and>
          (now < rr_pending_since_ms d \<or> now - rr_pending_since_ms d < rr_fragment_timeout_ms d) \<and>
          seen' = seen @ [take 254 (rr_buffer d) @ drop 1 frame] \<and> \<not> rr_pending d' \<and>
          rr_sequence_blocked d' ! unat (rr_sequence d))"
proof -
  let ?d = "snd (rns_radio_reassembler_expire now d)"
  have same: "?d = d \<and> (now < rr_pending_since_ms d \<or> now - rr_pending_since_ms d < rr_fragment_timeout_ms d)"
    if "rr_pending ?d"
    using that by (auto simp: rns_radio_reassembler_expire_def Let_def split: if_splits)
  have wf: "length (rr_buffer d) = rr_capacity d" "rr_pending d \<Longrightarrow> rr_length d = 254"
    "length (rr_sequence_blocked d) = 16" "unat (rr_sequence d) < 16"
    using assms(1) by (auto simp: reassembler_wf_def split: if_splits)
  show ?thesis
  proof (cases "frame ! 0 AND RNS_RADIO_SPLIT_FLAG = 0")
    case True
    then show ?thesis
      using assms(2) radio_feed_whole_log [of "drop 1 frame" now ?d seen status d' seen']
      by (auto simp: rns_radio_reassembler_feed_def Let_def split: if_splits)
  next
    case False
    let ?s = "drop_bit 4 (frame ! 0 AND RNS_RADIO_SEQUENCE_MASK)"
    consider "seen' = seen" | (second) "length frame < RNS_RADIO_PHY_MTU"
      "radio_feed_second log_frame (drop 1 frame) ?s now ?d seen = (status, d', seen')"
      using assms(2) False
      by (auto simp: rns_radio_reassembler_feed_def Let_def split: if_splits prod.splits)
    then show ?thesis
    proof cases
      case second
      have "reassembler_wf ?d" using assms(1) by (rule expire_wf)
      then have "length (rr_buffer ?d) = rr_capacity ?d" "rr_length ?d \<le> rr_capacity ?d"
        "length (rr_sequence_blocked ?d) = 16"
        by (auto simp: reassembler_wf_def split: if_splits)
      note log = radio_feed_second_log [OF second(2) this sequence_nibble]
      show ?thesis
      proof (cases "seen' = seen")
        case False
        with log have pending: "rr_pending ?d" and rest: "rr_sequence ?d = ?s"
          "seen' = seen @ [take (rr_length ?d) (rr_buffer ?d) @ drop 1 frame]" "\<not> rr_pending d'"
          "rr_sequence_blocked d' ! unat ?s" by blast+
        note d = same [OF pending, THEN conjunct1]
        show ?thesis
          using rest pending same [OF pending, THEN conjunct2] wf(2) second(1) \<open>frame ! 0 AND _ \<noteq> 0\<close>
          unfolding d by simp
      qed blast
    qed blast
  qed
qed

definition sample_pending :: rns_radio_reassembler where
  "sample_pending = sample_reassembler\<lparr>rr_pending := True, rr_sequence := 3, rr_length := 254,
     rr_pending_since_ms := 5, rr_buffer := replicate 254 7 @ replicate 246 0\<rparr>"

theorem radio_delivers_only_whole_witness:
  "snd (snd (rns_radio_reassembler_feed log_frame [0x31, 1] 10 sample_reassembler [])) = [] \<and>
   snd (snd (rns_radio_reassembler_feed log_frame [0x31, 1] 10 sample_pending [])) = [replicate 254 7 @ [1]] \<and>
   \<not> rr_pending (fst (snd (rns_radio_reassembler_feed log_frame [0x31, 1] 10 sample_pending [])))"
proof -
  obtain status d' seen' where one:
    "rns_radio_reassembler_feed log_frame [0x31, 1] 10 sample_reassembler [] = (status, d', seen')"
    by (metis prod_cases3)
  obtain status2 d2 seen2 where two:
    "rns_radio_reassembler_feed log_frame [0x31, 1] 10 sample_pending [] = (status2, d2, seen2)"
    by (metis prod_cases3)
  have "reassembler_wf sample_reassembler" "\<not> rr_pending sample_reassembler" "reassembler_wf sample_pending"
    by (simp_all add: sample_pending_def sample_reassembler_def rns_radio_reassembler_init_def reassembler_wf_def)
  moreover have "seen2 \<noteq> []"
    using two by (auto simp: rns_radio_reassembler_feed_def rns_radio_reassembler_expire_def radio_feed_second_def
        sample_pending_def sample_reassembler_def rns_radio_reassembler_init_def sequence_is_blocked_def Let_def
        split: if_splits)
  moreover have "take 254 (rr_buffer sample_pending) = replicate 254 7" by (simp add: sample_pending_def)
  ultimately show ?thesis
    using radio_delivers_only_whole [OF _ one] radio_delivers_only_whole [OF _ two] one two by auto
qed

end
