(* ===== verification/Transport.thy ===== *)
theory Transport
  imports Identity
begin

text \<open>
  The routing tables of \<^verbatim>\<open>src/transport/transport.c\<close>: paths learnt from announces, the
  packet-hash filter, the one-shot reverse table for proofs, the link table, the transactions that
  undo one table mutation, and the path request format.

  A table is the list of its slots, occupied or not, as long as its capacity; the empty list stands
  for a null table pointer (after \<^verbatim>\<open>rns_transport_free\<close>). The clock callback is the reading
  \<open>now\<close> it returns; an operation that reads the clock twice takes two readings. Deadlines are
  doubles computed with a rounding function \<open>rnd\<close>. An operation that hands out a pointer into a
  table returns the index of the slot.
\<close>

section \<open>Data\<close>

datatype rns_path_result = RNS_PATH_REJECTED | RNS_PATH_INSERTED | RNS_PATH_UPDATED

datatype rns_reverse_result = RNS_REVERSE_MISSING | RNS_REVERSE_MATCHED | RNS_REVERSE_WRONG_INTERFACE

datatype rns_link_route_result =
    RNS_LINK_ROUTE_MISSING
  | RNS_LINK_ROUTE_MATCHED
  | RNS_LINK_ROUTE_WRONG_INTERFACE
  | RNS_LINK_ROUTE_WRONG_HOPS
  | RNS_LINK_ROUTE_NOT_VALIDATED
  | RNS_LINK_ROUTE_INVALID_PROOF

record rns_transport_config =
  cfg_path_capacity :: nat
  cfg_dedupe_capacity :: nat
  cfg_reverse_capacity :: nat
  cfg_link_capacity :: nat
  cfg_random_blob_history :: nat
  cfg_path_lifetime :: double
  cfg_dedupe_lifetime :: double
  cfg_reverse_lifetime :: double
  cfg_link_lifetime :: double
  cfg_link_proof_timeout_per_hop :: double

text \<open>The used blobs of a path entry: \<^verbatim>\<open>random_blobs\<close> cut to \<^verbatim>\<open>random_blob_count\<close>.\<close>

record rns_path_entry =
  pe_destination_hash :: bytes
  pe_next_hop :: bytes
  pe_announce_packet_hash :: bytes
  pe_identity_public_key :: bytes
  pe_random_blobs :: "bytes list"
  pe_announce_timebase :: u64
  pe_interface_id :: u64
  pe_interface_gravity :: int
  pe_hops :: byte
  pe_has_identity :: bool
  pe_unresponsive :: bool
  pe_updated_at :: double
  pe_expires_at :: double
  pe_occupied :: bool

record rns_dedupe_entry =
  de_packet_hash :: bytes
  de_seen_at :: double
  de_expires_at :: double
  de_occupied :: bool

record rns_reverse_entry =
  re_packet_hash :: bytes
  re_received_interface_id :: u64
  re_outbound_interface_id :: u64
  re_created_at :: double
  re_expires_at :: double
  re_occupied :: bool

record rns_transport_link_entry =
  le_link_id :: bytes
  le_next_hop :: bytes
  le_destination_hash :: bytes
  le_destination_public_key :: bytes
  le_next_hop_interface_id :: u64
  le_received_interface_id :: u64
  le_remaining_hops :: byte
  le_taken_hops :: byte
  le_validated :: bool
  le_created_at :: double
  le_updated_at :: double
  le_proof_deadline :: double
  le_expires_at :: double
  le_occupied :: bool

datatype rns_transport_transaction =
    RNS_TRANSPORT_TRANSACTION_NONE
  | RNS_TRANSPORT_TRANSACTION_REVERSE nat rns_reverse_entry
  | RNS_TRANSPORT_TRANSACTION_LINK nat rns_transport_link_entry

record rns_path_request =
  prq_destination_hash :: bytes
  prq_requesting_transport :: "bytes option"
  prq_tag :: bytes

record rns_transport =
  tr_config :: rns_transport_config
  tr_paths :: "rns_path_entry list"
  tr_dedupe :: "rns_dedupe_entry list"
  tr_reverse_paths :: "rns_reverse_entry list"
  tr_links :: "rns_transport_link_entry list"

text \<open>Cleared slots, as \<^verbatim>\<open>memset\<close> and \<^verbatim>\<open>calloc\<close> leave them.\<close>

definition zero_path :: rns_path_entry where
  "zero_path =
     \<lparr>pe_destination_hash = replicate 16 0, pe_next_hop = replicate 16 0,
      pe_announce_packet_hash = replicate 32 0, pe_identity_public_key = replicate 64 0,
      pe_random_blobs = [], pe_announce_timebase = 0, pe_interface_id = 0,
      pe_interface_gravity = 0, pe_hops = 0, pe_has_identity = False, pe_unresponsive = False,
      pe_updated_at = Fin 0, pe_expires_at = Fin 0, pe_occupied = False\<rparr>"

definition zero_dedupe :: rns_dedupe_entry where
  "zero_dedupe = \<lparr>de_packet_hash = replicate 32 0, de_seen_at = Fin 0, de_expires_at = Fin 0,
                  de_occupied = False\<rparr>"

definition zero_reverse :: rns_reverse_entry where
  "zero_reverse = \<lparr>re_packet_hash = replicate 16 0, re_received_interface_id = 0,
                   re_outbound_interface_id = 0, re_created_at = Fin 0, re_expires_at = Fin 0,
                   re_occupied = False\<rparr>"

definition zero_link :: rns_transport_link_entry where
  "zero_link =
     \<lparr>le_link_id = replicate 16 0, le_next_hop = replicate 16 0,
      le_destination_hash = replicate 16 0, le_destination_public_key = replicate 64 0,
      le_next_hop_interface_id = 0, le_received_interface_id = 0, le_remaining_hops = 0,
      le_taken_hops = 0, le_validated = False, le_created_at = Fin 0, le_updated_at = Fin 0,
      le_proof_deadline = Fin 0, le_expires_at = Fin 0, le_occupied = False\<rparr>"

section \<open>The loops over a table\<close>

text \<open>
  The four replacement loops: the first free slot, or else the slot with the least time stamp
  (the earliest such slot on a tie).
\<close>

function slot_loop :: "('e \<Rightarrow> bool) \<Rightarrow> ('e \<Rightarrow> double) \<Rightarrow> 'e list \<Rightarrow> nat \<Rightarrow> nat \<Rightarrow> nat" where
  "slot_loop free stamp es i oldest =
     (if i < length es
      then if free (es ! i) then i
           else slot_loop free stamp es (Suc i)
                  (if dlt (stamp (es ! i)) (stamp (es ! oldest)) then i else oldest)
      else oldest)"
  by auto
termination by (relation "measure (\<lambda>(free, stamp, es, i, oldest). length es - i)") auto

declare slot_loop.simps [simp del]

definition live :: "double \<Rightarrow> double \<Rightarrow> bool" where
  "live now deadline \<longleftrightarrow> isfinite now \<and> dlt now deadline"

definition random_blob_timebase :: "bytes \<Rightarrow> u64" where
  "random_blob_timebase blob = be_get (bytes_at 5 5 blob)"

definition allocation_size_ok :: "nat \<Rightarrow> nat \<Rightarrow> bool" where
  "allocation_size_ok n size_of \<longleftrightarrow> n \<noteq> 0 \<and> n \<le> SIZE_MAX div size_of"

section \<open>Initialisation and expiry\<close>

definition transport_defaults :: "rns_transport_config \<Rightarrow> rns_transport_config" where
  "transport_defaults config =
     (let c1 = (if cfg_link_capacity config = 0 then config\<lparr>cfg_link_capacity := 64\<rparr> else config);
          c2 = (if cfg_link_lifetime c1 = Fin 0 then c1\<lparr>cfg_link_lifetime := Fin 900\<rparr> else c1)
      in if cfg_link_proof_timeout_per_hop c2 = Fin 0
         then c2\<lparr>cfg_link_proof_timeout_per_hop := Fin 6\<rparr> else c2)"

definition rns_transport_init :: "rns_transport_config \<Rightarrow> rns_transport option" where
  "rns_transport_init config =
     (if \<not> allocation_size_ok (cfg_path_capacity config) 352 \<or>
         \<not> allocation_size_ok (cfg_dedupe_capacity config) 56 \<or>
         \<not> allocation_size_ok (cfg_reverse_capacity config) 56 \<or>
         cfg_random_blob_history config = 0 \<or> cfg_random_blob_history config > 16 \<or>
         \<not> isfinite (cfg_path_lifetime config) \<or> dle (cfg_path_lifetime config) (Fin 0) \<or>
         \<not> isfinite (cfg_dedupe_lifetime config) \<or> dle (cfg_dedupe_lifetime config) (Fin 0) \<or>
         \<not> isfinite (cfg_reverse_lifetime config) \<or> dle (cfg_reverse_lifetime config) (Fin 0)
      then None
      else let c3 = transport_defaults config
           in if \<not> allocation_size_ok (cfg_link_capacity c3) 176 \<or>
                 \<not> isfinite (cfg_link_lifetime c3) \<or> dle (cfg_link_lifetime c3) (Fin 0) \<or>
                 \<not> isfinite (cfg_link_proof_timeout_per_hop c3) \<or>
                 dle (cfg_link_proof_timeout_per_hop c3) (Fin 0) then None
              else Some \<lparr>tr_config = c3,
                         tr_paths = replicate (cfg_path_capacity c3) zero_path,
                         tr_dedupe = replicate (cfg_dedupe_capacity c3) zero_dedupe,
                         tr_reverse_paths = replicate (cfg_reverse_capacity c3) zero_reverse,
                         tr_links = replicate (cfg_link_capacity c3) zero_link\<rparr>)"

definition rns_transport_free :: "rns_transport \<Rightarrow> rns_transport" where
  "rns_transport_free t =
     \<lparr>tr_config = \<lparr>cfg_path_capacity = 0, cfg_dedupe_capacity = 0, cfg_reverse_capacity = 0,
        cfg_link_capacity = 0, cfg_random_blob_history = 0, cfg_path_lifetime = Fin 0,
        cfg_dedupe_lifetime = Fin 0, cfg_reverse_lifetime = Fin 0, cfg_link_lifetime = Fin 0,
        cfg_link_proof_timeout_per_hop = Fin 0\<rparr>,
      tr_paths = [], tr_dedupe = [], tr_reverse_paths = [], tr_links = []\<rparr>"

definition path_expired :: "double \<Rightarrow> rns_path_entry \<Rightarrow> bool" where
  "path_expired now e \<longleftrightarrow> pe_occupied e \<and> dge now (pe_expires_at e)"

definition dedupe_expired :: "double \<Rightarrow> rns_dedupe_entry \<Rightarrow> bool" where
  "dedupe_expired now e \<longleftrightarrow> de_occupied e \<and> dge now (de_expires_at e)"

definition reverse_expired :: "double \<Rightarrow> rns_reverse_entry \<Rightarrow> bool" where
  "reverse_expired now e \<longleftrightarrow> re_occupied e \<and> dge now (re_expires_at e)"

definition link_deadline :: "rns_transport_link_entry \<Rightarrow> double" where
  "link_deadline e = (if le_validated e then le_expires_at e else le_proof_deadline e)"

definition link_expired :: "double \<Rightarrow> rns_transport_link_entry \<Rightarrow> bool" where
  "link_expired now e \<longleftrightarrow> le_occupied e \<and> dge now (link_deadline e)"

definition rns_transport_expire :: "double \<Rightarrow> rns_transport \<Rightarrow> nat \<times> rns_transport" where
  "rns_transport_expire now t =
     (if \<not> isfinite now then (0, t)
      else (length (filter (path_expired now) (tr_paths t)) +
            length (filter (dedupe_expired now) (tr_dedupe t)) +
            length (filter (reverse_expired now) (tr_reverse_paths t)) +
            length (filter (link_expired now) (tr_links t)),
            t\<lparr>tr_paths := map (\<lambda>e. if path_expired now e then zero_path else e) (tr_paths t),
              tr_dedupe := map (\<lambda>e. if dedupe_expired now e then zero_dedupe else e) (tr_dedupe t),
              tr_reverse_paths :=
                map (\<lambda>e. if reverse_expired now e then zero_reverse else e) (tr_reverse_paths t),
              tr_links := map (\<lambda>e. if link_expired now e then zero_link else e) (tr_links t)\<rparr>))"

section \<open>Paths\<close>

definition path_for :: "bytes \<Rightarrow> rns_path_entry \<Rightarrow> bool" where
  "path_for destination_hash e \<longleftrightarrow> pe_occupied e \<and> pe_destination_hash e = destination_hash"

definition rns_transport_lookup ::
  "bytes \<Rightarrow> double \<Rightarrow> rns_transport \<Rightarrow> nat option \<times> rns_transport" where
  "rns_transport_lookup destination_hash now t =
     (if \<not> isfinite now then (None, t)
      else case first_index (path_for destination_hash) (tr_paths t) of
             None \<Rightarrow> (None, t)
           | Some i \<Rightarrow>
               if \<not> live now (pe_expires_at (tr_paths t ! i))
               then (None, t\<lparr>tr_paths := (tr_paths t)[i := zero_path]\<rparr>)
               else (Some i, t))"

definition rns_transport_mark_unresponsive ::
  "bytes \<Rightarrow> double \<Rightarrow> rns_transport \<Rightarrow> bool \<times> rns_transport" where
  "rns_transport_mark_unresponsive destination_hash now t =
     (case rns_transport_lookup destination_hash now t of
        (None, t') \<Rightarrow> (False, t')
      | (Some i, t') \<Rightarrow>
          (True, t'\<lparr>tr_paths := (tr_paths t')[i := (tr_paths t' ! i)\<lparr>pe_unresponsive := True\<rparr>]\<rparr>))"

definition path_heard_blob :: "bytes \<Rightarrow> rns_path_entry \<Rightarrow> bool" where
  "path_heard_blob blob e \<longleftrightarrow> blob \<in> set (pe_random_blobs e)"

definition path_add_blob :: "bytes \<Rightarrow> nat \<Rightarrow> rns_path_entry \<Rightarrow> rns_path_entry" where
  "path_add_blob blob history e =
     (if path_heard_blob blob e then e
      else if length (pe_random_blobs e) < history
      then e\<lparr>pe_random_blobs := pe_random_blobs e @ [blob]\<rparr>
      else e\<lparr>pe_random_blobs := take (history - 1) (drop 1 (pe_random_blobs e)) @ [blob]\<rparr>)"

definition path_replacement_slot :: "rns_transport \<Rightarrow> nat" where
  "path_replacement_slot t =
     slot_loop (\<lambda>e. \<not> pe_occupied e) pe_updated_at (tr_paths t) 0 0"

text \<open>The rule that decides about an announce for a path that is already known and live.\<close>

definition announce_rejected :: "rns_path_entry \<Rightarrow> int \<Rightarrow> bytes \<Rightarrow> bool" where
  "announce_rejected e interface_gravity random_blob \<longleftrightarrow>
     (let timebase = random_blob_timebase random_blob;
          heard = path_heard_blob random_blob e;
          higher_gravity = interface_gravity > pe_interface_gravity e
      in (\<not> pe_unresponsive e \<and> timebase < pe_announce_timebase e) \<or>
         (\<not> pe_unresponsive e \<and> timebase = pe_announce_timebase e \<and> \<not> higher_gravity) \<or>
         (\<not> pe_unresponsive e \<and> heard \<and> \<not> higher_gravity))"

definition announced_path ::
  "rounding \<Rightarrow> rns_transport_config \<Rightarrow> bytes \<Rightarrow> bytes \<Rightarrow> u64 \<Rightarrow> int \<Rightarrow> byte \<Rightarrow> bytes \<Rightarrow> bytes \<Rightarrow>
     double \<Rightarrow> bytes list \<Rightarrow> rns_path_entry" where
  "announced_path rnd config destination_hash next_hop interface_id interface_gravity hops
       random_blob packet_hash now old_blobs =
     (path_add_blob random_blob (cfg_random_blob_history config)
        (zero_path\<lparr>pe_destination_hash := destination_hash, pe_next_hop := next_hop,
                   pe_announce_packet_hash := packet_hash, pe_random_blobs := old_blobs\<rparr>))
       \<lparr>pe_announce_timebase := random_blob_timebase random_blob, pe_interface_id := interface_id,
        pe_interface_gravity := interface_gravity, pe_hops := hops, pe_updated_at := now,
        pe_expires_at := dadd rnd now (cfg_path_lifetime config), pe_occupied := True\<rparr>"

definition rns_transport_consider_announce ::
  "rounding \<Rightarrow> bytes \<Rightarrow> bytes \<Rightarrow> u64 \<Rightarrow> int \<Rightarrow> byte \<Rightarrow> bytes \<Rightarrow> bytes \<Rightarrow> double \<Rightarrow> rns_transport \<Rightarrow>
     rns_path_result \<times> rns_transport" where
  "rns_transport_consider_announce rnd destination_hash next_hop interface_id interface_gravity hops
       random_blob packet_hash now t =
     (if tr_paths t = [] \<or> \<not> isfinite now then (RNS_PATH_REJECTED, t)
      else let store = (\<lambda>result slot old_blobs.
                 (result,
                  t\<lparr>tr_paths := (tr_paths t)[slot :=
                      announced_path rnd (tr_config t) destination_hash next_hop interface_id
                        interface_gravity hops random_blob packet_hash now old_blobs]\<rparr>))
           in case first_index (path_for destination_hash) (tr_paths t) of
                Some i \<Rightarrow>
                  let e = tr_paths t ! i
                  in if \<not> dge now (pe_expires_at e)
                     then if announce_rejected e interface_gravity random_blob
                          then (RNS_PATH_REJECTED, t)
                          else store RNS_PATH_UPDATED i (pe_random_blobs e)
                     else store RNS_PATH_UPDATED i []
              | None \<Rightarrow> store RNS_PATH_INSERTED (path_replacement_slot t) [])"

definition rns_transport_set_path_identity ::
  "bytes \<Rightarrow> bytes option \<Rightarrow> double \<Rightarrow> rns_transport \<Rightarrow> bool \<times> rns_transport" where
  "rns_transport_set_path_identity destination_hash public_key now t =
     (case rns_transport_lookup destination_hash now t of
        (None, t') \<Rightarrow> (False, t')
      | (Some i, t') \<Rightarrow>
          (case public_key of
             None \<Rightarrow> (False, t')
           | Some key \<Rightarrow>
               (True, t'\<lparr>tr_paths := (tr_paths t')[i :=
                   (tr_paths t' ! i)\<lparr>pe_identity_public_key := key, pe_has_identity := True\<rparr>]\<rparr>)))"

section \<open>The packet-hash filter\<close>

definition oldest_dedupe_slot :: "rns_dedupe_entry list \<Rightarrow> nat" where
  "oldest_dedupe_slot es = slot_loop (\<lambda>e. \<not> de_occupied e) de_seen_at es 0 0"

text \<open>
  The scan clears the expired entries it passes and stops at a live entry with the hash; it returns
  whether it got to the end, and the entries.
\<close>

fun dedupe_scan :: "double \<Rightarrow> bytes \<Rightarrow> rns_dedupe_entry list \<Rightarrow> bool \<times> rns_dedupe_entry list" where
  "dedupe_scan now packet_hash [] = (True, [])"
| "dedupe_scan now packet_hash (e # es) =
     (if de_occupied e \<and> dge now (de_expires_at e)
      then case dedupe_scan now packet_hash es of (fresh, es') \<Rightarrow> (fresh, zero_dedupe # es')
      else if de_occupied e \<and> de_packet_hash e = packet_hash then (False, e # es)
      else case dedupe_scan now packet_hash es of (fresh, es') \<Rightarrow> (fresh, e # es'))"

definition rns_transport_accept_packet_hash ::
  "rounding \<Rightarrow> bytes \<Rightarrow> double \<Rightarrow> rns_transport \<Rightarrow> bool \<times> rns_transport" where
  "rns_transport_accept_packet_hash rnd packet_hash now t =
     (if tr_dedupe t = [] \<or> \<not> isfinite now then (False, t)
      else case dedupe_scan now packet_hash (tr_dedupe t) of
             (False, es) \<Rightarrow> (False, t\<lparr>tr_dedupe := es\<rparr>)
           | (True, es) \<Rightarrow>
               (True,
                t\<lparr>tr_dedupe := es[oldest_dedupe_slot es :=
                    \<lparr>de_packet_hash = packet_hash, de_seen_at = now,
                     de_expires_at = dadd rnd now (cfg_dedupe_lifetime (tr_config t)),
                     de_occupied = True\<rparr>]\<rparr>))"

section \<open>Reverse paths\<close>

definition oldest_reverse_slot :: "double \<Rightarrow> rns_reverse_entry list \<Rightarrow> nat" where
  "oldest_reverse_slot now es =
     slot_loop (\<lambda>e. \<not> re_occupied e \<or> dge now (re_expires_at e)) re_created_at es 0 0"

definition rns_transport_record_reverse_transaction ::
  "rounding \<Rightarrow> bytes \<Rightarrow> u64 \<Rightarrow> u64 \<Rightarrow> double \<Rightarrow> rns_transport \<Rightarrow>
     bool \<times> rns_transport \<times> rns_transport_transaction" where
  "rns_transport_record_reverse_transaction rnd packet_hash received_interface_id
       outbound_interface_id now t =
     (if tr_reverse_paths t = [] \<or> \<not> isfinite now
      then (False, t, RNS_TRANSPORT_TRANSACTION_NONE)
      else let slot = oldest_reverse_slot now (tr_reverse_paths t)
           in (True,
               t\<lparr>tr_reverse_paths := (tr_reverse_paths t)[slot :=
                   \<lparr>re_packet_hash = take 16 packet_hash,
                    re_received_interface_id = received_interface_id,
                    re_outbound_interface_id = outbound_interface_id, re_created_at = now,
                    re_expires_at = dadd rnd now (cfg_reverse_lifetime (tr_config t)),
                    re_occupied = True\<rparr>]\<rparr>,
               RNS_TRANSPORT_TRANSACTION_REVERSE slot (tr_reverse_paths t ! slot)))"

definition rns_transport_record_reverse ::
  "rounding \<Rightarrow> bytes \<Rightarrow> u64 \<Rightarrow> u64 \<Rightarrow> double \<Rightarrow> rns_transport \<Rightarrow> bool \<times> rns_transport" where
  "rns_transport_record_reverse rnd packet_hash received_interface_id outbound_interface_id now t =
     (case rns_transport_record_reverse_transaction rnd packet_hash received_interface_id
             outbound_interface_id now t of
        (ok, t', _) \<Rightarrow> (ok, t'))"

definition reverse_for :: "bytes \<Rightarrow> rns_reverse_entry \<Rightarrow> bool" where
  "reverse_for packet_hash e \<longleftrightarrow> re_occupied e \<and> re_packet_hash e = packet_hash"

definition rns_transport_consume_reverse ::
  "bytes \<Rightarrow> u64 \<Rightarrow> double \<Rightarrow> rns_transport \<Rightarrow> rns_reverse_result \<times> u64 \<times> rns_transport" where
  "rns_transport_consume_reverse packet_hash ingress_interface_id now t =
     (if \<not> isfinite now then (RNS_REVERSE_MISSING, 0, t)
      else case first_index (reverse_for packet_hash) (tr_reverse_paths t) of
             None \<Rightarrow> (RNS_REVERSE_MISSING, 0, t)
           | Some i \<Rightarrow>
               let e = tr_reverse_paths t ! i;
                   t' = t\<lparr>tr_reverse_paths := (tr_reverse_paths t)[i := zero_reverse]\<rparr>
               in if dge now (re_expires_at e) then (RNS_REVERSE_MISSING, 0, t')
                  else if ingress_interface_id \<noteq> re_outbound_interface_id e
                  then (RNS_REVERSE_WRONG_INTERFACE, 0, t')
                  else (RNS_REVERSE_MATCHED, re_received_interface_id e, t'))"

section \<open>Links\<close>

definition oldest_link_slot :: "double \<Rightarrow> rns_transport_link_entry list \<Rightarrow> nat" where
  "oldest_link_slot now es =
     slot_loop (\<lambda>e. \<not> le_occupied e \<or> dge now (link_deadline e)) le_created_at es 0 0"

definition rns_transport_record_link_request_transaction ::
  "rounding \<Rightarrow> bytes \<Rightarrow> rns_path_entry \<Rightarrow> u64 \<Rightarrow> byte \<Rightarrow> double \<Rightarrow> rns_transport \<Rightarrow>
     bool \<times> rns_transport \<times> rns_transport_transaction" where
  "rns_transport_record_link_request_transaction rnd link_id path received_interface_id taken_hops
       now t =
     (let interval = dmul_nonneg rnd (of_nat (unat (pe_hops path)))
                       (cfg_link_proof_timeout_per_hop (tr_config t))
      in if \<not> pe_occupied path \<or> \<not> pe_has_identity path \<or> tr_links t = [] \<or> \<not> isfinite now \<or>
            \<not> isfinite interval
         then (False, t, RNS_TRANSPORT_TRANSACTION_NONE)
         else let slot = oldest_link_slot now (tr_links t)
              in (True,
                  t\<lparr>tr_links := (tr_links t)[slot :=
                      \<lparr>le_link_id = link_id, le_next_hop = pe_next_hop path,
                       le_destination_hash = pe_destination_hash path,
                       le_destination_public_key = pe_identity_public_key path,
                       le_next_hop_interface_id = pe_interface_id path,
                       le_received_interface_id = received_interface_id,
                       le_remaining_hops = pe_hops path, le_taken_hops = taken_hops,
                       le_validated = False, le_created_at = now, le_updated_at = now,
                       le_proof_deadline = dadd rnd now interval, le_expires_at = Fin 0,
                       le_occupied = True\<rparr>]\<rparr>,
                  RNS_TRANSPORT_TRANSACTION_LINK slot (tr_links t ! slot)))"

definition rns_transport_record_link_request ::
  "rounding \<Rightarrow> bytes \<Rightarrow> rns_path_entry \<Rightarrow> u64 \<Rightarrow> byte \<Rightarrow> double \<Rightarrow> rns_transport \<Rightarrow>
     bool \<times> rns_transport" where
  "rns_transport_record_link_request rnd link_id path received_interface_id taken_hops now t =
     (case rns_transport_record_link_request_transaction rnd link_id path received_interface_id
             taken_hops now t of
        (ok, t', _) \<Rightarrow> (ok, t'))"

definition link_for :: "bytes \<Rightarrow> rns_transport_link_entry \<Rightarrow> bool" where
  "link_for link_id e \<longleftrightarrow> le_occupied e \<and> le_link_id e = link_id"

definition rns_transport_link_lookup ::
  "bytes \<Rightarrow> double \<Rightarrow> rns_transport \<Rightarrow> nat option \<times> rns_transport" where
  "rns_transport_link_lookup link_id now t =
     (if \<not> isfinite now then (None, t)
      else case first_index (link_for link_id) (tr_links t) of
             None \<Rightarrow> (None, t)
           | Some i \<Rightarrow>
               if dge now (link_deadline (tr_links t ! i))
               then (None, t\<lparr>tr_links := (tr_links t)[i := zero_link]\<rparr>)
               else (Some i, t))"

definition link_proof_preimage :: "rns_transport_link_entry \<Rightarrow> bytes \<Rightarrow> bytes" where
  "link_proof_preimage e pr =
     take 16 (le_link_id e) @ bytes_at 64 32 pr @ bytes_at 32 32 (le_destination_public_key e) @
     bytes_at 96 3 pr"

definition rns_transport_accept_link_proof_transaction ::
  "'r rns_crypto_provider option \<Rightarrow> rounding \<Rightarrow> bytes \<Rightarrow> bytes \<Rightarrow> u64 \<Rightarrow> byte \<Rightarrow> double \<Rightarrow> double \<Rightarrow>
     rns_transport \<Rightarrow> rns_link_route_result \<times> u64 \<times> rns_transport \<times> rns_transport_transaction" where
  "rns_transport_accept_link_proof_transaction P rnd link_id pr ingress_interface_id proof_hops
       now now' t =
     (case rns_transport_link_lookup link_id now t of
        (None, t') \<Rightarrow> (RNS_LINK_ROUTE_MISSING, 0, t', RNS_TRANSPORT_TRANSACTION_NONE)
      | (Some i, t') \<Rightarrow>
          let e = tr_links t' ! i;
              failed = (\<lambda>result. (result, 0, t', RNS_TRANSPORT_TRANSACTION_NONE))
          in if le_validated e then failed RNS_LINK_ROUTE_INVALID_PROOF
             else if ingress_interface_id \<noteq> le_next_hop_interface_id e
             then failed RNS_LINK_ROUTE_WRONG_INTERFACE
             else if proof_hops \<noteq> le_remaining_hops e then failed RNS_LINK_ROUTE_WRONG_HOPS
             else if length pr \<noteq> 99 then failed RNS_LINK_ROUTE_INVALID_PROOF
             else (case rns_identity_from_public P (le_destination_public_key e) of
                     None \<Rightarrow> failed RNS_LINK_ROUTE_INVALID_PROOF
                   | Some identity \<Rightarrow>
                       if \<not> rns_identity_verify P identity (link_proof_preimage e pr) (take 64 pr)
                       then failed RNS_LINK_ROUTE_INVALID_PROOF
                       else if \<not> isfinite now' then failed RNS_LINK_ROUTE_INVALID_PROOF
                       else (RNS_LINK_ROUTE_MATCHED, le_received_interface_id e,
                             t'\<lparr>tr_links := (tr_links t')[i :=
                                 e\<lparr>le_validated := True, le_updated_at := now',
                                   le_expires_at :=
                                     dadd rnd now' (cfg_link_lifetime (tr_config t'))\<rparr>]\<rparr>,
                             RNS_TRANSPORT_TRANSACTION_LINK i e)))"

definition rns_transport_accept_link_proof ::
  "'r rns_crypto_provider option \<Rightarrow> rounding \<Rightarrow> bytes \<Rightarrow> bytes \<Rightarrow> u64 \<Rightarrow> byte \<Rightarrow> double \<Rightarrow> double \<Rightarrow>
     rns_transport \<Rightarrow> rns_link_route_result \<times> u64 \<times> rns_transport" where
  "rns_transport_accept_link_proof P rnd link_id pr ingress_interface_id proof_hops now now' t =
     (case rns_transport_accept_link_proof_transaction P rnd link_id pr ingress_interface_id
             proof_hops now now' t of
        (result, forward, t', _) \<Rightarrow> (result, forward, t'))"

definition rns_transport_route_link_transaction ::
  "bytes \<Rightarrow> u64 \<Rightarrow> byte \<Rightarrow> double \<Rightarrow> double \<Rightarrow> rns_transport \<Rightarrow>
     rns_link_route_result \<times> u64 \<times> rns_transport \<times> rns_transport_transaction" where
  "rns_transport_route_link_transaction link_id ingress_interface_id packet_hops now now' t =
     (case rns_transport_link_lookup link_id now t of
        (None, t') \<Rightarrow> (RNS_LINK_ROUTE_MISSING, 0, t', RNS_TRANSPORT_TRANSACTION_NONE)
      | (Some i, t') \<Rightarrow>
          let e = tr_links t' ! i;
              failed = (\<lambda>result. (result, 0, t', RNS_TRANSPORT_TRANSACTION_NONE));
              routed = (\<lambda>expected forward.
                if packet_hops \<noteq> expected then failed RNS_LINK_ROUTE_WRONG_HOPS
                else (RNS_LINK_ROUTE_MATCHED, forward,
                      t'\<lparr>tr_links := (tr_links t')[i := e\<lparr>le_updated_at := now'\<rparr>]\<rparr>,
                      RNS_TRANSPORT_TRANSACTION_LINK i e))
          in if \<not> le_validated e then failed RNS_LINK_ROUTE_NOT_VALIDATED
             else if ingress_interface_id = le_received_interface_id e
             then routed (le_taken_hops e) (le_next_hop_interface_id e)
             else if ingress_interface_id = le_next_hop_interface_id e
             then routed (le_remaining_hops e) (le_received_interface_id e)
             else failed RNS_LINK_ROUTE_WRONG_INTERFACE)"

definition rns_transport_route_link ::
  "bytes \<Rightarrow> u64 \<Rightarrow> byte \<Rightarrow> double \<Rightarrow> double \<Rightarrow> rns_transport \<Rightarrow>
     rns_link_route_result \<times> u64 \<times> rns_transport" where
  "rns_transport_route_link link_id ingress_interface_id packet_hops now now' t =
     (case rns_transport_route_link_transaction link_id ingress_interface_id packet_hops now now' t of
        (result, forward, t', _) \<Rightarrow> (result, forward, t'))"

definition rns_transport_forget_link :: "bytes \<Rightarrow> double \<Rightarrow> rns_transport \<Rightarrow> bool \<times> rns_transport" where
  "rns_transport_forget_link link_id now t =
     (case rns_transport_link_lookup link_id now t of
        (None, t') \<Rightarrow> (False, t')
      | (Some i, t') \<Rightarrow> (True, t'\<lparr>tr_links := (tr_links t')[i := zero_link]\<rparr>))"

section \<open>Transactions\<close>

definition rns_transport_transaction_rollback ::
  "rns_transport_transaction \<Rightarrow> rns_transport \<Rightarrow> bool \<times> rns_transport \<times> rns_transport_transaction" where
  "rns_transport_transaction_rollback transaction t =
     (case transaction of
        RNS_TRANSPORT_TRANSACTION_REVERSE slot previous \<Rightarrow>
          if tr_reverse_paths t = [] \<or> slot \<ge> cfg_reverse_capacity (tr_config t)
          then (False, t, transaction)
          else (True, t\<lparr>tr_reverse_paths := (tr_reverse_paths t)[slot := previous]\<rparr>,
                RNS_TRANSPORT_TRANSACTION_NONE)
      | RNS_TRANSPORT_TRANSACTION_LINK slot previous \<Rightarrow>
          if tr_links t = [] \<or> slot \<ge> cfg_link_capacity (tr_config t)
          then (False, t, transaction)
          else (True, t\<lparr>tr_links := (tr_links t)[slot := previous]\<rparr>,
                RNS_TRANSPORT_TRANSACTION_NONE)
      | RNS_TRANSPORT_TRANSACTION_NONE \<Rightarrow> (True, t, transaction))"

definition rns_transport_transaction_commit ::
  "rns_transport_transaction \<Rightarrow> rns_transport_transaction" where
  "rns_transport_transaction_commit transaction = RNS_TRANSPORT_TRANSACTION_NONE"

section \<open>Path requests\<close>

definition rns_path_request_build ::
  "bytes \<Rightarrow> bytes option \<Rightarrow> bytes \<Rightarrow> nat \<Rightarrow> bytes option" where
  "rns_path_request_build destination_hash requesting_transport tag output_capacity =
     (if length tag = 0 \<or> length tag > 16 then None
      else let required = 16 + length tag + (if requesting_transport = None then 0 else 16)
           in if output_capacity < required then None
              else Some (destination_hash @
                         (case requesting_transport of None \<Rightarrow> [] | Some h \<Rightarrow> h) @ tag))"

definition rns_path_request_parse :: "bytes \<Rightarrow> rns_path_request option" where
  "rns_path_request_parse input =
     (if length input < 17 \<or> length input > 48 then None
      else let has_transport = length input \<ge> 33; offset = (if has_transport then 32 else 16);
               tag_length = length input - offset
           in if tag_length = 0 \<or> tag_length > 16 then None
              else Some \<lparr>prq_destination_hash = take 16 input,
                         prq_requesting_transport =
                           (if has_transport then Some (bytes_at 16 16 input) else None),
                         prq_tag = drop offset input\<rparr>)"

end
