(* ===== verification/Transport_Tables.thy ===== *)
theory Transport_Tables
  imports Transport
begin

text \<open>
  The correctness of the routing tables: the replacement loops, the contract of a table
  with replacement as a locale interpreted for the four tables, the invariant of the whole state,
  and the properties of paths, the packet-hash filter, reverse paths, links and transactions.
\<close>

section \<open>Replacement\<close>

lemma slot_loop_bound:
  "oldest < length es \<Longrightarrow> slot_loop free stamp es i oldest < length es"
proof (induction free stamp es i oldest rule: slot_loop.induct)
  case (1 free stamp es i oldest)
  then show ?case by (subst slot_loop.simps) auto
qed

lemma slot_loop_free:
  "i \<le> j \<Longrightarrow> j < length es \<Longrightarrow> free (es ! j) \<Longrightarrow> free (es ! slot_loop free stamp es i oldest)"
proof (induction free stamp es i oldest rule: slot_loop.induct)
  case (1 free stamp es i oldest)
  show ?case
  proof (cases "free (es ! i)")
    case True
    with "1.prems" show ?thesis by (subst slot_loop.simps) auto
  next
    case False
    with "1.prems" have "Suc i \<le> j" by (cases "i = j") auto
    with False "1.prems" "1.IH" show ?thesis by (subst slot_loop.simps) auto
  qed
qed

lemma slot_loop_oldest:
  assumes "\<forall>e \<in> set es. isfinite (stamp e)" "\<forall>e \<in> set es. \<not> free e"
    and "oldest < length es" "i \<le> length es"
    and "\<forall>j < i. \<not> dlt (stamp (es ! j)) (stamp (es ! oldest))"
  shows "\<forall>j < length es. \<not> dlt (stamp (es ! j)) (stamp (es ! slot_loop free stamp es i oldest))"
  using assms
proof (induction free stamp es i oldest rule: slot_loop.induct)
  case (1 free stamp es i oldest)
  show ?case
  proof (cases "i < length es")
    case True
    let ?new = "if dlt (stamp (es ! i)) (stamp (es ! oldest)) then i else oldest"
    have "\<forall>j < Suc i. \<not> dlt (stamp (es ! j)) (stamp (es ! ?new))"
      using "1.prems"(5) by (auto simp: less_Suc_eq intro: dlt_trans)
    moreover have "\<not> free (es ! i)" using True "1.prems"(2) by auto
    ultimately have "\<forall>j < length es. \<not> dlt (stamp (es ! j))
        (stamp (es ! slot_loop free stamp es (Suc i) ?new))"
      using True "1.prems" by (intro "1.IH") auto
    with True \<open>\<not> free (es ! i)\<close> show ?thesis by (subst slot_loop.simps) auto
  next
    case False
    with "1.prems" show ?thesis by (subst slot_loop.simps) auto
  qed
qed

text \<open>
  The contract of a table with replacement: a slot is chosen within the table, and a free one if
  there is any. An insertion then stores the entry, and loses no entry that is not free unless the
  table has no free slot left.
\<close>

locale replacement_table =
  fixes free :: "'e \<Rightarrow> bool" and slot :: "'e list \<Rightarrow> nat"
  assumes slot_bound: "es \<noteq> [] \<Longrightarrow> slot es < length es"
    and slot_free: "e \<in> set es \<Longrightarrow> free e \<Longrightarrow> free (es ! slot es)"
begin

lemma insert_present: "es \<noteq> [] \<Longrightarrow> x \<in> set (es[slot es := x])"
  by (simp add: slot_bound set_update_memI)

lemma insert_at: "es \<noteq> [] \<Longrightarrow> es[slot es := x] ! slot es = x"
  by (simp add: slot_bound)

lemma insert_keeps:
  assumes "f \<in> set es" "free f" "i < length es" "\<not> free (es ! i)"
  shows "es[slot es := x] ! i = es ! i"
  using slot_free [OF assms(1,2)] assms(4) by (metis nth_list_update_neq)

end

lemma slot_loop_table: "replacement_table free (\<lambda>es. slot_loop free stamp es 0 0)"
proof
  show "slot_loop free stamp es 0 0 < length es" if "es \<noteq> []" for es
    using that by (intro slot_loop_bound) simp
  show "free (es ! slot_loop free stamp es 0 0)" if "e \<in> set es" "free e" for e es
    using that by (auto simp: in_set_conv_nth intro: slot_loop_free [of 0])
qed

interpretation path_table: replacement_table "\<lambda>e. \<not> pe_occupied e"
  "\<lambda>es. slot_loop (\<lambda>e. \<not> pe_occupied e) pe_updated_at es 0 0"
  by (rule slot_loop_table)

interpretation dedupe_table: replacement_table "\<lambda>e. \<not> de_occupied e" oldest_dedupe_slot
  unfolding oldest_dedupe_slot_def [abs_def] by (rule slot_loop_table)

interpretation reverse_table: replacement_table "\<lambda>e. \<not> re_occupied e \<or> dge now (re_expires_at e)"
  "oldest_reverse_slot now" for now
  unfolding oldest_reverse_slot_def [abs_def] by (rule slot_loop_table)

interpretation link_table: replacement_table "\<lambda>e. \<not> le_occupied e \<or> dge now (link_deadline e)"
  "oldest_link_slot now" for now
  unfolding oldest_link_slot_def [abs_def] by (rule slot_loop_table)

section \<open>The invariant\<close>

definition path_wf :: "nat \<Rightarrow> rns_path_entry \<Rightarrow> bool" where
  "path_wf history e \<longleftrightarrow>
     length (pe_random_blobs e) \<le> history \<and> distinct (pe_random_blobs e) \<and> isfinite (pe_updated_at e)"

definition transport_wf :: "rns_transport \<Rightarrow> bool" where
  "transport_wf t \<longleftrightarrow>
     length (tr_paths t) = cfg_path_capacity (tr_config t) \<and>
     length (tr_dedupe t) = cfg_dedupe_capacity (tr_config t) \<and>
     length (tr_reverse_paths t) = cfg_reverse_capacity (tr_config t) \<and>
     length (tr_links t) = cfg_link_capacity (tr_config t) \<and>
     tr_paths t \<noteq> [] \<and> tr_dedupe t \<noteq> [] \<and> tr_reverse_paths t \<noteq> [] \<and> tr_links t \<noteq> [] \<and>
     0 < cfg_random_blob_history (tr_config t) \<and> cfg_random_blob_history (tr_config t) \<le> 16 \<and>
     distinct_keys pe_occupied pe_destination_hash (tr_paths t) \<and>
     (\<forall>e \<in> set (tr_paths t). path_wf (cfg_random_blob_history (tr_config t)) e) \<and>
     distinct_keys de_occupied de_packet_hash (tr_dedupe t) \<and>
     (\<forall>e \<in> set (tr_dedupe t). isfinite (de_seen_at e))"

lemma path_wf_zero: "0 < history \<Longrightarrow> path_wf history zero_path"
  by (simp add: path_wf_def zero_path_def)

lemma zero_unoccupied [simp]:
  "\<not> pe_occupied zero_path" "\<not> de_occupied zero_dedupe" "\<not> re_occupied zero_reverse"
  "\<not> le_occupied zero_link" "isfinite (de_seen_at zero_dedupe)"
  by (simp_all add: zero_path_def zero_dedupe_def zero_reverse_def zero_link_def)

lemma transport_wf_paths:
  assumes "transport_wf t" "path_wf (cfg_random_blob_history (tr_config t)) x"
    and "\<And>j. j < length (tr_paths t) \<Longrightarrow> j \<noteq> i \<Longrightarrow> pe_occupied (tr_paths t ! j) \<Longrightarrow> pe_occupied x \<Longrightarrow>
           pe_destination_hash (tr_paths t ! j) \<noteq> pe_destination_hash x"
  shows "transport_wf (t\<lparr>tr_paths := (tr_paths t)[i := x]\<rparr>)"
  using assms distinct_keys_update [of pe_occupied pe_destination_hash "tr_paths t" i x]
  by (auto simp: transport_wf_def dest!: set_update_subset_insert [THEN subsetD])

lemma transport_wf_reverse: "transport_wf t \<Longrightarrow> transport_wf (t\<lparr>tr_reverse_paths := (tr_reverse_paths t)[i := x]\<rparr>)"
  by (auto simp: transport_wf_def)

lemma transport_wf_links: "transport_wf t \<Longrightarrow> transport_wf (t\<lparr>tr_links := (tr_links t)[i := y]\<rparr>)"
  by (auto simp: transport_wf_def)

lemma transport_defaults_keeps:
  "cfg_path_capacity (transport_defaults c) = cfg_path_capacity c"
  "cfg_dedupe_capacity (transport_defaults c) = cfg_dedupe_capacity c"
  "cfg_reverse_capacity (transport_defaults c) = cfg_reverse_capacity c"
  "cfg_random_blob_history (transport_defaults c) = cfg_random_blob_history c"
  by (simp_all add: transport_defaults_def Let_def)

lemma init_wf:
  assumes "rns_transport_init config = Some t"
  shows "transport_wf t"
proof -
  let ?c = "transport_defaults config"
  have t: "t = \<lparr>tr_config = ?c, tr_paths = replicate (cfg_path_capacity ?c) zero_path,
      tr_dedupe = replicate (cfg_dedupe_capacity ?c) zero_dedupe,
      tr_reverse_paths = replicate (cfg_reverse_capacity ?c) zero_reverse,
      tr_links = replicate (cfg_link_capacity ?c) zero_link\<rparr>"
    using assms unfolding rns_transport_init_def Let_def by (simp split: if_split_asm)
  have "0 < cfg_path_capacity config" "0 < cfg_dedupe_capacity config" "0 < cfg_reverse_capacity config"
    "0 < cfg_link_capacity ?c" "0 < cfg_random_blob_history config" "cfg_random_blob_history config \<le> 16"
    using assms unfolding rns_transport_init_def Let_def allocation_size_ok_def
    by (simp_all split: if_split_asm)
  then show ?thesis
    by (simp add: t transport_wf_def transport_defaults_keeps distinct_keys_def path_wf_zero)
qed

lemma expire_transport_wf:
  assumes "transport_wf t"
  shows "transport_wf (snd (rns_transport_expire now t))"
proof -
  have "distinct_keys pe_occupied pe_destination_hash
      (map (\<lambda>e. if path_expired now e then zero_path else e) (tr_paths t))"
    "distinct_keys de_occupied de_packet_hash
      (map (\<lambda>e. if dedupe_expired now e then zero_dedupe else e) (tr_dedupe t))"
    using assms by (auto intro!: distinct_keys_clear simp: transport_wf_def split: if_splits)
  with assms show ?thesis
    by (auto simp: rns_transport_expire_def transport_wf_def path_wf_zero)
qed

lemma lookup_cases:
  assumes "rns_transport_lookup dest now t = (r, t')"
  obtains "r = None" "t' = t"
  | i where "r = None" "t' = t\<lparr>tr_paths := (tr_paths t)[i := zero_path]\<rparr>" "i < length (tr_paths t)"
      "path_for dest (tr_paths t ! i)" "\<not> live now (pe_expires_at (tr_paths t ! i))"
  | i where "r = Some i" "t' = t" "i < length (tr_paths t)" "path_for dest (tr_paths t ! i)"
      "live now (pe_expires_at (tr_paths t ! i))"
proof (cases "isfinite now")
  case False
  with assms that(1) show thesis by (simp add: rns_transport_lookup_def)
next
  case True
  show thesis
  proof (cases "first_index (path_for dest) (tr_paths t)")
    case None
    with True assms that(1) show thesis by (simp add: rns_transport_lookup_def)
  next
    case (Some i)
    with True assms that(2,3) [of i] first_index_SomeD [OF Some] show thesis
      by (auto simp: rns_transport_lookup_def split: if_splits)
  qed
qed

lemma transport_wf_clear_path:
  assumes "transport_wf t"
  shows "transport_wf (t\<lparr>tr_paths := (tr_paths t)[i := zero_path]\<rparr>)"
proof (rule transport_wf_paths [OF assms])
  show "path_wf (cfg_random_blob_history (tr_config t)) zero_path"
    using assms by (intro path_wf_zero) (simp add: transport_wf_def)
qed simp

lemma lookup_wf: "transport_wf t \<Longrightarrow> rns_transport_lookup dest now t = (r, t') \<Longrightarrow> transport_wf t'"
  by (erule lookup_cases) (simp_all add: transport_wf_clear_path)

lemma lookup_update_wf:
  assumes "transport_wf t" "rns_transport_lookup dest now t = (Some i, t')"
    and "\<And>e. pe_destination_hash (f e) = pe_destination_hash e \<and> pe_random_blobs (f e) = pe_random_blobs e \<and>
             pe_updated_at (f e) = pe_updated_at e"
  shows "transport_wf (t'\<lparr>tr_paths := (tr_paths t')[i := f (tr_paths t' ! i)]\<rparr>)"
proof -
  from assms(2) have t': "t' = t" "i < length (tr_paths t)" "path_for dest (tr_paths t ! i)"
    by (auto elim: lookup_cases)
  have "path_wf (cfg_random_blob_history (tr_config t)) (f (tr_paths t ! i))"
    using assms(1) t'(2) by (auto simp: transport_wf_def path_wf_def assms(3))
  then have "transport_wf (t\<lparr>tr_paths := (tr_paths t)[i := f (tr_paths t ! i)]\<rparr>)"
  proof (rule transport_wf_paths [OF assms(1)])
    fix j
    assume "j < length (tr_paths t)" "j \<noteq> i" "pe_occupied (tr_paths t ! j)"
    moreover have "distinct_keys pe_occupied pe_destination_hash (tr_paths t)"
      using assms(1) by (simp add: transport_wf_def)
    ultimately show "pe_destination_hash (tr_paths t ! j) \<noteq> pe_destination_hash (f (tr_paths t ! i))"
      using t' unfolding distinct_keys_def path_for_def by (metis assms(3))
  qed
  with t' show ?thesis by simp
qed

lemma announced_path_simps [simp]:
  "pe_destination_hash (announced_path rnd cfg dest hop iface gravity hops blob ph now old) = dest"
  "pe_next_hop (announced_path rnd cfg dest hop iface gravity hops blob ph now old) = hop"
  "pe_interface_id (announced_path rnd cfg dest hop iface gravity hops blob ph now old) = iface"
  "pe_interface_gravity (announced_path rnd cfg dest hop iface gravity hops blob ph now old) = gravity"
  "pe_hops (announced_path rnd cfg dest hop iface gravity hops blob ph now old) = hops"
  "pe_announce_timebase (announced_path rnd cfg dest hop iface gravity hops blob ph now old) =
     random_blob_timebase blob"
  "pe_updated_at (announced_path rnd cfg dest hop iface gravity hops blob ph now old) = now"
  "pe_expires_at (announced_path rnd cfg dest hop iface gravity hops blob ph now old) =
     dadd rnd now (cfg_path_lifetime cfg)"
  "pe_occupied (announced_path rnd cfg dest hop iface gravity hops blob ph now old)"
  "\<not> pe_unresponsive (announced_path rnd cfg dest hop iface gravity hops blob ph now old)"
  "\<not> pe_has_identity (announced_path rnd cfg dest hop iface gravity hops blob ph now old)"
  by (auto simp: announced_path_def path_add_blob_def zero_path_def)

lemma announced_path_blobs:
  "pe_random_blobs (announced_path rnd cfg dest hop iface gravity hops blob ph now old) =
     (if blob \<in> set old then old
      else if length old < cfg_random_blob_history cfg then old @ [blob]
      else take (cfg_random_blob_history cfg - 1) (drop 1 old) @ [blob])"
  by (simp add: announced_path_def path_add_blob_def path_heard_blob_def zero_path_def)

lemma announced_path_wf:
  assumes "length old \<le> cfg_random_blob_history cfg" "distinct old" "isfinite now"
    "0 < cfg_random_blob_history cfg"
  shows "path_wf (cfg_random_blob_history cfg)
           (announced_path rnd cfg dest hop iface gravity hops blob ph now old)"
  using assms
  by (auto simp: path_wf_def announced_path_blobs dest!: in_set_takeD in_set_dropD)

lemma consider_announce_cases:
  assumes "rns_transport_consider_announce rnd dest hop iface gravity hops blob ph now t = (r, t')"
  obtains "r = RNS_PATH_REJECTED" "t' = t"
  | i old where "r = RNS_PATH_UPDATED" "i < length (tr_paths t)" "path_for dest (tr_paths t ! i)"
      "isfinite now" "old = (if dge now (pe_expires_at (tr_paths t ! i)) then []
                             else pe_random_blobs (tr_paths t ! i))"
      "dge now (pe_expires_at (tr_paths t ! i)) \<or> \<not> announce_rejected (tr_paths t ! i) gravity blob"
      "t' = t\<lparr>tr_paths := (tr_paths t)[i := announced_path rnd (tr_config t) dest hop iface gravity
                 hops blob ph now old]\<rparr>"
  | "r = RNS_PATH_INSERTED" "\<forall>e \<in> set (tr_paths t). \<not> path_for dest e" "isfinite now" "tr_paths t \<noteq> []"
      "t' = t\<lparr>tr_paths := (tr_paths t)[path_replacement_slot t :=
                 announced_path rnd (tr_config t) dest hop iface gravity hops blob ph now []]\<rparr>"
proof (cases "tr_paths t = [] \<or> \<not> isfinite now")
  case True
  with assms that(1) show thesis by (simp add: rns_transport_consider_announce_def)
next
  case False
  show thesis
  proof (cases "first_index (path_for dest) (tr_paths t)")
    case None
    with False assms that(3) show thesis
      by (simp add: rns_transport_consider_announce_def first_index_None_iff)
  next
    case (Some i)
    note i = first_index_SomeD [OF Some]
    show thesis
    proof (cases "dge now (pe_expires_at (tr_paths t ! i))")
      case True
      with Some False assms that(2) [of i "[]"] i show thesis
        by (simp add: rns_transport_consider_announce_def Let_def)
    next
      case live: False
      show thesis
      proof (cases "announce_rejected (tr_paths t ! i) gravity blob")
        case True
        with live Some False assms that(1) show thesis
          by (simp add: rns_transport_consider_announce_def Let_def)
      next
        case ok: False
        with live Some False assms that(2) [of i "pe_random_blobs (tr_paths t ! i)"] i show thesis
          by (simp add: rns_transport_consider_announce_def Let_def)
      qed
    qed
  qed
qed

lemma transport_wf_path_at:
  assumes "transport_wf t" "i < length (tr_paths t)"
  shows "path_wf (cfg_random_blob_history (tr_config t)) (tr_paths t ! i)"
  using assms by (simp add: transport_wf_def)

lemma transport_wf_path_unique:
  assumes "transport_wf t" "i < length (tr_paths t)" "path_for dest (tr_paths t ! i)"
    "j < length (tr_paths t)" "path_for dest (tr_paths t ! j)"
  shows "i = j"
  using assms unfolding transport_wf_def distinct_keys_def path_for_def by metis

lemma consider_announce_wf:
  assumes wf: "transport_wf t"
    and op: "rns_transport_consider_announce rnd dest hop iface gravity hops blob ph now t = (r, t')"
  shows "transport_wf t'"
  using op
proof (cases rule: consider_announce_cases)
  case 1
  with wf show ?thesis by simp
next
  case (2 i old)
  have "path_wf (cfg_random_blob_history (tr_config t))
      (announced_path rnd (tr_config t) dest hop iface gravity hops blob ph now old)"
    using transport_wf_path_at [OF wf 2(2)] wf 2(4,5)
    by (intro announced_path_wf) (auto simp: path_wf_def transport_wf_def)
  moreover have "pe_destination_hash (tr_paths t ! j) \<noteq> dest"
    if "j < length (tr_paths t)" "j \<noteq> i" "pe_occupied (tr_paths t ! j)" for j
    using transport_wf_path_unique [OF wf 2(2,3) that(1)] that(2,3) by (auto simp: path_for_def)
  ultimately show ?thesis
    unfolding 2(7) by (intro transport_wf_paths [OF wf]) simp_all
next
  case 3
  have "path_wf (cfg_random_blob_history (tr_config t))
      (announced_path rnd (tr_config t) dest hop iface gravity hops blob ph now [])"
    using wf 3(3) by (intro announced_path_wf) (auto simp: transport_wf_def)
  moreover have "pe_destination_hash (tr_paths t ! j) \<noteq> dest"
    if "j < length (tr_paths t)" "pe_occupied (tr_paths t ! j)" for j
    using 3(2) that by (auto simp: path_for_def)
  ultimately show ?thesis
    unfolding 3(5) by (intro transport_wf_paths [OF wf]) simp_all
qed

section \<open>The packet-hash filter\<close>

definition dedupe_cleared :: "double \<Rightarrow> rns_dedupe_entry list \<Rightarrow> rns_dedupe_entry list \<Rightarrow> bool" where
  "dedupe_cleared now es es' \<longleftrightarrow>
     list_all2 (\<lambda>e e'. e' = e \<or> dedupe_expired now e \<and> e' = zero_dedupe) es es'"

lemma dedupe_cleared_refl: "dedupe_cleared now es es"
  by (simp add: dedupe_cleared_def list_all2_same)

lemma dedupe_scan_cleared: "dedupe_scan now h es = (fresh, es') \<Longrightarrow> dedupe_cleared now es es'"
  using dedupe_cleared_refl [of now]
  by (induction es arbitrary: es')
     (auto simp: dedupe_cleared_def dedupe_expired_def split: if_splits prod.splits)

lemma dedupe_scan_fresh:
  "fst (dedupe_scan now h es) \<longleftrightarrow>
     \<not> (\<exists>e \<in> set es. de_occupied e \<and> de_packet_hash e = h \<and> \<not> dge now (de_expires_at e))"
  by (induction es) (auto split: prod.splits)

lemma dedupe_scan_fresh_absent:
  "dedupe_scan now h es = (True, es') \<Longrightarrow> e \<in> set es' \<Longrightarrow> de_occupied e \<Longrightarrow> de_packet_hash e \<noteq> h"
  by (induction es arbitrary: es') (auto split: if_splits prod.splits)

lemma dedupe_cleared_distinct:
  assumes "dedupe_cleared now es es'" "distinct_keys de_occupied de_packet_hash es"
  shows "distinct_keys de_occupied de_packet_hash es'"
proof -
  have "es' ! i = es ! i \<or> \<not> de_occupied (es' ! i)" if "i < length es'" for i
    using assms(1) that by (auto simp: dedupe_cleared_def list_all2_conv_all_nth)
  moreover have "length es' = length es"
    using assms(1) by (auto simp: dedupe_cleared_def dest: list_all2_lengthD)
  ultimately show ?thesis
    using assms(2) unfolding distinct_keys_def by metis
qed

lemma dedupe_cleared_finite:
  assumes "dedupe_cleared now es es'" "\<forall>e \<in> set es. isfinite (de_seen_at e)"
  shows "\<forall>e \<in> set es'. isfinite (de_seen_at e)"
  using assms by (auto simp: dedupe_cleared_def list_all2_conv_all_nth all_set_conv_all_nth)

lemma accept_packet_hash_wf:
  assumes wf: "transport_wf t" and op: "rns_transport_accept_packet_hash rnd h now t = (r, t')"
  shows "transport_wf t'"
proof (cases "isfinite now")
  case False
  with op wf show ?thesis by (simp add: rns_transport_accept_packet_hash_def)
next
  case True
  obtain fresh es where scan: "dedupe_scan now h (tr_dedupe t) = (fresh, es)" by fastforce
  note cleared = dedupe_scan_cleared [OF scan]
  have es: "distinct_keys de_occupied de_packet_hash es" "\<forall>e \<in> set es. isfinite (de_seen_at e)"
    "length es = length (tr_dedupe t)"
    using wf dedupe_cleared_distinct [OF cleared] dedupe_cleared_finite [OF cleared] cleared
    by (auto simp: transport_wf_def dedupe_cleared_def dest: list_all2_lengthD)
  let ?new = "\<lparr>de_packet_hash = h, de_seen_at = now,
      de_expires_at = dadd rnd now (cfg_dedupe_lifetime (tr_config t)), de_occupied = True\<rparr>"
  have "distinct_keys de_occupied de_packet_hash (es[oldest_dedupe_slot es := ?new])" if fresh
    using scan that by (intro distinct_keys_update [OF es(1)]) (auto dest: dedupe_scan_fresh_absent nth_mem)
  moreover have "\<forall>e \<in> set (es[oldest_dedupe_slot es := ?new]). isfinite (de_seen_at e)"
    using es(2) True by (auto dest!: set_update_subset_insert [THEN subsetD])
  moreover have "tr_dedupe t \<noteq> []" using wf by (simp add: transport_wf_def)
  ultimately show ?thesis
    using op scan es wf True
    by (cases fresh) (auto simp: rns_transport_accept_packet_hash_def transport_wf_def)
qed

section \<open>Reachable states\<close>

text \<open>One step for every operation that changes the tables, with any arguments and clock readings.\<close>

inductive transport_step ::
  "'r rns_crypto_provider option \<Rightarrow> rounding \<Rightarrow> rns_transport \<Rightarrow> rns_transport \<Rightarrow> bool"
  for P rnd where
  expire: "transport_step P rnd t (snd (rns_transport_expire now t))"
| lookup: "transport_step P rnd t (snd (rns_transport_lookup dest now t))"
| mark_unresponsive: "transport_step P rnd t (snd (rns_transport_mark_unresponsive dest now t))"
| consider_announce: "transport_step P rnd t
    (snd (rns_transport_consider_announce rnd dest hop iface gravity hops blob ph now t))"
| set_path_identity: "transport_step P rnd t (snd (rns_transport_set_path_identity dest key now t))"
| accept_packet_hash: "transport_step P rnd t (snd (rns_transport_accept_packet_hash rnd ph now t))"
| record_reverse: "transport_step P rnd t
    (fst (snd (rns_transport_record_reverse_transaction rnd ph received outbound now t)))"
| consume_reverse: "transport_step P rnd t
    (snd (snd (rns_transport_consume_reverse hash16 ingress now t)))"
| record_link: "transport_step P rnd t
    (fst (snd (rns_transport_record_link_request_transaction rnd link_id path received taken now t)))"
| link_lookup: "transport_step P rnd t (snd (rns_transport_link_lookup link_id now t))"
| accept_link_proof: "transport_step P rnd t
    (fst (snd (snd (rns_transport_accept_link_proof_transaction P rnd link_id pr ingress hops now now' t))))"
| route_link: "transport_step P rnd t
    (fst (snd (snd (rns_transport_route_link_transaction link_id ingress hops now now' t))))"
| forget_link: "transport_step P rnd t (snd (rns_transport_forget_link link_id now t))"
| rollback: "transport_step P rnd t (fst (snd (rns_transport_transaction_rollback tx t)))"

lemma link_lookup_cases:
  assumes "rns_transport_link_lookup link_id now t = (r, t')"
  obtains "r = None" "t' = t"
  | i where "r = None" "t' = t\<lparr>tr_links := (tr_links t)[i := zero_link]\<rparr>" "i < length (tr_links t)"
      "link_for link_id (tr_links t ! i)" "dge now (link_deadline (tr_links t ! i))"
  | i where "r = Some i" "t' = t" "i < length (tr_links t)" "link_for link_id (tr_links t ! i)"
      "\<not> dge now (link_deadline (tr_links t ! i))" "isfinite now"
proof (cases "isfinite now")
  case False
  with assms that(1) show thesis by (simp add: rns_transport_link_lookup_def)
next
  case True
  show thesis
  proof (cases "first_index (link_for link_id) (tr_links t)")
    case None
    with True assms that(1) show thesis by (simp add: rns_transport_link_lookup_def)
  next
    case (Some i)
    with True assms that(2,3) [of i] first_index_SomeD [OF Some] show thesis
      by (auto simp: rns_transport_link_lookup_def split: if_splits)
  qed
qed

lemma link_lookup_wf:
  "transport_wf t \<Longrightarrow> rns_transport_link_lookup link_id now t = (r, t') \<Longrightarrow> transport_wf t'"
  by (erule link_lookup_cases) (simp_all add: transport_wf_links)

lemma transport_step_wf: "transport_step P rnd t t' \<Longrightarrow> transport_wf t \<Longrightarrow> transport_wf t'"
proof (induction rule: transport_step.induct)
  case (expire t now)
  then show ?case by (simp add: expire_transport_wf)
next
  case (lookup t dest now)
  then show ?case by (metis lookup_wf prod.collapse)
next
  case (mark_unresponsive t dest now)
  then show ?case
    using lookup_update_wf [of t dest now _ _ "\<lambda>e. e\<lparr>pe_unresponsive := True\<rparr>"]
    by (auto simp: rns_transport_mark_unresponsive_def split: prod.splits option.splits dest: lookup_wf)
next
  case (consider_announce t dest hop iface gravity hops blob ph now)
  then show ?case by (metis consider_announce_wf prod.collapse)
next
  case (set_path_identity t dest key now)
  then show ?case
    using lookup_update_wf [of t dest now _ _ "\<lambda>e. e\<lparr>pe_identity_public_key := the key, pe_has_identity := True\<rparr>"]
    by (auto simp: rns_transport_set_path_identity_def split: prod.splits option.splits dest: lookup_wf)
next
  case (accept_packet_hash t ph now)
  then show ?case by (metis accept_packet_hash_wf prod.collapse)
next
  case (record_reverse t ph received outbound now)
  then show ?case
    by (auto simp: rns_transport_record_reverse_transaction_def Let_def transport_wf_reverse)
next
  case (consume_reverse t hash16 ingress now)
  then show ?case
    by (auto simp: rns_transport_consume_reverse_def Let_def transport_wf_reverse split: option.splits)
next
  case (record_link t link_id path received taken now)
  then show ?case
    by (auto simp: rns_transport_record_link_request_transaction_def Let_def transport_wf_links)
next
  case (link_lookup t link_id now)
  then show ?case by (metis link_lookup_wf prod.collapse)
next
  case (accept_link_proof t link_id pr ingress hops now now')
  then show ?case
    by (auto simp: rns_transport_accept_link_proof_transaction_def Let_def
        split: prod.splits option.splits dest: link_lookup_wf intro: transport_wf_links)
next
  case (route_link t link_id ingress hops now now')
  then show ?case
    by (auto simp: rns_transport_route_link_transaction_def Let_def
        split: prod.splits option.splits dest: link_lookup_wf intro: transport_wf_links)
next
  case (forget_link t link_id now)
  then show ?case
    by (auto simp: rns_transport_forget_link_def split: prod.splits option.splits
        dest: link_lookup_wf intro: transport_wf_links)
next
  case (rollback t tx)
  then show ?case
    by (auto simp: rns_transport_transaction_rollback_def transport_wf_reverse transport_wf_links
        split: rns_transport_transaction.splits)
qed

text \<open>
  C1. The invariant of the routing tables: in every state reached from initialisation by any sequence
  of operations, with any arguments, clock readings and rounding, the tables have their configured
  sizes, no destination has two paths, no packet hash is filtered twice, and every path keeps at most
  the configured number of announce blobs, all different.
\<close>

theorem transport_invariant:
  assumes "rns_transport_init config = Some t" and "(transport_step P rnd)\<^sup>*\<^sup>* t t'"
  shows "transport_wf t'"
  using assms(2) init_wf [OF assms(1)] by (induction rule: rtranclp_induct) (auto intro: transport_step_wf)

definition sample_config :: rns_transport_config where
  "sample_config =
     \<lparr>cfg_path_capacity = 2, cfg_dedupe_capacity = 2, cfg_reverse_capacity = 2, cfg_link_capacity = 2,
      cfg_random_blob_history = 2, cfg_path_lifetime = Fin 100, cfg_dedupe_lifetime = Fin 100,
      cfg_reverse_lifetime = Fin 100, cfg_link_lifetime = Fin 100,
      cfg_link_proof_timeout_per_hop = Fin 6\<rparr>"

definition sample_transport :: rns_transport where
  "sample_transport =
     \<lparr>tr_config = sample_config, tr_paths = [zero_path, zero_path],
      tr_dedupe = [zero_dedupe, zero_dedupe], tr_reverse_paths = [zero_reverse, zero_reverse],
      tr_links = [zero_link, zero_link]\<rparr>"

lemma replicate_2: "replicate 2 x = [x, x]"
  by (simp add: numeral_2_eq_2)

lemma sample_transport_init: "rns_transport_init sample_config = Some sample_transport"
  by (simp add: rns_transport_init_def sample_config_def sample_transport_def allocation_size_ok_def
      SIZE_MAX_def transport_defaults_def replicate_2)

lemma sample_transport_wf: "transport_wf sample_transport"
  by (rule init_wf [OF sample_transport_init])

theorem transport_invariant_witness:
  "transport_wf (snd (rns_transport_accept_packet_hash Fin (replicate 32 1) (Fin 5) sample_transport))"
  by (rule transport_invariant [OF sample_transport_init, of sample_provider Fin])
     (rule r_into_rtranclp, rule transport_step.accept_packet_hash)

section \<open>Paths\<close>

lemma lookup_found:
  assumes "transport_wf t" "i < length (tr_paths t)" "path_for dest (tr_paths t ! i)"
    "live now (pe_expires_at (tr_paths t ! i))"
  shows "rns_transport_lookup dest now t = (Some i, t)"
proof -
  have "first_index (path_for dest) (tr_paths t) = Some i"
    using assms(1-3) by (intro first_index_unique) (auto intro: transport_wf_path_unique)
  with assms(4) show ?thesis by (simp add: rns_transport_lookup_def live_def)
qed

text \<open>
  C12. Announce, then look up: an announce that is not rejected makes the destination reachable through
  the announced next hop, interface and hop count at every later time before the path's deadline, and
  (as long as the table had a free slot or the destination was known) leaves every other entry as it
  was. A rejected announce changes nothing.
\<close>

theorem announce_then_lookup:
  assumes "transport_wf t"
    and "rns_transport_consider_announce rnd dest hop iface gravity hops blob ph now t = (r, t')"
    and "live now' (dadd rnd now (cfg_path_lifetime (tr_config t)))"
  shows "if r = RNS_PATH_REJECTED then t' = t
         else \<exists>i. rns_transport_lookup dest now' t' = (Some i, t') \<and>
                  pe_next_hop (tr_paths t' ! i) = hop \<and> pe_interface_id (tr_paths t' ! i) = iface \<and>
                  pe_hops (tr_paths t' ! i) = hops \<and>
                  (r = RNS_PATH_UPDATED \<or> (\<exists>e \<in> set (tr_paths t). \<not> pe_occupied e) \<longrightarrow>
                     (\<forall>j < length (tr_paths t). j \<noteq> i \<longrightarrow> tr_paths t' ! j = tr_paths t ! j) \<and>
                     (pe_occupied (tr_paths t ! i) \<longrightarrow> pe_destination_hash (tr_paths t ! i) = dest))"
  using assms(2)
proof (cases rule: consider_announce_cases)
  case 1
  then show ?thesis by simp
next
  case (2 i old)
  have "rns_transport_lookup dest now' t' = (Some i, t')"
    using consider_announce_wf [OF assms(1,2)] 2(2,7) assms(3)
    by (intro lookup_found) (auto simp: path_for_def)
  with 2 show ?thesis by (auto simp: path_for_def)
next
  case 3
  let ?i = "path_replacement_slot t"
  have i: "?i < length (tr_paths t)"
    using path_table.slot_bound [OF 3(4)] by (simp add: path_replacement_slot_def)
  have "rns_transport_lookup dest now' t' = (Some ?i, t')"
    using consider_announce_wf [OF assms(1,2)] 3(5) i assms(3)
    by (intro lookup_found) (auto simp: path_for_def)
  moreover have "\<not> pe_occupied (tr_paths t ! ?i)" if "e \<in> set (tr_paths t)" "\<not> pe_occupied e" for e
    using path_table.slot_free [OF that] by (simp add: path_replacement_slot_def)
  ultimately show ?thesis using 3 i by auto
qed

theorem announce_then_lookup_witness:
  "\<exists>r t' i. rns_transport_consider_announce Fin (replicate 16 1) (replicate 16 2) 7 0 3 (replicate 10 4)
             (replicate 32 5) (Fin 10) sample_transport = (r, t') \<and> r = RNS_PATH_INSERTED \<and>
           rns_transport_lookup (replicate 16 1) (Fin 50) t' = (Some i, t') \<and>
           pe_next_hop (tr_paths t' ! i) = replicate 16 2"
proof -
  obtain r t' where op: "rns_transport_consider_announce Fin (replicate 16 1) (replicate 16 2) 7 0 3
      (replicate 10 4) (replicate 32 5) (Fin 10) sample_transport = (r, t')"
    by fastforce
  moreover have "r = RNS_PATH_INSERTED"
    using op by (auto simp: rns_transport_consider_announce_def sample_transport_def path_for_def)
  moreover have "live (Fin 50) (dadd Fin (Fin 10) (cfg_path_lifetime (tr_config sample_transport)))"
    by (simp add: live_def sample_transport_def sample_config_def)
  ultimately show ?thesis
    using announce_then_lookup [OF sample_transport_wf op] by auto
qed

text \<open>
  C13. Announces cannot be replayed: while a path is live and responsive, an announce replaces it only
  if its timebase is newer, or equal and received on an interface of strictly higher gravity. So the
  pair of timebase and gravity of a path strictly grows with every update, and a blob that the path
  remembers is accepted again only on such an interface.
\<close>

theorem announce_progress:
  assumes "transport_wf t" and "rns_transport_lookup dest now t = (Some i, t)"
    and "\<not> pe_unresponsive (tr_paths t ! i)"
    and "rns_transport_consider_announce rnd dest hop iface gravity hops blob ph now t = (r, t')"
    and "r \<noteq> RNS_PATH_REJECTED"
  shows "(pe_announce_timebase (tr_paths t ! i) < pe_announce_timebase (tr_paths t' ! i) \<or>
          pe_announce_timebase (tr_paths t ! i) = pe_announce_timebase (tr_paths t' ! i) \<and>
          pe_interface_gravity (tr_paths t ! i) < pe_interface_gravity (tr_paths t' ! i)) \<and>
         (blob \<in> set (pe_random_blobs (tr_paths t ! i)) \<longrightarrow>
          pe_interface_gravity (tr_paths t ! i) < pe_interface_gravity (tr_paths t' ! i))"
proof -
  have i: "i < length (tr_paths t)" "path_for dest (tr_paths t ! i)"
    "live now (pe_expires_at (tr_paths t ! i))"
    using assms(2) by (auto elim: lookup_cases)
  then have fresh: "\<not> dge now (pe_expires_at (tr_paths t ! i))"
    by (auto simp: live_def dest: dle_not_dlt)
  from assms(4) have result: "\<exists>old. \<not> announce_rejected (tr_paths t ! i) gravity blob \<and>
      tr_paths t' ! i = announced_path rnd (tr_config t) dest hop iface gravity hops blob ph now old"
  proof (cases rule: consider_announce_cases)
    case 1
    with assms(5) show ?thesis by simp
  next
    case (2 k old)
    then have "k = i" using i transport_wf_path_unique [OF assms(1)] by blast
    with 2 fresh i(1) show ?thesis by auto
  next
    case 3
    with i show ?thesis by auto
  qed
  then obtain old where "\<not> announce_rejected (tr_paths t ! i) gravity blob"
    "tr_paths t' ! i = announced_path rnd (tr_config t) dest hop iface gravity hops blob ph now old"
    by blast
  with assms(3) show ?thesis
    by (auto simp: announce_rejected_def Let_def path_heard_blob_def)
qed

theorem announce_progress_witness:
  "\<exists>r t t'. rns_transport_consider_announce Fin (replicate 16 1) (replicate 16 2) 7 0 3
            [0, 0, 0, 0, 0, 0, 0, 0, 0, 9] (replicate 32 5) (Fin 20) t = (r, t') \<and>
          pe_announce_timebase (tr_paths t ! 0) < pe_announce_timebase (tr_paths t' ! 0)"
proof -
  define e where "e = announced_path Fin sample_config (replicate 16 1) (replicate 16 2) 7 0 3
      [0, 0, 0, 0, 0, 0, 0, 0, 0, 8] (replicate 32 5) (Fin 10) []"
  define t where "t = sample_transport\<lparr>tr_paths := (tr_paths sample_transport)[0 := e]\<rparr>"
  have "path_wf (cfg_random_blob_history sample_config) e"
    unfolding e_def by (rule announced_path_wf) (simp_all add: sample_config_def)
  then have wf: "transport_wf t"
    unfolding t_def by (intro transport_wf_paths sample_transport_wf)
      (auto simp: sample_transport_def nth_Cons' split: if_splits)
  have found: "rns_transport_lookup (replicate 16 1) (Fin 20) t = (Some 0, t)"
    by (rule lookup_found [OF wf])
       (auto simp: t_def e_def sample_transport_def path_for_def live_def sample_config_def)
  have responsive: "\<not> pe_unresponsive (tr_paths t ! 0)" by (simp add: t_def e_def sample_transport_def)
  obtain r t' where op: "rns_transport_consider_announce Fin (replicate 16 1) (replicate 16 2) 7 0 3
      [0, 0, 0, 0, 0, 0, 0, 0, 0, 9] (replicate 32 5) (Fin 20) t = (r, t')" by fastforce
  have "\<not> announce_rejected (tr_paths t ! 0) 0 [0, 0, 0, 0, 0, 0, 0, 0, 0, 9]"
    by (simp add: announce_rejected_def t_def e_def sample_transport_def path_heard_blob_def
        announced_path_blobs sample_config_def random_blob_timebase_def bytes_at_def be_get_def)
  then have "r \<noteq> RNS_PATH_REJECTED"
    using op by (auto simp: rns_transport_consider_announce_def t_def e_def sample_transport_def
        path_for_def sample_config_def Let_def)
  moreover have "pe_interface_gravity (tr_paths t ! 0) = 0" by (simp add: t_def e_def sample_transport_def)
  moreover have "pe_interface_gravity (tr_paths t' ! 0) = 0"
    using op calculation(1)
    by (auto simp: rns_transport_consider_announce_def t_def e_def sample_transport_def
        path_for_def sample_config_def Let_def split: if_splits)
  ultimately show ?thesis
    using announce_progress [OF wf found responsive op] op by auto
qed

section \<open>The window of the packet-hash filter\<close>

text \<open>
  The entry of one packet, its distance to eviction: the entries stamped after it, at most \<open>k\<close>.
\<close>

definition dedupe_holds :: "rns_dedupe_entry \<Rightarrow> nat \<Rightarrow> rns_dedupe_entry list \<Rightarrow> bool" where
  "dedupe_holds x k es \<longleftrightarrow>
     (\<exists>i < length es. es ! i = x \<and>
        (\<forall>j < length es. j \<noteq> i \<longrightarrow> de_occupied (es ! j) \<longrightarrow>
           dlt (de_seen_at (es ! j)) (de_seen_at x) \<or> dlt (de_seen_at x) (de_seen_at (es ! j)))) \<and>
     card {j. j < length es \<and> de_occupied (es ! j) \<and> dlt (de_seen_at x) (de_seen_at (es ! j))} \<le> k"

lemma dedupe_holdsI:
  assumes "i < length es" "es ! i = x"
    and "\<And>j. j < length es \<Longrightarrow> j \<noteq> i \<Longrightarrow> de_occupied (es ! j) \<Longrightarrow>
           dlt (de_seen_at (es ! j)) (de_seen_at x) \<or> dlt (de_seen_at x) (de_seen_at (es ! j))"
    and "card {j. j < length es \<and> de_occupied (es ! j) \<and> dlt (de_seen_at x) (de_seen_at (es ! j))} \<le> k"
  shows "dedupe_holds x k es"
  unfolding dedupe_holds_def using assms by (intro conjI exI [of _ i] allI impI) simp_all

lemma dedupe_holds_mono:
  assumes "dedupe_holds x k es" "dedupe_cleared now es es'" "\<not> dedupe_expired now x"
  shows "dedupe_holds x k es'"
proof -
  have len: "length es' = length es" and
    nth: "\<And>j. j < length es \<Longrightarrow> es' ! j = es ! j \<or> dedupe_expired now (es ! j) \<and> es' ! j = zero_dedupe"
    using assms(2) by (auto simp: dedupe_cleared_def list_all2_conv_all_nth)
  let ?later = "\<lambda>es. {j. j < length es \<and> de_occupied (es ! j) \<and> dlt (de_seen_at x) (de_seen_at (es ! j))}"
  obtain i where i: "i < length es" "es ! i = x" and others: "\<And>j. j < length es \<Longrightarrow> j \<noteq> i \<Longrightarrow>
      de_occupied (es ! j) \<Longrightarrow> dlt (de_seen_at (es ! j)) (de_seen_at x) \<or> dlt (de_seen_at x) (de_seen_at (es ! j))"
    and few: "card (?later es) \<le> k"
    using assms(1) by (auto simp: dedupe_holds_def)
  have same: "es' ! j = es ! j" if "j < length es" "de_occupied (es' ! j)" for j
    using nth [OF that(1)] that(2) by auto
  have "es' ! i = x" using nth [OF i(1)] i(2) assms(3) by auto
  have "?later es' \<subseteq> ?later es" using same len by auto
  then have "card (?later es') \<le> card (?later es)" by (intro card_mono) simp_all
  then have small: "card (?later es') \<le> k" using few by linarith
  have "dlt (de_seen_at (es' ! j)) (de_seen_at x) \<or> dlt (de_seen_at x) (de_seen_at (es' ! j))"
    if "j < length es'" "j \<noteq> i" "de_occupied (es' ! j)" for j
    using others [of j] same [of j] that len by simp
  then show ?thesis using i(1) len \<open>es' ! i = x\<close> small by (intro dedupe_holdsI [of i]) simp_all
qed

lemma dedupe_holds_insert:
  assumes "dedupe_holds x k es" "Suc k < length es" "de_occupied x" "\<forall>e \<in> set es. isfinite (de_seen_at e)"
    "dlt (de_seen_at x) (de_seen_at y)"
  shows "dedupe_holds x (Suc k) (es[oldest_dedupe_slot es := y])"
proof -
  let ?s = "oldest_dedupe_slot es"
  let ?later = "\<lambda>es. {j. j < length es \<and> de_occupied (es ! j) \<and> dlt (de_seen_at x) (de_seen_at (es ! j))}"
  obtain i where i: "i < length es" "es ! i = x" and others: "\<forall>j < length es. j \<noteq> i \<longrightarrow>
      de_occupied (es ! j) \<longrightarrow> dlt (de_seen_at (es ! j)) (de_seen_at x) \<or> dlt (de_seen_at x) (de_seen_at (es ! j))"
    and few: "card (?later es) \<le> k"
    using assms(1) by (auto simp: dedupe_holds_def)
  have s: "?s < length es" using i(1) by (intro dedupe_table.slot_bound) auto
  have "?s \<noteq> i"
  proof
    assume at: "?s = i"
    have full: "\<forall>e \<in> set es. de_occupied e"
      using dedupe_table.slot_free [of _ es] at i(2) assms(3) by auto
    have "es \<noteq> []" using i(1) by auto
    then have "\<forall>j < length es. \<not> dlt (de_seen_at (es ! j)) (de_seen_at (es ! ?s))"
      using slot_loop_oldest [of es de_seen_at "\<lambda>e. \<not> de_occupied e" 0 0] assms(4) full
      by (simp add: oldest_dedupe_slot_def)
    then have "\<forall>j < length es. \<not> dlt (de_seen_at (es ! j)) (de_seen_at x)"
      using at i(2) by simp
    then have "{j. j < length es \<and> j \<noteq> i} \<subseteq> ?later es" using others full by auto
    then have "card {j. j < length es \<and> j \<noteq> i} \<le> card (?later es)" by (intro card_mono) simp_all
    then have "card {j. j < length es \<and> j \<noteq> i} \<le> k" using few by linarith
    moreover have "{j. j < length es \<and> j \<noteq> i} = {..<length es} - {i}" by auto
    ultimately show False using assms(2) i(1) by simp
  qed
  then have at: "es[?s := y] ! i = x" using i(2) by simp
  have "?later (es[?s := y]) \<subseteq> insert ?s (?later es)" by (auto simp: nth_list_update)
  then have "card (?later (es[?s := y])) \<le> card (insert ?s (?later es))"
    by (intro card_mono) auto
  then have small: "card (?later (es[?s := y])) \<le> Suc k"
    using few card_insert_le_m1 [of "Suc k" "?later es" ?s] by simp
  show ?thesis
  proof (rule dedupe_holdsI [of i])
    fix j assume "j < length (es[?s := y])" "j \<noteq> i" "de_occupied (es[?s := y] ! j)"
    then show "dlt (de_seen_at (es[?s := y] ! j)) (de_seen_at x) \<or>
               dlt (de_seen_at x) (de_seen_at (es[?s := y] ! j))"
      using others assms(5) s by (cases "j = ?s") simp_all
  qed (use i at small in simp_all)
qed

text \<open>A run of the filter over a sequence of packet hashes with their times.\<close>

fun accept_all :: "rounding \<Rightarrow> (bytes \<times> double) list \<Rightarrow> rns_transport \<Rightarrow> rns_transport" where
  "accept_all rnd [] t = t"
| "accept_all rnd ((h, now) # rest) t =
     accept_all rnd rest (snd (rns_transport_accept_packet_hash rnd h now t))"

lemma accept_holds:
  assumes wf: "transport_wf t" and x: "de_occupied x" "\<not> dedupe_expired now x" "dlt (de_seen_at x) now"
    and holds: "dedupe_holds x k (tr_dedupe t)" and "Suc k < length (tr_dedupe t)"
  shows "dedupe_holds x (Suc k) (tr_dedupe (snd (rns_transport_accept_packet_hash rnd h now t)))"
proof -
  have "dedupe_holds x (Suc k) es" if "dedupe_holds x k es" for es
    using that by (auto simp: dedupe_holds_def)
  moreover obtain fresh es where scan: "dedupe_scan now h (tr_dedupe t) = (fresh, es)" by fastforce
  note cleared = dedupe_scan_cleared [OF scan]
  have es: "dedupe_holds x k es" using dedupe_holds_mono [OF holds cleared x(2)] .
  have "\<forall>e \<in> set es. isfinite (de_seen_at e)" "length es = length (tr_dedupe t)"
    using dedupe_cleared_finite [OF cleared] wf cleared
    by (auto simp: transport_wf_def dedupe_cleared_def dest: list_all2_lengthD)
  then have "dedupe_holds x (Suc k) (es[oldest_dedupe_slot es := y])" if "de_seen_at y = now" for y
    using assms(6) x that by (intro dedupe_holds_insert [OF es]) auto
  ultimately show ?thesis
    using scan es holds by (cases fresh) (auto simp: rns_transport_accept_packet_hash_def)
qed

lemma accept_all_holds:
  assumes "transport_wf t" "de_occupied x" "\<forall>(h, now) \<in> set later. \<not> dedupe_expired now x \<and> dlt (de_seen_at x) now"
    and "dedupe_holds x k (tr_dedupe t)" and "k + length later < length (tr_dedupe t)"
  shows "transport_wf (accept_all rnd later t) \<and>
         dedupe_holds x (k + length later) (tr_dedupe (accept_all rnd later t))"
  using assms
proof (induction later arbitrary: t k)
  case Nil
  then show ?case by simp
next
  case (Cons p later)
  obtain h now where p: "p = (h, now)" by fastforce
  let ?t = "snd (rns_transport_accept_packet_hash rnd h now t)"
  have wf: "transport_wf ?t" using Cons.prems(1) by (metis accept_packet_hash_wf prod.collapse)
  have "dedupe_holds x (Suc k) (tr_dedupe ?t)"
    using Cons.prems p by (intro accept_holds) auto
  moreover have "length (tr_dedupe ?t) = length (tr_dedupe t)"
    using wf Cons.prems(1)
    by (auto simp: transport_wf_def rns_transport_accept_packet_hash_def split: prod.splits bool.splits)
  ultimately show ?case
    using Cons.IH [OF wf Cons.prems(2), of "Suc k"] Cons.prems p by simp
qed

lemma accept_true:
  assumes wf: "transport_wf t" and op: "rns_transport_accept_packet_hash rnd h now t = (True, t')"
    and past: "\<forall>e \<in> set (tr_dedupe t). de_occupied e \<longrightarrow> dlt (de_seen_at e) now"
  defines "x \<equiv> \<lparr>de_packet_hash = h, de_seen_at = now,
                de_expires_at = dadd rnd now (cfg_dedupe_lifetime (tr_config t)), de_occupied = True\<rparr>"
  shows "dedupe_holds x 0 (tr_dedupe t')"
proof -
  obtain fresh es where scan: "dedupe_scan now h (tr_dedupe t) = (fresh, es)" by fastforce
  note cleared = dedupe_scan_cleared [OF scan]
  have t': "tr_dedupe t' = es[oldest_dedupe_slot es := x]"
    using op scan by (auto simp: rns_transport_accept_packet_hash_def x_def split: if_splits bool.splits)
  have len: "length es = length (tr_dedupe t)"
    using cleared by (auto simp: dedupe_cleared_def dest: list_all2_lengthD)
  have s: "oldest_dedupe_slot es < length es"
    using len wf by (intro dedupe_table.slot_bound) (auto simp: transport_wf_def)
  have old: "dlt (de_seen_at (es ! j)) now" if "j < length es" "de_occupied (es ! j)" for j
  proof -
    have "es ! j = tr_dedupe t ! j"
      using cleared that len by (auto simp: dedupe_cleared_def list_all2_conv_all_nth)
    then show ?thesis using past that len by simp
  qed
  have "\<not> dlt now (de_seen_at (es[oldest_dedupe_slot es := x] ! j))"
    if "j < length es" "de_occupied (es[oldest_dedupe_slot es := x] ! j)" for j
    using old [of j] that s dlt_trans [of now "de_seen_at (es ! j)" now]
    by (cases "j = oldest_dedupe_slot es") (auto simp: x_def)
  then have "{j. j < length es \<and> de_occupied (es[oldest_dedupe_slot es := x] ! j) \<and>
      dlt now (de_seen_at (es[oldest_dedupe_slot es := x] ! j))} = {}" by auto
  then have none: "card {j. j < length es \<and> de_occupied (es[oldest_dedupe_slot es := x] ! j) \<and>
      dlt now (de_seen_at (es[oldest_dedupe_slot es := x] ! j))} \<le> 0" by simp
  show ?thesis unfolding t'
  proof (rule dedupe_holdsI [of "oldest_dedupe_slot es"])
    fix j assume "j < length (es[oldest_dedupe_slot es := x])" "j \<noteq> oldest_dedupe_slot es"
      "de_occupied (es[oldest_dedupe_slot es := x] ! j)"
    then show "dlt (de_seen_at (es[oldest_dedupe_slot es := x] ! j)) (de_seen_at x) \<or>
               dlt (de_seen_at x) (de_seen_at (es[oldest_dedupe_slot es := x] ! j))"
      using old by (simp add: x_def)
  qed (use s none in \<open>simp_all add: x_def\<close>)
qed

text \<open>
  C5. The filter remembers: once a packet hash has been accepted, it is refused again at every later
  time before its deadline, as long as fewer packets than the filter has slots have been processed
  since, at later times; whatever those packets are, and although expired and oldest entries are
  replaced all along.
\<close>

theorem dedupe_window:
  assumes "transport_wf t" and "\<forall>e \<in> set (tr_dedupe t). de_occupied e \<longrightarrow> dlt (de_seen_at e) now"
    and "rns_transport_accept_packet_hash rnd h now t = (True, t')"
    and "length later < cfg_dedupe_capacity (tr_config t)"
    and "\<forall>(h', now') \<in> set (later @ [(h, again)]).
           dlt now now' \<and> isfinite now' \<and> dlt now' (dadd rnd now (cfg_dedupe_lifetime (tr_config t)))"
  shows "fst (rns_transport_accept_packet_hash rnd h again (accept_all rnd later t')) = False"
proof -
  define x where "x = \<lparr>de_packet_hash = h, de_seen_at = now,
      de_expires_at = dadd rnd now (cfg_dedupe_lifetime (tr_config t)), de_occupied = True\<rparr>"
  have wf': "transport_wf t'" by (rule accept_packet_hash_wf [OF assms(1,3)])
  have start: "dedupe_holds x 0 (tr_dedupe t')"
    unfolding x_def by (rule accept_true [OF assms(1,3,2)])
  have "tr_config t' = tr_config t"
    using assms(3) by (auto simp: rns_transport_accept_packet_hash_def split: if_splits prod.splits bool.splits)
  then have "0 + length later < length (tr_dedupe t')" using assms(4) wf' by (simp add: transport_wf_def)
  moreover have "\<forall>(h, n) \<in> set later. \<not> dedupe_expired n x \<and> dlt (de_seen_at x) n"
    using assms(5) by (auto simp: x_def dedupe_expired_def dest: dle_not_dlt)
  ultimately have "dedupe_holds x (0 + length later) (tr_dedupe (accept_all rnd later t'))"
    using accept_all_holds [OF wf' _ _ start] by (simp add: x_def)
  then have "x \<in> set (tr_dedupe (accept_all rnd later t'))" by (auto simp: dedupe_holds_def)
  moreover have "\<not> dge again (de_expires_at x)" "isfinite again"
    using assms(5) by (auto simp: x_def dest: dle_not_dlt)
  ultimately have "\<not> fst (dedupe_scan again h (tr_dedupe (accept_all rnd later t')))"
    unfolding dedupe_scan_fresh by (auto simp: x_def intro!: bexI [of _ x])
  then show ?thesis
    by (auto simp: rns_transport_accept_packet_hash_def split: prod.splits bool.splits)
qed

theorem dedupe_window_witness:
  "fst (rns_transport_accept_packet_hash Fin [1] (Fin 7)
     (accept_all Fin [([2], Fin 6)]
       (snd (rns_transport_accept_packet_hash Fin [1] (Fin 5) sample_transport)))) = False"
proof -
  obtain b t' where op: "rns_transport_accept_packet_hash Fin [1] (Fin 5) sample_transport = (b, t')" by fastforce
  then have "b" by (auto simp: rns_transport_accept_packet_hash_def sample_transport_def zero_dedupe_def)
  with op have op': "rns_transport_accept_packet_hash Fin [1] (Fin 5) sample_transport = (True, t')" by simp
  have "\<forall>e \<in> set (tr_dedupe sample_transport). de_occupied e \<longrightarrow> dlt (de_seen_at e) (Fin 5)"
    and "cfg_dedupe_capacity (tr_config sample_transport) = 2"
    and "cfg_dedupe_lifetime (tr_config sample_transport) = Fin 100"
    by (simp_all add: sample_transport_def sample_config_def zero_dedupe_def)
  then show ?thesis
    unfolding op' snd_conv by (intro dedupe_window [OF sample_transport_wf _ op']) simp_all
qed

end
