(* ===== verification/Transport_Routes.thy ===== *)
theory Transport_Routes
  imports Transport_Tables
begin

text \<open>
  What a transport node forwards: proofs through the one-shot reverse table, link traffic through
  the link table once its proof has been validated, the transactions that undo an entry when the
  outbound interface refuses a packet, and the path request format.
\<close>

section \<open>Reverse paths\<close>

lemma dlt_not_dge: "dlt x y \<Longrightarrow> \<not> dge x y"
  by (auto dest: dle_not_dlt)

text \<open>
  C14. A reverse path forwards one proof: after a packet has been recorded, the first proof for its
  hash that comes back before the deadline is sent to the interface the packet came from when it
  arrives on the interface the packet left by, and is refused on every other interface; either way
  the entry is gone, so a second proof finds none at any time and on any interface.
\<close>

theorem reverse_one_shot:
  assumes "transport_wf t" and "\<forall>e \<in> set (tr_reverse_paths t). \<not> reverse_for (take 16 packet_hash) e"
    and "rns_transport_record_reverse rnd packet_hash received outbound now t = (True, t1)"
    and "isfinite now1" and "dlt now1 (dadd rnd now (cfg_reverse_lifetime (tr_config t)))"
    and "rns_transport_consume_reverse (take 16 packet_hash) ingress now1 t1 = (r, forward, t2)"
  shows "(r, forward) = (if ingress = outbound then (RNS_REVERSE_MATCHED, received)
                         else (RNS_REVERSE_WRONG_INTERFACE, 0)) \<and>
         (\<forall>ingress' now2. rns_transport_consume_reverse (take 16 packet_hash) ingress' now2 t2 =
                          (RNS_REVERSE_MISSING, 0, t2))"
proof -
  define s where "s = oldest_reverse_slot now (tr_reverse_paths t)"
  define x where "x = \<lparr>re_packet_hash = take 16 packet_hash, re_received_interface_id = received,
      re_outbound_interface_id = outbound, re_created_at = now,
      re_expires_at = dadd rnd now (cfg_reverse_lifetime (tr_config t)), re_occupied = True\<rparr>"
  have t1: "t1 = t\<lparr>tr_reverse_paths := (tr_reverse_paths t)[s := x]\<rparr>"
    using assms(3)
    by (auto simp: rns_transport_record_reverse_def rns_transport_record_reverse_transaction_def
        Let_def s_def x_def split: if_splits)
  have s: "s < length (tr_reverse_paths t)"
    using assms(1) unfolding s_def by (intro reverse_table.slot_bound) (simp add: transport_wf_def)
  have x: "reverse_for (take 16 packet_hash) x" by (simp add: reverse_for_def x_def)
  have found: "first_index (reverse_for (take 16 packet_hash)) (tr_reverse_paths t1) = Some s"
    unfolding t1 using first_index_insert [OF assms(2) s x] by simp
  have t2: "t2 = t\<lparr>tr_reverse_paths := (tr_reverse_paths t)[s := zero_reverse]\<rparr>"
    and r: "(r, forward) = (if ingress = outbound then (RNS_REVERSE_MATCHED, received)
                            else (RNS_REVERSE_WRONG_INTERFACE, 0))"
    using assms(6) found assms(4) dlt_not_dge [OF assms(5)] s
    by (auto simp: rns_transport_consume_reverse_def Let_def t1 x_def split: if_splits)
  have "first_index (reverse_for (take 16 packet_hash)) (tr_reverse_paths t2) = None"
    using assms(2) set_update_subset_insert [of "tr_reverse_paths t" s zero_reverse]
    by (auto simp: first_index_None_iff t2 reverse_for_def)
  then show ?thesis using r by (simp add: rns_transport_consume_reverse_def)
qed

theorem reverse_one_shot_witness:
  "fst (rns_transport_consume_reverse (replicate 16 9) 2 (Fin 6)
     (snd (rns_transport_record_reverse Fin (replicate 32 9) 1 2 (Fin 5) sample_transport))) =
   RNS_REVERSE_MATCHED"
proof -
  obtain b t1 where rec: "rns_transport_record_reverse Fin (replicate 32 9) 1 2 (Fin 5) sample_transport = (b, t1)"
    by fastforce
  then have b: "b = True"
    by (auto simp: rns_transport_record_reverse_def rns_transport_record_reverse_transaction_def
        sample_transport_def Let_def)
  obtain r f t2 where use: "rns_transport_consume_reverse (take 16 (replicate 32 9)) 2 (Fin 6) t1 = (r, f, t2)"
    by (metis prod_cases3)
  have none: "\<forall>e \<in> set (tr_reverse_paths sample_transport). \<not> reverse_for (take 16 (replicate 32 9)) e"
    by (simp add: sample_transport_def reverse_for_def)
  have "dlt (Fin 6) (dadd Fin (Fin 5) (cfg_reverse_lifetime (tr_config sample_transport)))"
    by (simp add: sample_transport_def sample_config_def)
  from reverse_one_shot [OF sample_transport_wf none rec [unfolded b] _ this use]
  have "r = RNS_REVERSE_MATCHED" by simp
  then show ?thesis using rec use by simp
qed

section \<open>Links\<close>

lemma link_lookup_found:
  assumes "first_index (link_for link_id) (tr_links t) = Some i" "isfinite now"
    and "dlt now (link_deadline (tr_links t ! i))"
  shows "rns_transport_link_lookup link_id now t = (Some i, t)"
  using assms by (auto simp: rns_transport_link_lookup_def dest: dlt_not_dge)

lemma accept_link_proof_valid:
  assumes "rns_transport_link_lookup link_id now t = (Some i, t)" and "\<not> le_validated (tr_links t ! i)"
    and "le_next_hop_interface_id (tr_links t ! i) = ingress" and "le_remaining_hops (tr_links t ! i) = hops"
    and "length pr = 99" and "isfinite now'"
    and "rns_identity_from_public P (le_destination_public_key (tr_links t ! i)) = Some them"
    and "rns_identity_verify P them (link_proof_preimage (tr_links t ! i) pr) (take 64 pr)"
  shows "rns_transport_accept_link_proof P rnd link_id pr ingress hops now now' t =
    (RNS_LINK_ROUTE_MATCHED, le_received_interface_id (tr_links t ! i),
     t\<lparr>tr_links := (tr_links t)[i := (tr_links t ! i)\<lparr>le_validated := True, le_updated_at := now',
         le_expires_at := dadd rnd now' (cfg_link_lifetime (tr_config t))\<rparr>]\<rparr>)"
  using assms by (simp add: rns_transport_accept_link_proof_def
      rns_transport_accept_link_proof_transaction_def Let_def)

lemma record_link_request_entry:
  assumes "rns_transport_record_link_request rnd link_id path received taken now t = (True, t1)"
  shows "t1 = t\<lparr>tr_links := (tr_links t)[oldest_link_slot now (tr_links t) :=
      \<lparr>le_link_id = link_id, le_next_hop = pe_next_hop path,
       le_destination_hash = pe_destination_hash path,
       le_destination_public_key = pe_identity_public_key path,
       le_next_hop_interface_id = pe_interface_id path, le_received_interface_id = received,
       le_remaining_hops = pe_hops path, le_taken_hops = taken,
       le_validated = False, le_created_at = now, le_updated_at = now,
       le_proof_deadline = dadd rnd now (dmul_nonneg rnd (of_nat (unat (pe_hops path)))
                             (cfg_link_proof_timeout_per_hop (tr_config t))),
       le_expires_at = Fin 0, le_occupied = True\<rparr>]\<rparr>"
  using assms by (auto simp: rns_transport_record_link_request_def
      rns_transport_record_link_request_transaction_def Let_def split: if_splits)

lemma route_link_simp:
  assumes "rns_transport_link_lookup link_id now t = (Some i, t)"
  shows "fst (rns_transport_route_link link_id ingress hops now now' t) =
      (if \<not> le_validated (tr_links t ! i) then RNS_LINK_ROUTE_NOT_VALIDATED
       else if ingress = le_received_interface_id (tr_links t ! i)
       then if hops = le_taken_hops (tr_links t ! i) then RNS_LINK_ROUTE_MATCHED else RNS_LINK_ROUTE_WRONG_HOPS
       else if ingress = le_next_hop_interface_id (tr_links t ! i)
       then if hops = le_remaining_hops (tr_links t ! i) then RNS_LINK_ROUTE_MATCHED else RNS_LINK_ROUTE_WRONG_HOPS
       else RNS_LINK_ROUTE_WRONG_INTERFACE)"
    and "fst (snd (rns_transport_route_link link_id ingress hops now now' t)) =
      (if fst (rns_transport_route_link link_id ingress hops now now' t) \<noteq> RNS_LINK_ROUTE_MATCHED then 0
       else if ingress = le_received_interface_id (tr_links t ! i) then le_next_hop_interface_id (tr_links t ! i)
       else le_received_interface_id (tr_links t ! i))"
  using assms by (simp_all add: rns_transport_route_link_def rns_transport_route_link_transaction_def Let_def)

text \<open>
  C2. A link is forwarded in both directions once its destination has proved it, and not before: a
  link request recorded towards a destination is refused to carry traffic; the proof that the
  destination signs over the link id, the peer key, its own key and the signalling bytes, arriving
  in time over the next hop with the expected hop count, is sent on to the requester; from then
  until the link expires every packet is forwarded exactly between the two interfaces with the hop
  count of its direction, and refused otherwise.
\<close>

theorem link_established:
  assumes "transport_wf t" and "\<forall>e \<in> set (tr_links t). \<not> link_for link_id e"
    and "identity_wf P me" "signature_sound P" "signature_size P" "sha256_sound P"
    and "pe_identity_public_key path = rns_identity_export_public me"
    and "length link_id = 16" "length peer_public = 32" "length signalling = 3"
    and "rns_identity_sign P me (link_id @ peer_public @ signing_public me @ signalling) = Some signature"
    and "rns_transport_record_link_request rnd link_id path received taken now t = (True, t1)"
    and "isfinite now1" "isfinite now1'" "isfinite now2"
    and "dlt now1 (dadd rnd now (dmul_nonneg rnd (of_nat (unat (pe_hops path)))
                     (cfg_link_proof_timeout_per_hop (tr_config t))))"
    and "dlt now2 (dadd rnd now1' (cfg_link_lifetime (tr_config t)))"
    and "rns_transport_accept_link_proof P rnd link_id (signature @ peer_public @ signalling)
           (pe_interface_id path) (pe_hops path) now1 now1' t1 = (r, forward, t2)"
  shows "(\<forall>ingress hops. fst (rns_transport_route_link link_id ingress hops now1 now1' t1) =
                         RNS_LINK_ROUTE_NOT_VALIDATED) \<and>
         r = RNS_LINK_ROUTE_MATCHED \<and> forward = received \<and>
         (\<forall>ingress hops.
            (fst (rns_transport_route_link link_id ingress hops now2 now2' t2),
             fst (snd (rns_transport_route_link link_id ingress hops now2 now2' t2))) =
            (if ingress = received
             then if hops = taken then (RNS_LINK_ROUTE_MATCHED, pe_interface_id path)
                  else (RNS_LINK_ROUTE_WRONG_HOPS, 0)
             else if ingress = pe_interface_id path
             then if hops = pe_hops path then (RNS_LINK_ROUTE_MATCHED, received)
                  else (RNS_LINK_ROUTE_WRONG_HOPS, 0)
             else (RNS_LINK_ROUTE_WRONG_INTERFACE, 0)))"
proof -
  define s where "s = oldest_link_slot now (tr_links t)"
  note t1 = record_link_request_entry [OF assms(12), folded s_def]
  have s: "s < length (tr_links t)"
    using assms(1) unfolding s_def by (intro link_table.slot_bound) (simp add: transport_wf_def)
  have found: "first_index (link_for link_id) (tr_links t1) = Some s"
    unfolding t1 using s by (simp add: first_index_insert [OF assms(2) s] link_for_def)
  have e1: "le_link_id (tr_links t1 ! s) = link_id" "le_occupied (tr_links t1 ! s)"
    "\<not> le_validated (tr_links t1 ! s)" "le_taken_hops (tr_links t1 ! s) = taken"
    "le_destination_public_key (tr_links t1 ! s) = rns_identity_export_public me"
    "le_next_hop_interface_id (tr_links t1 ! s) = pe_interface_id path"
    "le_received_interface_id (tr_links t1 ! s) = received"
    "le_remaining_hops (tr_links t1 ! s) = pe_hops path"
    using s by (simp_all add: t1 assms(7))
  have look1: "rns_transport_link_lookup link_id now1 t1 = (Some s, t1)"
    using link_lookup_found [OF found assms(13)] assms(16) s by (simp add: t1 link_deadline_def)
  obtain them where them: "rns_identity_from_public P (le_destination_public_key (tr_links t1 ! s)) = Some them"
    "signing_public them = signing_public me"
    using identity_from_exported_public [OF assms(3,6)] by (auto simp: e1)
  have size: "length signature = 64"
    using assms(5,11) by (auto simp: rns_identity_sign_def signature_size_def split: if_splits)
  have key: "bytes_at 32 32 (rns_identity_export_public me) = signing_public me"
    using assms(3) by (simp add: identity_wf_def rns_identity_export_public_def bytes_at_def)
  have "rns_identity_verify P them
      (link_proof_preimage (tr_links t1 ! s) (signature @ peer_public @ signalling)) signature"
    using identity_sign_verify [OF assms(3,4) them(2) assms(11)] size assms(8-10) key
    by (simp add: link_proof_preimage_def e1 bytes_at_def)
  then have verified: "rns_identity_verify P them (link_proof_preimage (tr_links t1 ! s)
      (signature @ peer_public @ signalling)) (take 64 (signature @ peer_public @ signalling))"
    using size by simp
  have "(r, forward, t2) = (RNS_LINK_ROUTE_MATCHED, le_received_interface_id (tr_links t1 ! s),
     t1\<lparr>tr_links := (tr_links t1)[s := (tr_links t1 ! s)\<lparr>le_validated := True,
       le_updated_at := now1', le_expires_at := dadd rnd now1' (cfg_link_lifetime (tr_config t1))\<rparr>]\<rparr>)"
    unfolding assms(18) [symmetric]
    by (rule accept_link_proof_valid [OF look1 e1(3,6,8) _ assms(14) them(1) verified])
       (simp add: size assms(9,10))
  then have acc: "r = RNS_LINK_ROUTE_MATCHED" "forward = received"
    "t2 = t1\<lparr>tr_links := (tr_links t1)[s := (tr_links t1 ! s)\<lparr>le_validated := True,
       le_updated_at := now1', le_expires_at := dadd rnd now1' (cfg_link_lifetime (tr_config t1))\<rparr>]\<rparr>"
    by (simp_all add: e1)
  have e2: "tr_links t2 = (tr_links t)[s := (tr_links t1 ! s)\<lparr>le_validated := True,
       le_updated_at := now1', le_expires_at := dadd rnd now1' (cfg_link_lifetime (tr_config t))\<rparr>]"
    unfolding acc(3) by (simp add: t1)
  have found2: "first_index (link_for link_id) (tr_links t2) = Some s"
    unfolding e2 using s by (simp add: first_index_insert [OF assms(2) s] link_for_def e1)
  have look2: "rns_transport_link_lookup link_id now2 t2 = (Some s, t2)"
    using link_lookup_found [OF found2 assms(15)] assms(17) s by (simp add: e2 link_deadline_def)
  show ?thesis
    using acc(1,2) s by (simp add: route_link_simp [OF look1] route_link_simp [OF look2] e2 e1)
qed

definition sample_path :: rns_path_entry where
  "sample_path = zero_path\<lparr>pe_identity_public_key := rns_identity_export_public sample_identity,
     pe_has_identity := True, pe_hops := 2, pe_interface_id := 8, pe_occupied := True\<rparr>"

lemma sample_identity_signs: "\<exists>s. rns_identity_sign sample_provider sample_identity message = Some s"
  by (simp add: rns_identity_sign_def rns_ed25519_sign_def sample_provider_defs sample_identity_def
      openssl_ed25519_sign_def)

lemma sample_link_recorded:
  "\<exists>t1. rns_transport_record_link_request Fin (replicate 16 3) sample_path 5 1 (Fin 10) sample_transport =
        (True, t1)"
  by (simp add: rns_transport_record_link_request_def rns_transport_record_link_request_transaction_def
      sample_path_def sample_transport_def sample_config_def dmul_nonneg_def Let_def)

theorem link_established_witness:
  "\<exists>t1 signature. rns_transport_record_link_request Fin (replicate 16 3) sample_path 5 1 (Fin 10) sample_transport =
      (True, t1) \<and>
     fst (rns_transport_accept_link_proof sample_provider Fin (replicate 16 3)
       (signature @ replicate 32 6 @ [7, 7, 7]) 8 2 (Fin 11) (Fin 11) t1) = RNS_LINK_ROUTE_MATCHED"
proof -
  obtain signature where sign: "rns_identity_sign sample_provider sample_identity
      (replicate 16 3 @ replicate 32 6 @ signing_public sample_identity @ [7, 7, 7]) = Some signature"
    using sample_identity_signs by blast
  obtain t1 where rec: "rns_transport_record_link_request Fin (replicate 16 3) sample_path 5 1 (Fin 10)
      sample_transport = (True, t1)"
    using sample_link_recorded by blast
  obtain r f t2 where acc: "rns_transport_accept_link_proof sample_provider Fin (replicate 16 3)
      (signature @ replicate 32 6 @ [7, 7, 7]) (pe_interface_id sample_path) (pe_hops sample_path)
      (Fin 11) (Fin 11) t1 = (r, f, t2)"
    by (metis prod_cases3)
  have "r = RNS_LINK_ROUTE_MATCHED"
    by (rule link_established [OF sample_transport_wf _ sample_identity_wf sample_provider_sound(3,4,1) _ _ _ _ sign rec
            _ _ _ _ _ acc, of "Fin 12" "Fin 12", THEN conjunct2, THEN conjunct1])
       (simp_all add: dmul_nonneg_def sample_transport_def sample_config_def sample_path_def link_for_def zero_path_def)
  moreover have "pe_interface_id sample_path = 8" "pe_hops sample_path = 2"
    by (simp_all add: sample_path_def)
  ultimately show ?thesis using rec acc by (intro exI [of _ t1] exI [of _ signature]) simp
qed

text \<open>
  C16. A link whose two ends are reached over one interface carries traffic in one direction only:
  packets from the destination side, which arrive with the remaining hop count, are refused when
  the two hop counts differ, because the requester's direction is tried first and alone.
\<close>

theorem link_same_interface_one_way:
  assumes "rns_transport_link_lookup link_id now t = (Some i, t)" and "le_validated (tr_links t ! i)"
    and "le_received_interface_id (tr_links t ! i) = le_next_hop_interface_id (tr_links t ! i)"
    and "le_remaining_hops (tr_links t ! i) \<noteq> le_taken_hops (tr_links t ! i)"
  shows "fst (rns_transport_route_link link_id (le_next_hop_interface_id (tr_links t ! i))
           (le_remaining_hops (tr_links t ! i)) now now' t) = RNS_LINK_ROUTE_WRONG_HOPS \<and>
         fst (rns_transport_route_link link_id (le_next_hop_interface_id (tr_links t ! i))
           (le_taken_hops (tr_links t ! i)) now now' t) = RNS_LINK_ROUTE_MATCHED"
  using assms by (simp add: route_link_simp)

definition sample_same_interface :: rns_transport where
  "sample_same_interface = sample_transport\<lparr>tr_links :=
     [zero_link\<lparr>le_link_id := replicate 16 3, le_next_hop_interface_id := 5, le_received_interface_id := 5,
        le_remaining_hops := 2, le_taken_hops := 1, le_validated := True, le_expires_at := Fin 100,
        le_occupied := True\<rparr>, zero_link]\<rparr>"

theorem link_same_interface_one_way_witness:
  "fst (rns_transport_route_link (replicate 16 3) 5 2 (Fin 12) (Fin 12) sample_same_interface) =
   RNS_LINK_ROUTE_WRONG_HOPS"
proof -
  have "rns_transport_link_lookup (replicate 16 3) (Fin 12) sample_same_interface = (Some 0, sample_same_interface)"
    by (simp add: rns_transport_link_lookup_def sample_same_interface_def link_for_def link_deadline_def)
  from link_same_interface_one_way [OF this] show ?thesis by (simp add: sample_same_interface_def)
qed

section \<open>Transactions\<close>

text \<open>The operations that open a transaction, on success.\<close>

inductive opens_transaction ::
  "'r rns_crypto_provider option \<Rightarrow> rounding \<Rightarrow> rns_transport \<Rightarrow> rns_transport \<Rightarrow>
     rns_transport_transaction \<Rightarrow> bool"
  for P rnd t where
  reverse: "rns_transport_record_reverse_transaction rnd packet_hash received outbound now t = (True, t', tx) \<Longrightarrow>
     opens_transaction P rnd t t' tx"
| link_request: "rns_transport_record_link_request_transaction rnd link_id path received taken now t =
     (True, t', tx) \<Longrightarrow> opens_transaction P rnd t t' tx"
| link_proof: "rns_transport_accept_link_proof_transaction P rnd link_id pr ingress hops now now' t =
     (RNS_LINK_ROUTE_MATCHED, forward, t', tx) \<Longrightarrow> opens_transaction P rnd t t' tx"
| route: "rns_transport_route_link_transaction link_id ingress hops now now' t =
     (RNS_LINK_ROUTE_MATCHED, forward, t', tx) \<Longrightarrow> opens_transaction P rnd t t' tx"

lemma opens_transaction_cases:
  assumes "opens_transaction P rnd t t' tx" "transport_wf t"
  obtains i x where "i < length (tr_reverse_paths t)" "t' = t\<lparr>tr_reverse_paths := (tr_reverse_paths t)[i := x]\<rparr>"
      "tx = RNS_TRANSPORT_TRANSACTION_REVERSE i (tr_reverse_paths t ! i)"
  | i y where "i < length (tr_links t)" "t' = t\<lparr>tr_links := (tr_links t)[i := y]\<rparr>"
      "tx = RNS_TRANSPORT_TRANSACTION_LINK i (tr_links t ! i)"
  using assms(1)
proof cases
  case (reverse packet_hash received outbound now)
  have "oldest_reverse_slot now (tr_reverse_paths t) < length (tr_reverse_paths t)"
    using assms(2) by (intro reverse_table.slot_bound) (simp add: transport_wf_def)
  with reverse that(1) show thesis
    by (auto simp: rns_transport_record_reverse_transaction_def Let_def split: if_splits)
next
  case (link_request link_id path received taken now)
  have "oldest_link_slot now (tr_links t) < length (tr_links t)"
    using assms(2) by (intro link_table.slot_bound) (simp add: transport_wf_def)
  with link_request that(2) show thesis
    by (auto simp: rns_transport_record_link_request_transaction_def Let_def split: if_splits)
next
  case (link_proof link_id pr ingress hops now now' forward)
  obtain r u where look: "rns_transport_link_lookup link_id now t = (r, u)" by fastforce
  from look show thesis
    by (rule link_lookup_cases)
       (use link_proof look that(2) in \<open>auto simp: rns_transport_accept_link_proof_transaction_def Let_def
          split: if_splits option.splits\<close>)
next
  case (route link_id ingress hops now now' forward)
  obtain r u where look: "rns_transport_link_lookup link_id now t = (r, u)" by fastforce
  from look show thesis
    by (rule link_lookup_cases)
       (use route look that(2) in \<open>auto simp: rns_transport_route_link_transaction_def Let_def
          split: if_splits\<close>)
qed

text \<open>
  C15. Rolling back undoes the mutation: after any operation that opened a transaction, the rollback
  succeeds, gives back exactly the state before the operation, and closes the transaction, so a
  second rollback changes nothing; a commit closes it and keeps the new state.
\<close>

theorem transaction_rollback_restores:
  assumes "transport_wf t" and "opens_transaction P rnd t t' tx"
  shows "rns_transport_transaction_rollback tx t' = (True, t, RNS_TRANSPORT_TRANSACTION_NONE) \<and>
         rns_transport_transaction_rollback (rns_transport_transaction_commit tx) t' =
           (True, t', RNS_TRANSPORT_TRANSACTION_NONE)"
  using assms(2,1)
  by (rule opens_transaction_cases)
     (use assms(1) in \<open>auto simp: rns_transport_transaction_rollback_def rns_transport_transaction_commit_def
        transport_wf_def\<close>)

theorem transaction_rollback_restores_witness:
  "case rns_transport_record_reverse_transaction Fin (replicate 32 9) 1 2 (Fin 5) sample_transport of
     (_, t', tx) \<Rightarrow> rns_transport_transaction_rollback tx t' =
       (True, sample_transport, RNS_TRANSPORT_TRANSACTION_NONE)"
proof -
  obtain b t' tx where op: "rns_transport_record_reverse_transaction Fin (replicate 32 9) 1 2 (Fin 5)
      sample_transport = (b, t', tx)" by (metis prod_cases3)
  then have "b = True"
    by (auto simp: rns_transport_record_reverse_transaction_def sample_transport_def Let_def)
  with op have "opens_transaction sample_provider Fin sample_transport t' tx"
    by (intro opens_transaction.reverse) simp
  from transaction_rollback_restores [OF sample_transport_wf this] op show ?thesis by simp
qed

section \<open>Path requests\<close>

definition path_request_wf :: "rns_path_request \<Rightarrow> bool" where
  "path_request_wf q \<longleftrightarrow> length (prq_destination_hash q) = 16 \<and>
     (case prq_requesting_transport q of None \<Rightarrow> True | Some h \<Rightarrow> length h = 16) \<and>
     0 < length (prq_tag q) \<and> length (prq_tag q) \<le> 16"

interpretation path_request: canonical_codec
  "\<lambda>q. rns_path_request_build (prq_destination_hash q) (prq_requesting_transport q) (prq_tag q) 48"
  rns_path_request_parse path_request_wf "\<lambda>_. True"
proof (unfold_locales, goal_cases)
  case (1 q raw)
  then show ?case
    by (cases q) (auto simp: rns_path_request_build_def rns_path_request_parse_def path_request_wf_def
        bytes_at_def Let_def Suc_le_eq split: if_splits option.splits)
next
  case (2 raw q)
  have "take 16 raw @ bytes_at 16 16 raw @ drop 32 raw = raw"
    using drop_eq_bytes_at [of 16 raw 16] append_take_drop_id [of 16 raw] by simp
  with 2 show ?case
    by (auto simp: rns_path_request_build_def rns_path_request_parse_def path_request_wf_def
        Let_def bytes_at_def split: if_splits)
qed

text \<open>
  C17. The path request format is unambiguous: with room for 48 bytes a request with a tag of 1 to 16
  bytes, with or without the requesting transport, is built and parses to itself, and what parses is
  the build of its parse; so the length alone tells the two forms apart.
\<close>

theorem path_request_roundtrip:
  assumes "path_request_wf q"
  shows "rns_path_request_parse raw = Some q \<longleftrightarrow>
         rns_path_request_build (prq_destination_hash q) (prq_requesting_transport q) (prq_tag q) 48 = Some raw"
  by (rule path_request.decode_eq_iff [OF TrueI assms])

theorem path_request_roundtrip_witness:
  "rns_path_request_parse (replicate 16 1 @ replicate 16 2 @ [3]) =
     Some \<lparr>prq_destination_hash = replicate 16 1, prq_requesting_transport = Some (replicate 16 2), prq_tag = [3]\<rparr>"
  by (subst path_request_roundtrip) (simp_all add: path_request_wf_def rns_path_request_build_def)

end
