(* ===== verification/Checksum.thy ===== *)
theory Checksum
  imports Prelude
begin

text \<open>
  The CRC-32 loop that the storage formats compute bit by bit
  (\<^verbatim>\<open>src/platform/storage_record.c\<close>, \<^verbatim>\<open>src/transport/path_store.c\<close>), and what it is
  good for: it tells apart two byte strings that differ in one byte.
\<close>

definition crc32_bit :: "u32 \<Rightarrow> u32" where
  "crc32_bit crc = drop_bit 1 crc XOR (0xedb88320 AND (- (crc AND 1)))"

definition crc32_byte :: "u32 \<Rightarrow> byte \<Rightarrow> u32" where
  "crc32_byte crc b = (crc32_bit ^^ 8) (crc XOR ucast b)"

definition crc32_update :: "u32 \<Rightarrow> bytes \<Rightarrow> u32" where
  "crc32_update crc data = foldl crc32_byte crc data"

lemma crc32_update_append: "crc32_update crc (xs @ ys) = crc32_update (crc32_update crc xs) ys"
  by (simp add: crc32_update_def)

text \<open>The top bit of the polynomial is set, so it tells which bit was shifted out.\<close>

lemma crc32_mask: "- (crc AND 1 :: u32) = (if bit crc 0 then - 1 else 0)"
  by (simp add: and_one_eq bit_0 odd_iff_mod_2_eq_one)

lemma crc32_bit_nth: "n < 32 \<Longrightarrow> bit (crc32_bit crc) n = (bit crc (Suc n) \<noteq> (bit crc 0 \<and> bit (0xedb88320 :: u32) n))"
  by (simp add: crc32_bit_def crc32_mask bit_simps del: bit_numeral_word_iff)

lemma crc32_bit_inj: "crc32_bit x = crc32_bit y \<Longrightarrow> x = y"
proof -
  assume eq: "crc32_bit x = crc32_bit y"
  have top: "bit (0xedb88320 :: u32) 31" by code_simp
  have over: "\<not> bit (z :: u32) 32" for z using bit_imp_le_length [of z 32] by auto
  have low: "bit x 0 = bit y 0"
    using crc32_bit_nth [of 31 x] crc32_bit_nth [of 31 y] eq top over [of x] over [of y] by simp
  have "bit x (Suc n) = bit y (Suc n)" if "n < 31" for n
    using crc32_bit_nth [of n x] crc32_bit_nth [of n y] eq low that by auto
  then have "bit x n = bit y n" if "n < 32" for n
    using low that by (cases n) simp_all
  then show "x = y" by (intro bit_word_eqI) simp
qed

lemma crc32_bits_inj: "(crc32_bit ^^ n) x = (crc32_bit ^^ n) y \<Longrightarrow> x = y"
  by (induction n) (auto dest: crc32_bit_inj)

lemma xor_right_cancel: "x XOR z = y XOR z \<Longrightarrow> x = (y :: u32)"
  by (auto simp: bit_eq_iff bit_xor_iff)

lemma xor_left_cancel: "z XOR x = z XOR y \<Longrightarrow> x = (y :: u32)"
  by (auto simp: bit_eq_iff bit_xor_iff)

lemma crc32_byte_inj: "crc32_byte x b = crc32_byte y b \<Longrightarrow> x = y"
  unfolding crc32_byte_def by (drule crc32_bits_inj) (rule xor_right_cancel)

lemma crc32_byte_data_inj: "crc32_byte x b = crc32_byte x c \<Longrightarrow> b = c"
proof -
  assume "crc32_byte x b = crc32_byte x c"
  then have "x XOR ucast b = x XOR ucast c" unfolding crc32_byte_def by (rule crc32_bits_inj)
  then have "(ucast b :: u32) = ucast c" by (rule xor_left_cancel)
  then show "b = c" by (auto simp: bit_eq_iff bit_simps) 
qed

lemma crc32_update_inj: "crc32_update x data = crc32_update y data \<Longrightarrow> x = y"
  unfolding crc32_update_def
  by (induction data arbitrary: x y) (auto dest: crc32_byte_inj)

lemma crc32_detects_byte:
  assumes "i < length data" "b \<noteq> data ! i"
  shows "crc32_update crc (data[i := b]) \<noteq> crc32_update crc data"
proof
  assume eq: "crc32_update crc (data[i := b]) = crc32_update crc data"
  have split: "data[i := c] = take i data @ c # drop (Suc i) data" for c
    using assms(1) by (rule upd_conv_take_nth_drop)
  have "data = data[i := data ! i]" by simp
  then have "crc32_update crc (data[i := b]) = crc32_update crc (data[i := data ! i])" using eq by simp
  then have "crc32_update (crc32_byte (crc32_update crc (take i data)) b) (drop (Suc i) data) =
      crc32_update (crc32_byte (crc32_update crc (take i data)) (data ! i)) (drop (Suc i) data)"
    unfolding split by (simp add: crc32_update_def)
  then have "crc32_byte (crc32_update crc (take i data)) b =
      crc32_byte (crc32_update crc (take i data)) (data ! i)" by (rule crc32_update_inj)
  then show False using assms(2) by (auto dest: crc32_byte_data_inj)
qed

end
