(* ===== verification/Storage_Record.thy ===== *)
theory Storage_Record
  imports Checksum
begin

text \<open>
  The record envelope and the dual-slot journal of the transactional storage
  (\<^verbatim>\<open>src/platform/storage_record.c\<close>). A key is the characters of the C string before its
  terminator. The operations return the status, what they store through their result pointers
  (\<open>None\<close> when they leave them alone) and the bytes they write.
\<close>

abbreviation (input) RNS_STORAGE_KEY_MAX :: nat where "RNS_STORAGE_KEY_MAX \<equiv> 64"
abbreviation (input) RNS_STORAGE_RECORD_VERSION :: u16 where "RNS_STORAGE_RECORD_VERSION \<equiv> 1"
abbreviation (input) RNS_STORAGE_RECORD_HEADER_SIZE :: nat where "RNS_STORAGE_RECORD_HEADER_SIZE \<equiv> 24"
abbreviation (input) RNS_STORAGE_RECORD_MAX_PAYLOAD :: nat where "RNS_STORAGE_RECORD_MAX_PAYLOAD \<equiv> 4096"

definition put_u16 :: "u16 \<Rightarrow> bytes" where
  "put_u16 v = [ucast (drop_bit 8 v), ucast v]"

definition put_u32 :: "u32 \<Rightarrow> bytes" where
  "put_u32 v = [ucast (drop_bit 24 v), ucast (drop_bit 16 v), ucast (drop_bit 8 v), ucast v]"

definition get_u16 :: "bytes \<Rightarrow> u16" where
  "get_u16 bs = push_bit 8 (ucast (bs ! 0)) OR ucast (bs ! 1)"

definition get_u32 :: "bytes \<Rightarrow> u32" where
  "get_u32 bs = push_bit 24 (ucast (bs ! 0)) OR push_bit 16 (ucast (bs ! 1)) OR
                push_bit 8 (ucast (bs ! 2)) OR ucast (bs ! 3)"

fun key_scan :: "bytes \<Rightarrow> nat \<Rightarrow> nat" where
  "key_scan [] n = n"
| "key_scan (c # cs) n = (if n \<le> RNS_STORAGE_KEY_MAX then key_scan cs (Suc n) else n)"

definition valid_key :: "bytes option \<Rightarrow> nat option" where
  "valid_key key =
     (case key of
        None \<Rightarrow> None
      | Some s \<Rightarrow> let n = key_scan s 0
                  in if n = 0 \<or> n > RNS_STORAGE_KEY_MAX then None else Some n)"

definition key_tag :: "bytes \<Rightarrow> nat \<Rightarrow> u32" where
  "key_tag key n = NOT (crc32_update (- 1) (take n key))"

definition rns_storage_record_encoded_size :: "nat \<Rightarrow> rns_status \<times> nat" where
  "rns_storage_record_encoded_size payload_length =
     (if payload_length > RNS_STORAGE_RECORD_MAX_PAYLOAD then (RNS_ERROR_OVERFLOW, 0)
      else (RNS_OK, RNS_STORAGE_RECORD_HEADER_SIZE + payload_length))"

definition rns_storage_record_encode ::
  "bytes option \<Rightarrow> u32 \<Rightarrow> bytes \<Rightarrow> nat \<Rightarrow> rns_status \<times> nat option \<times> bytes option" where
  "rns_storage_record_encode key generation payload capacity =
     (case (key, valid_key key) of
        (Some s, Some key_length) \<Rightarrow>
          if generation = 0 then (RNS_ERROR_INVALID_ARGUMENT, None, None)
          else (case rns_storage_record_encoded_size (length payload) of
                  (RNS_OK, required) \<Rightarrow>
                    if capacity < required then (RNS_ERROR_OVERFLOW, Some required, None)
                    else let head = [0x52, 0x4e, 0x53, 0x4e] @ put_u16 RNS_STORAGE_RECORD_VERSION @
                                    put_u16 (of_nat RNS_STORAGE_RECORD_HEADER_SIZE) @ put_u32 generation @
                                    put_u32 (key_tag s key_length) @ put_u32 (of_nat (length payload));
                             checksum = crc32_update (crc32_update (- 1) head) payload
                         in (RNS_OK, Some required, Some (head @ put_u32 (NOT checksum) @ payload))
                | (status, _) \<Rightarrow> (status, None, None))
      | _ \<Rightarrow> (RNS_ERROR_INVALID_ARGUMENT, None, None))"

definition rns_storage_record_decode ::
  "bytes option \<Rightarrow> bytes \<Rightarrow> nat \<Rightarrow> rns_status \<times> (nat \<times> u32) option \<times> bytes option" where
  "rns_storage_record_decode key r capacity =
     (case (key, valid_key key) of
        (Some s, Some key_length) \<Rightarrow>
          if length r < RNS_STORAGE_RECORD_HEADER_SIZE \<or>
             r ! 0 \<noteq> 0x52 \<or> r ! 1 \<noteq> 0x4e \<or> r ! 2 \<noteq> 0x53 \<or> r ! 3 \<noteq> 0x4e \<or>
             get_u16 (drop 4 r) \<noteq> RNS_STORAGE_RECORD_VERSION \<or>
             get_u16 (drop 6 r) \<noteq> of_nat RNS_STORAGE_RECORD_HEADER_SIZE \<or>
             get_u32 (drop 12 r) \<noteq> key_tag s key_length
          then (RNS_ERROR_PROTOCOL, Some (0, 0), None)
          else let n = unat (get_u32 (drop 16 r))
               in if n > RNS_STORAGE_RECORD_MAX_PAYLOAD \<or> length r \<noteq> RNS_STORAGE_RECORD_HEADER_SIZE + n
                  then (RNS_ERROR_PROTOCOL, Some (0, 0), None)
                  else let checksum = crc32_update (crc32_update (- 1) (take 20 r)) (bytes_at 24 n r)
                       in if NOT checksum \<noteq> get_u32 (drop 20 r) then (RNS_ERROR_PROTOCOL, Some (0, 0), None)
                          else let generation = get_u32 (drop 8 r)
                               in if generation = 0 then (RNS_ERROR_PROTOCOL, Some (n, generation), None)
                                  else if capacity < n then (RNS_ERROR_OVERFLOW, Some (n, generation), None)
                                  else (RNS_OK, Some (n, generation), Some (bytes_at 24 n r))
      | _ \<Rightarrow> (RNS_ERROR_INVALID_ARGUMENT, None, None))"

text \<open>The slots of the journal are the characters \<^verbatim>\<open>'a'\<close> and \<^verbatim>\<open>'b'\<close>.\<close>

definition rns_storage_record_select_slot ::
  "bool \<Rightarrow> u32 \<Rightarrow> bool \<Rightarrow> u32 \<Rightarrow> rns_status + char" where
  "rns_storage_record_select_slot valid_a generation_a valid_b generation_b =
     (if valid_a \<and> generation_a = 0 \<or> valid_b \<and> generation_b = 0 then Inl RNS_ERROR_INVALID_ARGUMENT
      else if \<not> valid_a \<and> \<not> valid_b then Inl RNS_ERROR_NOT_FOUND
      else Inr (if \<not> valid_b \<or> valid_a \<and> generation_a \<ge> generation_b then CHR ''a'' else CHR ''b''))"

definition rns_storage_record_next_slot ::
  "bool \<Rightarrow> u32 \<Rightarrow> bool \<Rightarrow> u32 \<Rightarrow> rns_status + char \<times> u32" where
  "rns_storage_record_next_slot valid_a generation_a valid_b generation_b =
     (if valid_a \<and> generation_a = 0 \<or> valid_b \<and> generation_b = 0 then Inl RNS_ERROR_INVALID_ARGUMENT
      else if \<not> valid_a \<and> \<not> valid_b then Inr (CHR ''a'', 1)
      else let newest = (if \<not> valid_b \<or> valid_a \<and> generation_a \<ge> generation_b
                         then generation_a else generation_b)
           in if newest = - 1 then Inl RNS_ERROR_INVALID_STATE
              else Inr (if \<not> valid_a then CHR ''a''
                        else if \<not> valid_b then CHR ''b''
                        else if generation_a \<le> generation_b then CHR ''a'' else CHR ''b'',
                        newest + 1))"

section \<open>Fields\<close>

lemma length_put_u [simp]: "length (put_u16 v) = 2" "length (put_u32 w) = 4"
  by (simp_all add: put_u16_def put_u32_def)

lemma put_u16_be: "put_u16 v = be_put 2 v"
  by (simp add: put_u16_def eval_nat_numeral)

lemma put_u32_be: "put_u32 v = be_put 4 v"
  by (simp add: put_u32_def eval_nat_numeral)

lemma get_u16_be: "2 \<le> length bs \<Longrightarrow> get_u16 bs = be_get (take 2 bs)"
  unfolding take_Cons_numeral(1) by (simp add: get_u16_def be_get_def)

lemma get_u32_be: "4 \<le> length bs \<Longrightarrow> get_u32 bs = be_get (take 4 bs)"
  unfolding take_Cons_numeral(2) by (simp add: get_u32_def be_get_def push_bit_or or.assoc)

lemma get_put_u [simp]: "get_u16 (put_u16 v @ rest) = v" "get_u32 (put_u32 w @ rest) = w"
  by (simp_all add: get_u16_be get_u32_be put_u16_be put_u32_be)

lemma put_get_u16: "2 \<le> length bs \<Longrightarrow> put_u16 (get_u16 bs) = take 2 bs"
  using be_put_get [of "take 2 bs", where 'a = 16] by (simp add: get_u16_be put_u16_be)

lemma put_get_u32: "4 \<le> length bs \<Longrightarrow> put_u32 (get_u32 bs) = take 4 bs"
  using be_put_get [of "take 4 bs", where 'a = 32] by (simp add: get_u32_be put_u32_be)

section \<open>Records\<close>

definition record_head :: "u32 \<Rightarrow> u32 \<Rightarrow> nat \<Rightarrow> bytes" where
  "record_head generation tag n =
     [0x52, 0x4e, 0x53, 0x4e] @ put_u16 1 @ put_u16 (of_nat 24) @ put_u32 generation @ put_u32 tag @
     put_u32 (of_nat n)"

lemma length_record_head [simp]: "length (record_head generation tag n) = 20"
  by (simp add: record_head_def)

lemma encode_image:
  "rns_storage_record_encode (Some s) generation payload capacity = (RNS_OK, written, Some raw) \<longleftrightarrow>
     (\<exists>n. valid_key (Some s) = Some n \<and> generation \<noteq> 0 \<and> length payload \<le> 4096 \<and>
          written = Some (24 + length payload) \<and> 24 + length payload \<le> capacity \<and>
          raw = record_head generation (key_tag s n) (length payload) @
                put_u32 (NOT (crc32_update (- 1)
                  (record_head generation (key_tag s n) (length payload) @ payload))) @ payload)"
  unfolding rns_storage_record_encode_def record_head_def [symmetric]
  by (auto simp: rns_storage_record_encoded_size_def Let_def crc32_update_append
      split: option.splits if_splits)

text \<open>What the decoder has checked when it does not report a protocol error.\<close>

lemma decode_checked:
  assumes "valid_key (Some s) = Some n" "fst (rns_storage_record_decode (Some s) r capacity) \<noteq> RNS_ERROR_PROTOCOL"
  shows "24 \<le> length r" "take 8 r = [0x52, 0x4e, 0x53, 0x4e] @ put_u16 1 @ put_u16 24"
    "bytes_at 12 4 r = put_u32 (key_tag s n)" "bytes_at 16 4 r = put_u32 (of_nat (length r - 24))"
    "bytes_at 20 4 r = put_u32 (NOT (crc32_update (- 1) (take 20 r @ drop 24 r)))"
proof -
  define m where "m = unat (get_u32 (drop 16 r))"
  have len: "24 \<le> length r" and magic: "r ! 0 = 0x52" "r ! 1 = 0x4e" "r ! 2 = 0x53" "r ! 3 = 0x4e"
    and version: "get_u16 (drop 4 r) = 1" "get_u16 (drop 6 r) = 24"
    and tag: "get_u32 (drop 12 r) = key_tag s n"
    and written: "length r = 24 + m"
    and crc: "NOT (crc32_update (crc32_update (- 1) (take 20 r)) (bytes_at 24 m r)) = get_u32 (drop 20 r)"
    using assms by (auto simp: rns_storage_record_decode_def m_def [symmetric] Let_def split: if_splits)
  show "24 \<le> length r" by fact
  have "take 8 r = take 4 r @ bytes_at 4 2 r @ bytes_at 6 2 r"
    using bytes_at_append_bytes_at [of 0 4 r 4] bytes_at_append_bytes_at [of 4 2 r 2] by simp
  moreover have "take 4 r = [0x52, 0x4e, 0x53, 0x4e]"
    using len magic by (simp add: take_Cons_numeral)
  moreover have "bytes_at 4 2 r = put_u16 1" "bytes_at 6 2 r = put_u16 24"
    using put_get_u16 [of "drop 4 r"] put_get_u16 [of "drop 6 r"] version len by (simp_all add: bytes_at_def)
  ultimately show "take 8 r = [0x52, 0x4e, 0x53, 0x4e] @ put_u16 1 @ put_u16 24" by simp
  show "bytes_at 12 4 r = put_u32 (key_tag s n)"
    using put_get_u32 [of "drop 12 r"] tag len by (simp add: bytes_at_def)
  show "bytes_at 16 4 r = put_u32 (of_nat (length r - 24))"
  proof -
    have "of_nat (length r - 24) = get_u32 (drop 16 r)" unfolding written by (simp add: m_def)
    with put_get_u32 [of "drop 16 r"] len show ?thesis by (simp add: bytes_at_def)
  qed
  have "bytes_at 24 m r = drop 24 r" using written by (simp add: bytes_at_def)
  then show "bytes_at 20 4 r = put_u32 (NOT (crc32_update (- 1) (take 20 r @ drop 24 r)))"
    using put_get_u32 [of "drop 20 r"] crc len by (simp add: bytes_at_def crc32_update_append)
qed

text \<open>
  C32. A stored record is read back: what the encoder writes for a key, a non-zero generation and a
  payload of at most 4096 bytes is decoded under the same key to that payload and generation, in
  any buffer that holds the payload; a smaller buffer gives an overflow that reports the length.
\<close>

theorem storage_record_roundtrip:
  assumes "rns_storage_record_encode key generation payload capacity = (RNS_OK, written, Some raw)"
  shows "written = Some (length raw) \<and> length raw \<le> capacity \<and>
         rns_storage_record_decode key raw capacity' =
           (if capacity' < length payload
            then (RNS_ERROR_OVERFLOW, Some (length payload, generation), None)
            else (RNS_OK, Some (length payload, generation), Some payload))"
proof -
  obtain s where key: "key = Some s" using assms by (cases key) (auto simp: rns_storage_record_encode_def)
  obtain n where n: "valid_key (Some s) = Some n" "generation \<noteq> 0" "length payload \<le> 4096"
    "written = Some (24 + length payload)" "24 + length payload \<le> capacity"
    and raw: "raw = record_head generation (key_tag s n) (length payload) @
                put_u32 (NOT (crc32_update (- 1)
                  (record_head generation (key_tag s n) (length payload) @ payload))) @ payload"
    using assms unfolding key encode_image by blast
  define crc where "crc = NOT (crc32_update (- 1)
      (record_head generation (key_tag s n) (length payload) @ payload))"
  have flat: "raw = [0x52, 0x4e, 0x53, 0x4e] @ put_u16 1 @ put_u16 24 @ put_u32 generation @
      put_u32 (key_tag s n) @ put_u32 (of_nat (length payload)) @ put_u32 crc @ payload"
    unfolding raw crc_def [symmetric] by (simp add: record_head_def)
  have fields: "length raw = 24 + length payload" "raw ! 0 = 0x52" "raw ! Suc 0 = 0x4e" "raw ! 2 = 0x53" "raw ! 3 = 0x4e"
    "get_u16 (drop 4 raw) = 1" "get_u16 (drop 6 raw) = 24" "get_u32 (drop 8 raw) = generation"
    "get_u32 (drop 12 raw) = key_tag s n" "get_u32 (drop 16 raw) = of_nat (length payload)"
    "get_u32 (drop 20 raw) = crc" "bytes_at 24 (length payload) raw = payload"
    by (simp_all add: flat bytes_at_def)
  have head: "take 20 raw = record_head generation (key_tag s n) (length payload)"
    unfolding raw by simp
  have "unat (of_nat (length payload) :: u32) = length payload"
    using n(3) by (simp add: unsigned_of_nat take_bit_nat_eq_self_iff)
  then show ?thesis
    using n by (simp add: rns_storage_record_decode_def key fields head crc_def crc32_update_append Let_def)
qed

theorem storage_record_roundtrip_witness:
  "rns_storage_record_decode (Some [107]) (the (snd (snd (rns_storage_record_encode (Some [107]) 3 [1, 2] 30)))) 2 =
     (RNS_OK, Some (2, 3), Some [1, 2])"
proof -
  obtain written raw where enc: "rns_storage_record_encode (Some [107]) 3 [1, 2] 30 = (RNS_OK, written, Some raw)"
    by (simp add: rns_storage_record_encode_def rns_storage_record_encoded_size_def valid_key_def Let_def)
  from storage_record_roundtrip [OF this, of 2] enc show ?thesis by simp
qed

text \<open>
  C33. A damaged record is never taken for a good one: changing any one byte of an encoded record,
  in the header, the checksum or the payload, to any other value makes the decoder report a protocol
  error.
\<close>

theorem storage_record_detects_byte:
  assumes "rns_storage_record_encode key generation payload capacity = (RNS_OK, written, Some raw)"
    and "i < length raw" and "b \<noteq> raw ! i"
  shows "fst (rns_storage_record_decode key (raw[i := b]) capacity') = RNS_ERROR_PROTOCOL"
proof (rule ccontr)
  let ?bad = "raw[i := b]"
  assume bad: "\<not> ?thesis"
  obtain s where key: "key = Some s" using assms(1) by (cases key) (auto simp: rns_storage_record_encode_def)
  obtain n where n: "valid_key (Some s) = Some n"
    and raw: "raw = record_head generation (key_tag s n) (length payload) @
                put_u32 (NOT (crc32_update (- 1)
                  (record_head generation (key_tag s n) (length payload) @ payload))) @ payload"
    using assms(1) unfolding key encode_image by blast
  have good: "take 8 raw = [0x52, 0x4e, 0x53, 0x4e] @ put_u16 1 @ put_u16 24"
    "bytes_at 12 4 raw = put_u32 (key_tag s n)" "bytes_at 16 4 raw = put_u32 (of_nat (length raw - 24))"
    "bytes_at 20 4 raw = put_u32 (NOT (crc32_update (- 1) (take 20 raw @ drop 24 raw)))"
    unfolding raw by (simp_all add: record_head_def bytes_at_def)
  note checked = decode_checked [OF n bad [unfolded key]]
  have outside: "\<not> (off \<le> i \<and> i < off + k)" if "bytes_at off k ?bad = bytes_at off k raw" for off k
    using arg_cong [OF that, of "\<lambda>xs. xs ! (i - off)"] assms(2,3)
    by (auto simp: bytes_at_def split: if_splits)
  have "8 \<le> i" "\<not> (12 \<le> i \<and> i < 20)"
    using outside [of 0 8] outside [of 12 4] outside [of 16 4] checked(2-4) good(1-3) by auto
  show False
  proof (cases "20 \<le> i \<and> i < 24")
    case True
    then have "take 20 ?bad @ drop 24 ?bad = take 20 raw @ drop 24 raw" by simp
    with checked(5) good(4) outside [of 20 4] True show False by simp
  next
    case False
    then have same: "bytes_at 20 4 ?bad = bytes_at 20 4 raw"
      by (auto simp: bytes_at_def drop_update_swap)
    define j where "j = (if i < 20 then i else i - 4)"
    have "take 20 ?bad @ drop 24 ?bad = (take 20 raw @ drop 24 raw)[j := b]"
      using False assms(2) by (auto simp: j_def list_update_append take_update_swap drop_update_swap list_update_beyond)
    moreover have "(take 20 raw @ drop 24 raw) ! j = raw ! i" "j < length (take 20 raw @ drop 24 raw)"
      using False assms(2) by (auto simp: j_def nth_append)
    ultimately have "crc32_update (- 1) (take 20 ?bad @ drop 24 ?bad) \<noteq> crc32_update (- 1) (take 20 raw @ drop 24 raw)"
      using crc32_detects_byte assms(3) by metis
    moreover have "put_u32 x = put_u32 y \<Longrightarrow> x = y" for x y
      by (metis append_Nil2 get_put_u(2))
    ultimately show False using same checked(5) good(4) by (metis bit.double_compl)
  qed
qed

theorem storage_record_detects_byte_witness:
  "fst (rns_storage_record_decode (Some [107])
     ((the (snd (snd (rns_storage_record_encode (Some [107]) 3 [1, 2] 30))))[25 := 9]) 2) = RNS_ERROR_PROTOCOL"
proof -
  obtain written raw where enc: "rns_storage_record_encode (Some [107]) 3 [1, 2] 30 = (RNS_OK, written, Some raw)"
    by (simp add: rns_storage_record_encode_def rns_storage_record_encoded_size_def valid_key_def Let_def)
  then obtain head crc where "raw = head @ put_u32 crc @ [1, 2]" "length head = 20"
    unfolding encode_image using length_record_head by blast
  then have "25 < length raw" "9 \<noteq> raw ! 25" by (simp_all add: nth_append)
  from storage_record_detects_byte [OF enc this, of 2] enc show ?thesis by simp
qed

section \<open>The journal\<close>

text \<open>
  A journal has two slots, each holding nothing readable or a record with its generation. Reading
  takes the selected slot; a write goes to the next slot with the next generation, and either
  completes or, when it is interrupted, leaves that slot unreadable.
\<close>

type_synonym 'v journal_slot = "(u32 \<times> 'v) option"

definition slot_generation :: "'v journal_slot \<Rightarrow> u32" where
  "slot_generation s = (case s of None \<Rightarrow> 0 | Some (g, _) \<Rightarrow> g)"

definition journal_read :: "'v journal_slot \<Rightarrow> 'v journal_slot \<Rightarrow> 'v journal_slot" where
  "journal_read a b =
     (case rns_storage_record_select_slot (a \<noteq> None) (slot_generation a) (b \<noteq> None) (slot_generation b) of
        Inl _ \<Rightarrow> None
      | Inr c \<Rightarrow> if c = CHR ''a'' then a else b)"

definition journal_put :: "char \<Rightarrow> 'v journal_slot \<Rightarrow> 'v journal_slot \<times> 'v journal_slot \<Rightarrow> 'v journal_slot \<times> 'v journal_slot" where
  "journal_put c s ab = (if c = CHR ''a'' then (s, snd ab) else (fst ab, s))"

definition journal_wf :: "'v journal_slot \<times> 'v journal_slot \<Rightarrow> bool" where
  "journal_wf ab \<longleftrightarrow>
     (\<forall>s \<in> {fst ab, snd ab}. s \<noteq> None \<longrightarrow> slot_generation s \<noteq> 0) \<and>
     (fst ab \<noteq> None \<and> snd ab \<noteq> None \<longrightarrow> slot_generation (fst ab) \<noteq> slot_generation (snd ab))"

inductive journal_step :: "'v journal_slot \<times> 'v journal_slot \<Rightarrow> 'v journal_slot \<times> 'v journal_slot \<Rightarrow> bool" where
  complete: "rns_storage_record_next_slot (fst ab \<noteq> None) (slot_generation (fst ab))
      (snd ab \<noteq> None) (slot_generation (snd ab)) = Inr (c, g) \<Longrightarrow>
    journal_step ab (journal_put c (Some (g, v)) ab)"
| torn: "rns_storage_record_next_slot (fst ab \<noteq> None) (slot_generation (fst ab))
      (snd ab \<noteq> None) (slot_generation (snd ab)) = Inr (c, g) \<Longrightarrow>
    journal_step ab (journal_put c None ab)"

lemma plus_one_greater: "x \<noteq> - 1 \<Longrightarrow> x < (x :: u32) + 1"
  by (meson inc_less_eq_triv_imp verit_comp_simplify1(3))

lemma next_slot_put:
  assumes "journal_wf ab" and next_slot: "rns_storage_record_next_slot (fst ab \<noteq> None)
      (slot_generation (fst ab)) (snd ab \<noteq> None) (slot_generation (snd ab)) = Inr (c, g)"
  shows "journal_wf (journal_put c (Some (g, v)) ab)" "journal_wf (journal_put c None ab)"
    "case_prod journal_read (journal_put c (Some (g, v)) ab) = Some (g, v)"
    "case_prod journal_read (journal_put c None ab) = case_prod journal_read ab"
proof -
  obtain a b where ab: "ab = (a, b)" by fastforce
  have wrap: "x + 1 \<noteq> 0" if "x \<noteq> - 1" for x :: u32
    using plus_one_greater [OF that] by (metis not_less_zero word_not_simps(1))
  show "journal_wf (journal_put c (Some (g, v)) ab)" "journal_wf (journal_put c None ab)"
    "case_prod journal_read (journal_put c (Some (g, v)) ab) = Some (g, v)"
    "case_prod journal_read (journal_put c None ab) = case_prod journal_read ab"
    using assms wrap plus_one_greater [of "slot_generation a"] plus_one_greater [of "slot_generation b"]
    by (auto simp: ab journal_wf_def journal_put_def journal_read_def rns_storage_record_next_slot_def
        rns_storage_record_select_slot_def slot_generation_def Let_def split: if_splits option.splits)
qed

lemma journal_reachable_wf: "journal_step\<^sup>*\<^sup>* (None, None) ab \<Longrightarrow> journal_wf ab"
proof (induction rule: rtranclp_induct)
  case base
  then show ?case by (simp add: journal_wf_def)
next
  case (step ab ab')
  from step.hyps(2) show ?case
    by cases (use next_slot_put [OF step.IH] in blast)+
qed

text \<open>
  C34. The journal survives interruption: in every state reachable from an empty journal by completed
  and interrupted writes, a further completed write is what is read afterwards, and an interrupted
  one leaves what was read before it.
\<close>

theorem journal_crash_safe:
  assumes "journal_step\<^sup>*\<^sup>* (None, None) ab"
    and "rns_storage_record_next_slot (fst ab \<noteq> None) (slot_generation (fst ab))
           (snd ab \<noteq> None) (slot_generation (snd ab)) = Inr (c, g)"
  shows "case_prod journal_read (journal_put c (Some (g, v)) ab) = Some (g, v) \<and>
         case_prod journal_read (journal_put c None ab) = case_prod journal_read ab"
  using next_slot_put [OF journal_reachable_wf [OF assms(1)] assms(2)] by blast

theorem journal_crash_safe_witness:
  "case_prod journal_read (journal_put CHR ''b'' (Some (2, 8 :: nat)) (Some (1, 7), None)) = Some (2, 8)"
proof -
  have "journal_step (None, None) (journal_put CHR ''a'' (Some (1, 7 :: nat)) (None, None))"
    by (rule journal_step.complete) (simp add: rns_storage_record_next_slot_def)
  then have reach: "journal_step\<^sup>*\<^sup>* (None, None) (Some (1, 7 :: nat), None)"
    by (auto simp: journal_put_def)
  show ?thesis
    by (rule journal_crash_safe [OF reach, THEN conjunct1])
       (simp add: rns_storage_record_next_slot_def slot_generation_def)
qed

end
