(* ===== verification/Path_Store.thy ===== *)
theory Path_Store
  imports Transport_Tables Storage_Record
begin

text \<open>
  Snapshots of the path table (\<^verbatim>\<open>src/transport/path_store.c\<close>): the encoder of live paths
  and the transactional decoder. Times are converted between doubles in seconds and
  \<^verbatim>\<open>uint64_t\<close> milliseconds. The conversion of a double outside the range of
  \<^verbatim>\<open>uint64_t\<close>, undefined in C, wraps in the model; the range test of \<^verbatim>\<open>seconds_to_ms\<close> lets
  one such value through, its bound itself, whose product with 1000 rounds to \<open>2 ^ 64\<close>.
\<close>

abbreviation (input) PATH_STORE_HEADER_SIZE :: nat where "PATH_STORE_HEADER_SIZE \<equiv> 32"
abbreviation (input) PATH_STORE_RECORD_BASE_SIZE :: nat where "PATH_STORE_RECORD_BASE_SIZE \<equiv> 104"
abbreviation (input) PATH_STORE_VERSION :: u16 where "PATH_STORE_VERSION \<equiv> 2"

definition path_store_magic :: bytes where
  "path_store_magic = [0x52, 0x4e, 0x53, 0x50, 0x41, 0x54, 0x48, 0x31]"

definition put16 :: "u16 \<Rightarrow> bytes" where
  "put16 v = [ucast (drop_bit 8 v), ucast v]"

definition put32 :: "u32 \<Rightarrow> bytes" where
  "put32 v = [ucast (drop_bit 24 v), ucast (drop_bit 16 v), ucast (drop_bit 8 v), ucast v]"

definition put64 :: "u64 \<Rightarrow> bytes" where
  "put64 v = be_put 8 v"

definition get16 :: "bytes \<Rightarrow> u16" where
  "get16 bs = push_bit 8 (ucast (bs ! 0)) OR ucast (bs ! 1)"

definition get32 :: "bytes \<Rightarrow> u32" where
  "get32 bs = push_bit 24 (ucast (bs ! 0)) OR push_bit 16 (ucast (bs ! 1)) OR
              push_bit 8 (ucast (bs ! 2)) OR ucast (bs ! 3)"

definition get64 :: "bytes \<Rightarrow> u64" where
  "get64 bs = be_get (take 8 bs)"

definition crc32_bytes :: "bytes \<Rightarrow> u32" where
  "crc32_bytes data = NOT (foldl crc32_byte (- 1) data)"

definition blob_timebase :: "bytes \<Rightarrow> u64" where
  "blob_timebase blob = be_get (bytes_at 5 5 blob)"

definition u64_of_double :: "double \<Rightarrow> u64" where
  "u64_of_double d = (case d of Fin x \<Rightarrow> of_int \<lfloor>x\<rfloor> | _ \<Rightarrow> 0)"

definition seconds_to_ms :: "rounding \<Rightarrow> double \<Rightarrow> u64 option" where
  "seconds_to_ms rnd seconds =
     (if \<not> isfinite seconds \<or> dlt seconds (Fin 0) \<or>
         dgt seconds (dmul_nonneg rnd (1 / 1000) (rnd 18446744073709551615)) then None
      else Some (u64_of_double (dmul_nonneg rnd 1000 seconds)))"

definition ms_to_seconds :: "rounding \<Rightarrow> u64 \<Rightarrow> double" where
  \<comment> \<open>\<^verbatim>\<open>(double)ms / 1000.0\<close>\<close>
  "ms_to_seconds rnd ms = dmul_nonneg rnd (1 / 1000) (rnd (of_nat (unat ms)))"

section \<open>Encoding\<close>

definition path_record_size :: "rns_path_entry \<Rightarrow> nat" where
  "path_record_size e = PATH_STORE_RECORD_BASE_SIZE + length (pe_random_blobs e) * 10 +
     (if pe_has_identity e then 64 else 0)"

definition path_stored :: "double \<Rightarrow> rns_path_entry \<Rightarrow> bool" where
  \<comment> \<open>the entries that are not skipped\<close>
  "path_stored now e \<longleftrightarrow> pe_occupied e \<and> \<not> dle (pe_expires_at e) now"

fun path_store_size :: "double \<Rightarrow> rns_path_entry list \<Rightarrow> nat \<Rightarrow> nat \<Rightarrow> rns_status + nat \<times> nat" where
  "path_store_size now [] required count = Inr (required, count)"
| "path_store_size now (e # es) required count =
     (if \<not> path_stored now e then path_store_size now es required count
      else if length (pe_random_blobs e) = 0 \<or> length (pe_random_blobs e) > 16
      then Inl RNS_ERROR_INVALID_STATE
      else if path_record_size e > 65535 \<or> required > SIZE_MAX - path_record_size e - 2
      then Inl RNS_ERROR_OVERFLOW
      else path_store_size now es (required + 2 + path_record_size e) (Suc count))"

definition path_record_body :: "rns_path_entry \<Rightarrow> u64 \<Rightarrow> u64 \<Rightarrow> bytes" where
  "path_record_body e remaining_ms age_ms =
     pe_destination_hash e @ pe_next_hop e @ pe_announce_packet_hash e @
     put64 (pe_announce_timebase e) @ put64 (pe_interface_id e) @
     put32 (of_int (pe_interface_gravity e)) @ put64 remaining_ms @ put64 age_ms @
     [pe_hops e, if pe_unresponsive e then 1 else 0, of_nat (length (pe_random_blobs e)),
      if pe_has_identity e then 1 else 0] @
     concat (pe_random_blobs e) @ (if pe_has_identity e then pe_identity_public_key e else [])"

fun path_store_records :: "rounding \<Rightarrow> double \<Rightarrow> rns_path_entry list \<Rightarrow> bytes option" where
  "path_store_records rnd now [] = Some []"
| "path_store_records rnd now (e # es) =
     (if \<not> path_stored now e then path_store_records rnd now es
      else case (seconds_to_ms rnd (dsub rnd (pe_expires_at e) now),
                 seconds_to_ms rnd (if dgt now (pe_updated_at e) then dsub rnd now (pe_updated_at e) else Fin 0)) of
             (Some remaining_ms, Some age_ms) \<Rightarrow>
               map_option (\<lambda>rest. put16 (of_nat (path_record_size e)) @
                                  path_record_body e remaining_ms age_ms @ rest)
                 (path_store_records rnd now es)
           | _ \<Rightarrow> None)"

definition rns_path_store_encode ::
  "rounding \<Rightarrow> u64 \<Rightarrow> double \<Rightarrow> nat \<Rightarrow> rns_transport \<Rightarrow> rns_status \<times> nat \<times> nat \<times> bytes option" where
  "rns_path_store_encode rnd wall_time_ms now output_capacity t =
     (if tr_paths t = [] then (RNS_ERROR_INVALID_ARGUMENT, 0, 0, None)
      else if \<not> isfinite now then (RNS_ERROR_INVALID_STATE, 0, 0, None)
      else case path_store_size now (tr_paths t) PATH_STORE_HEADER_SIZE 0 of
             Inl status \<Rightarrow> (status, 0, 0, None)
           | Inr (required, count) \<Rightarrow>
               if count > 4294967295 \<or> required - PATH_STORE_HEADER_SIZE > 4294967295
               then (RNS_ERROR_OVERFLOW, 0, 0, None)
               else if required > output_capacity then (RNS_ERROR_OVERFLOW, required, count, None)
               else (case path_store_records rnd now (tr_paths t) of
                       None \<Rightarrow> (RNS_ERROR_INVALID_STATE, required, count, None)
                     | Some payload \<Rightarrow>
                         (RNS_OK, required, count,
                          Some (path_store_magic @ put16 PATH_STORE_VERSION @
                                put16 (of_nat PATH_STORE_HEADER_SIZE) @ put32 (of_nat count) @
                                put32 (of_nat (required - PATH_STORE_HEADER_SIZE)) @ put64 wall_time_ms @
                                put32 (crc32_bytes payload) @ payload))))"

section \<open>Decoding\<close>

definition duplicate_destination :: "rns_path_entry list \<Rightarrow> bytes \<Rightarrow> bool" where
  "duplicate_destination entries destination \<longleftrightarrow> (\<exists>e \<in> set entries. pe_destination_hash e = destination)"

definition record_blobs :: "bytes \<Rightarrow> nat \<Rightarrow> bytes list" where
  "record_blobs r n = map (\<lambda>i. bytes_at (PATH_STORE_RECORD_BASE_SIZE + i * 10) 10 r) [0..<n]"

definition latest_timebase :: "bytes list \<Rightarrow> u64" where
  "latest_timebase blobs =
     foldl (\<lambda>latest blob. if blob_timebase blob > latest then blob_timebase blob else latest) 0 blobs"

definition path_of_record ::
  "rounding \<Rightarrow> double \<Rightarrow> u64 \<Rightarrow> bool \<Rightarrow> bytes \<Rightarrow> rns_path_entry" where
  "path_of_record rnd now offline_ms has_identity r =
     (let blob_count = unat (r ! 102); remaining_ms = get64 (drop 84 r); age_ms = get64 (drop 92 r)
      in \<lparr>pe_destination_hash = take 16 r, pe_next_hop = bytes_at 16 16 r,
          pe_announce_packet_hash = bytes_at 32 32 r,
          pe_identity_public_key =
            (if has_identity then bytes_at (PATH_STORE_RECORD_BASE_SIZE + blob_count * 10) 64 r
             else replicate 64 0),
          pe_random_blobs = record_blobs r blob_count,
          pe_announce_timebase = get64 (drop 64 r), pe_interface_id = get64 (drop 72 r),
          pe_interface_gravity = sint (get32 (drop 80 r)), pe_hops = r ! 100,
          pe_has_identity = has_identity, pe_unresponsive = (r ! 101 \<noteq> 0),
          pe_updated_at = dsub rnd now (dadd rnd (ms_to_seconds rnd age_ms) (ms_to_seconds rnd offline_ms)),
          pe_expires_at = dadd rnd now (ms_to_seconds rnd (remaining_ms - offline_ms)),
          pe_occupied = True\<rparr>)"

fun path_store_load ::
  "rounding \<Rightarrow> u16 \<Rightarrow> double \<Rightarrow> u64 \<Rightarrow> u64 \<Rightarrow> nat \<Rightarrow> bytes \<Rightarrow> rns_path_entry list \<Rightarrow>
     rns_status + rns_path_entry list" where
  "path_store_load rnd version now offline_ms maximum_lifetime_ms 0 rest retained =
     (if rest \<noteq> [] then Inl RNS_ERROR_PROTOCOL else Inr retained)"
| "path_store_load rnd version now offline_ms maximum_lifetime_ms (Suc n) rest retained =
     (if length rest < 2 then Inl RNS_ERROR_PROTOCOL
      else let record_size = unat (get16 rest); r = drop 2 rest
           in if record_size < PATH_STORE_RECORD_BASE_SIZE \<or> record_size > length r
              then Inl RNS_ERROR_PROTOCOL
              else let blob_count = unat (r ! 102);
                       has_identity = (version \<ge> 2 \<and> r ! 103 = 1)
                   in if r ! 101 > 1 \<or> r ! 103 > (if version \<ge> 2 then 1 else 0) \<or> blob_count = 0 \<or>
                         blob_count > 16 \<or>
                         record_size \<noteq> PATH_STORE_RECORD_BASE_SIZE + blob_count * 10 +
                                       (if has_identity then 64 else 0) \<or>
                         duplicate_destination retained (take 16 r)
                      then Inl RNS_ERROR_PROTOCOL
                      else let remaining_ms = get64 (drop 84 r)
                           in if remaining_ms > maximum_lifetime_ms \<or>
                                 get64 (drop 64 r) \<noteq> latest_timebase (record_blobs r blob_count)
                              then Inl RNS_ERROR_PROTOCOL
                              else path_store_load rnd version now offline_ms maximum_lifetime_ms n
                                     (drop record_size r)
                                     (if remaining_ms > offline_ms
                                      then retained @ [path_of_record rnd now offline_ms has_identity r]
                                      else retained))"

definition rns_path_store_decode ::
  "rounding \<Rightarrow> u64 \<Rightarrow> double \<Rightarrow> bytes \<Rightarrow> rns_transport \<Rightarrow> rns_status \<times> nat \<times> rns_transport" where
  "rns_path_store_decode rnd wall_time_ms now input t =
     (if tr_paths t = [] then (RNS_ERROR_INVALID_ARGUMENT, 0, t)
      else if length input < PATH_STORE_HEADER_SIZE \<or> take 8 input \<noteq> path_store_magic \<or>
              (get16 (drop 8 input) \<noteq> 1 \<and> get16 (drop 8 input) \<noteq> PATH_STORE_VERSION) \<or>
              get16 (drop 10 input) \<noteq> of_nat PATH_STORE_HEADER_SIZE
      then (RNS_ERROR_PROTOCOL, 0, t)
      else let version = get16 (drop 8 input); declared_count = get32 (drop 12 input);
               payload_length = get32 (drop 16 input)
           in if unat declared_count > cfg_path_capacity (tr_config t) \<or>
                 unat payload_length \<noteq> length input - PATH_STORE_HEADER_SIZE \<or>
                 crc32_bytes (drop PATH_STORE_HEADER_SIZE input) \<noteq> get32 (drop 28 input)
              then (RNS_ERROR_PROTOCOL, 0, t)
              else if \<not> isfinite now then (RNS_ERROR_INVALID_STATE, 0, t)
              else let saved_wall_ms = get64 (drop 20 input);
                       offline_ms = (if wall_time_ms \<ge> saved_wall_ms then wall_time_ms - saved_wall_ms else 0)
                   in (case seconds_to_ms rnd (cfg_path_lifetime (tr_config t)) of
                         None \<Rightarrow> (RNS_ERROR_INVALID_STATE, 0, t)
                       | Some maximum_lifetime_ms \<Rightarrow>
                           (case path_store_load rnd version now offline_ms maximum_lifetime_ms
                                   (unat declared_count) (drop PATH_STORE_HEADER_SIZE input) [] of
                              Inl status \<Rightarrow> (status, 0, t)
                            | Inr retained \<Rightarrow>
                                (RNS_OK, length retained,
                                 t\<lparr>tr_paths := retained @
                                     replicate (cfg_path_capacity (tr_config t) - length retained) zero_path\<rparr>))))"

section \<open>Fields\<close>

lemma put_be: "put16 v = be_put 2 v" "put32 w = be_put 4 w" "put64 x = be_put 8 x"
  using put_u16_be put_u32_be by (simp_all add: put16_def put32_def put64_def put_u16_def put_u32_def)

lemma get_be: "2 \<le> length bs \<Longrightarrow> get16 bs = be_get (take 2 bs)" "4 \<le> length bs \<Longrightarrow> get32 bs = be_get (take 4 bs)"
  using get_u16_be get_u32_be by (simp_all add: get16_def get32_def get_u16_def get_u32_def)

lemma length_put [simp]: "length (put16 v) = 2" "length (put32 w) = 4" "length (put64 x) = 8"
  by (simp_all add: put_be)

lemma get_put [simp]: "get16 (put16 v @ rest) = v" "get32 (put32 w @ rest) = w" "get64 (put64 x @ rest) = x"
  by (simp_all add: get_be put_be get64_def)

lemma unat_of_nat_small:
  "n < 65536 \<Longrightarrow> unat (of_nat n :: u16) = n" "n < 4294967296 \<Longrightarrow> unat (of_nat n :: u32) = n"
  by (simp_all add: unsigned_of_nat take_bit_nat_eq_self_iff)

text \<open>Blocks of equal size, one after the other.\<close>

section \<open>Records\<close>

text \<open>An entry of the sizes that the C type has.\<close>

definition path_sized :: "rns_path_entry \<Rightarrow> bool" where
  "path_sized e \<longleftrightarrow>
     length (pe_destination_hash e) = 16 \<and> length (pe_next_hop e) = 16 \<and>
     length (pe_announce_packet_hash e) = 32 \<and> length (pe_identity_public_key e) = 64 \<and>
     (\<forall>b \<in> set (pe_random_blobs e). length b = 10) \<and>
     0 < length (pe_random_blobs e) \<and> length (pe_random_blobs e) \<le> 16 \<and>
     - 2147483648 \<le> pe_interface_gravity e \<and> pe_interface_gravity e < 2147483648"

lemma length_record_body: "path_sized e \<Longrightarrow> length (path_record_body e remaining age) = path_record_size e"
  by (auto simp: path_sized_def path_record_body_def path_record_size_def length_concat_fixed)

lemma path_record_size_bounds: "path_sized e \<Longrightarrow> 104 \<le> path_record_size e \<and> path_record_size e \<le> 328"
  by (auto simp: path_sized_def path_record_size_def)

lemma record_body_fields:
  fixes remaining age :: u64 and rest :: bytes
  assumes "path_sized e"
  defines "r \<equiv> path_record_body e remaining age @ rest"
  shows "take 16 r = pe_destination_hash e" "bytes_at 16 16 r = pe_next_hop e"
    "bytes_at 32 32 r = pe_announce_packet_hash e" "get64 (drop 64 r) = pe_announce_timebase e"
    "get64 (drop 72 r) = pe_interface_id e" "get32 (drop 80 r) = of_int (pe_interface_gravity e)"
    "get64 (drop 84 r) = remaining" "get64 (drop 92 r) = age" "r ! 100 = pe_hops e"
    "r ! 101 = (if pe_unresponsive e then 1 else 0)" "unat (r ! 102) = length (pe_random_blobs e)"
    "r ! 103 = (if pe_has_identity e then 1 else 0)"
    "drop 104 r = concat (pe_random_blobs e) @ (if pe_has_identity e then pe_identity_public_key e else []) @ rest"
proof -
  note sized = assms(1) [unfolded path_sized_def]
  have "unat (of_nat (length (pe_random_blobs e)) :: byte) = length (pe_random_blobs e)"
    using sized by (intro unat_of_nat_byte) auto
  then show "take 16 r = pe_destination_hash e" "bytes_at 16 16 r = pe_next_hop e"
    "bytes_at 32 32 r = pe_announce_packet_hash e" "get64 (drop 64 r) = pe_announce_timebase e"
    "get64 (drop 72 r) = pe_interface_id e" "get32 (drop 80 r) = of_int (pe_interface_gravity e)"
    "get64 (drop 84 r) = remaining" "get64 (drop 92 r) = age" "r ! 100 = pe_hops e"
    "r ! 101 = (if pe_unresponsive e then 1 else 0)" "unat (r ! 102) = length (pe_random_blobs e)"
    "r ! 103 = (if pe_has_identity e then 1 else 0)"
    "drop 104 r = concat (pe_random_blobs e) @ (if pe_has_identity e then pe_identity_public_key e else []) @ rest"
    using sized by (simp_all add: r_def path_record_body_def bytes_at_def nth_append)
qed

lemma record_body_blobs:
  assumes "path_sized e"
  shows "record_blobs (path_record_body e remaining age @ rest) (length (pe_random_blobs e)) = pe_random_blobs e"
proof (rule nth_equalityI)
  fix i assume "i < length (record_blobs (path_record_body e remaining age @ rest) (length (pe_random_blobs e)))"
  then have i: "i < length (pe_random_blobs e)" by (simp add: record_blobs_def)
  have "bytes_at (104 + i * 10) 10 r = bytes_at (i * 10) 10 (drop 104 r)" for r :: bytes
    by (simp add: bytes_at_def add.commute)
  then show "record_blobs (path_record_body e remaining age @ rest) (length (pe_random_blobs e)) ! i =
      pe_random_blobs e ! i"
    using i assms bytes_at_concat [of "pe_random_blobs e" 10 i]
    by (simp add: record_blobs_def record_body_fields [OF assms] path_sized_def del: drop_append)
qed (simp add: record_blobs_def)

section \<open>Snapshots\<close>

definition remaining_ms_of :: "rounding \<Rightarrow> double \<Rightarrow> rns_path_entry \<Rightarrow> u64 option" where
  "remaining_ms_of rnd now e = seconds_to_ms rnd (dsub rnd (pe_expires_at e) now)"

definition age_ms_of :: "rounding \<Rightarrow> double \<Rightarrow> rns_path_entry \<Rightarrow> u64 option" where
  "age_ms_of rnd now e =
     seconds_to_ms rnd (if dgt now (pe_updated_at e) then dsub rnd now (pe_updated_at e) else Fin 0)"

text \<open>The entry that comes back: its times moved to the new clock, and no key without identity.\<close>

definition path_restored :: "rounding \<Rightarrow> double \<Rightarrow> double \<Rightarrow> u64 \<Rightarrow> rns_path_entry \<Rightarrow> rns_path_entry" where
  "path_restored rnd saved now offline_ms e =
     e\<lparr>pe_identity_public_key := (if pe_has_identity e then pe_identity_public_key e else replicate 64 0),
       pe_updated_at := dsub rnd now (dadd rnd (ms_to_seconds rnd (the (age_ms_of rnd saved e)))
                                               (ms_to_seconds rnd offline_ms)),
       pe_expires_at := dadd rnd now (ms_to_seconds rnd (the (remaining_ms_of rnd saved e) - offline_ms)),
       pe_occupied := True\<rparr>"

lemma sint_of_int_gravity:
  "- 2147483648 \<le> g \<Longrightarrow> g < 2147483648 \<Longrightarrow> sint (of_int g :: u32) = g"
  by (simp add: signed_of_int signed_take_bit_int_eq_self_iff)

lemma path_of_record_body:
  assumes "path_sized e" "remaining_ms_of rnd saved e = Some remaining" "age_ms_of rnd saved e = Some age"
    "pe_occupied e"
  shows "path_of_record rnd now offline (pe_has_identity e) (path_record_body e remaining age @ rest) =
         path_restored rnd saved now offline e"
proof -
  have key: "bytes_at (104 + length (pe_random_blobs e) * 10) 64 (path_record_body e remaining age @ rest) =
      pe_identity_public_key e" if "pe_has_identity e"
  proof -
    have "length (concat (pe_random_blobs e)) = length (pe_random_blobs e) * 10"
      using assms(1) by (intro length_concat_fixed) (simp add: path_sized_def)
    then show ?thesis
      using that assms(1) record_body_fields(13) [OF assms(1), of remaining age rest]
      by (simp add: bytes_at_def add.commute [of 104] path_sized_def flip: drop_drop del: drop_append) simp
  qed
  show ?thesis
    by (rule rns_path_entry.equality)
       (use key assms(1,4) in \<open>simp_all add: path_of_record_def path_restored_def Let_def
          record_body_fields [OF assms(1)] record_body_blobs [OF assms(1)] assms(2,3)
          sint_of_int_gravity path_sized_def del: drop_append take_append\<close>)
qed

lemma load_record:
  assumes sized: "path_sized e" "pe_occupied e"
    and ms: "remaining_ms_of rnd saved e = Some remaining" "age_ms_of rnd saved e = Some age"
  shows "path_store_load rnd 2 now offline limit (Suc n)
           (put16 (of_nat (path_record_size e)) @ path_record_body e remaining age @ rest) retained =
         (if duplicate_destination retained (pe_destination_hash e) \<or> remaining > limit \<or>
             pe_announce_timebase e \<noteq> latest_timebase (pe_random_blobs e) then Inl RNS_ERROR_PROTOCOL
          else path_store_load rnd 2 now offline limit n rest
                 (if remaining > offline then retained @ [path_restored rnd saved now offline e] else retained))"
proof -
  let ?r = "path_record_body e remaining age @ rest"
  have size: "unat (of_nat (path_record_size e) :: u16) = path_record_size e"
    using path_record_size_bounds [OF sized(1)] by (intro unat_of_nat_small) simp
  have skip: "drop (path_record_size e) ?r = rest" using length_record_body [OF sized(1)] by simp
  have len: "path_record_size e \<le> length ?r" "104 \<le> path_record_size e"
    using length_record_body [OF sized(1)] path_record_size_bounds [OF sized(1)] by simp_all
  have has: "(2 \<le> (2 :: u16) \<and> (if pe_has_identity e then 1 else 0 :: byte) = 1) = pe_has_identity e" by simp
  have drop2: "drop 2 (put16 (of_nat (path_record_size e)) @ ?r) = ?r" by simp
  have n: "pe_random_blobs e \<noteq> []" "length (pe_random_blobs e) \<le> 16" using sized(1) by (auto simp: path_sized_def)
  show ?thesis
    unfolding path_store_load.simps(2) Let_def drop2 get_put(1) size skip
      record_body_fields [OF sized(1)] has record_body_blobs [OF sized(1)] path_of_record_body [OF sized(1) ms sized(2)]
    using len n by (auto simp: path_record_size_def)
qed

definition snapshot_ok :: "rounding \<Rightarrow> double \<Rightarrow> u64 \<Rightarrow> rns_path_entry \<Rightarrow> bool" where
  "snapshot_ok rnd saved limit e \<longleftrightarrow>
     path_sized e \<and> pe_announce_timebase e = latest_timebase (pe_random_blobs e) \<and>
     (\<forall>remaining. remaining_ms_of rnd saved e = Some remaining \<longrightarrow> remaining \<le> limit)"

definition snapshot_paths :: "rounding \<Rightarrow> double \<Rightarrow> double \<Rightarrow> u64 \<Rightarrow> rns_path_entry list \<Rightarrow> rns_path_entry list" where
  "snapshot_paths rnd saved now offline es =
     map (path_restored rnd saved now offline)
       (filter (\<lambda>e. path_stored saved e \<and> offline < the (remaining_ms_of rnd saved e)) es)"

lemma records_Cons:
  "path_store_records rnd saved (e # es) = Some payload \<longleftrightarrow>
     (if \<not> path_stored saved e then path_store_records rnd saved es = Some payload
      else \<exists>remaining age rest. remaining_ms_of rnd saved e = Some remaining \<and> age_ms_of rnd saved e = Some age \<and>
             path_store_records rnd saved es = Some rest \<and>
             payload = put16 (of_nat (path_record_size e)) @ path_record_body e remaining age @ rest)"
  by (auto simp: remaining_ms_of_def age_ms_of_def split: option.splits)

lemma snapshot_paths_Cons:
  "snapshot_paths rnd saved now offline (e # es) =
     (if path_stored saved e \<and> offline < the (remaining_ms_of rnd saved e)
      then path_restored rnd saved now offline e # snapshot_paths rnd saved now offline es
      else snapshot_paths rnd saved now offline es)"
  by (simp add: snapshot_paths_def)

lemma load_records:
  assumes "path_store_records rnd saved es = Some payload"
    and "\<forall>e \<in> set es. path_stored saved e \<longrightarrow> snapshot_ok rnd saved limit e"
    and "distinct (map pe_destination_hash (filter (path_stored saved) es))"
    and "\<forall>e \<in> set (filter (path_stored saved) es). \<not> duplicate_destination retained (pe_destination_hash e)"
  shows "path_store_load rnd 2 now offline limit (length (filter (path_stored saved) es)) payload retained =
         Inr (retained @ snapshot_paths rnd saved now offline es)"
  using assms
proof (induction es arbitrary: payload retained)
  case Nil
  then show ?case by (simp add: snapshot_paths_def)
next
  case (Cons e es)
  show ?case
  proof (cases "path_stored saved e")
    case False
    with Cons show ?thesis by (simp add: snapshot_paths_Cons)
  next
    case True
    obtain remaining age rest where ms: "remaining_ms_of rnd saved e = Some remaining"
      "age_ms_of rnd saved e = Some age" and rest: "path_store_records rnd saved es = Some rest"
      and payload: "payload = put16 (of_nat (path_record_size e)) @ path_record_body e remaining age @ rest"
      using Cons.prems(1) True unfolding records_Cons by auto
    have ok: "path_sized e" "pe_occupied e" "pe_announce_timebase e = latest_timebase (pe_random_blobs e)"
      "remaining \<le> limit"
      using Cons.prems(2) True ms by (auto simp: snapshot_ok_def path_stored_def)
    let ?kept = "if remaining > offline then retained @ [path_restored rnd saved now offline e] else retained"
    have "path_store_load rnd 2 now offline limit (length (filter (path_stored saved) es)) rest ?kept =
        Inr (?kept @ snapshot_paths rnd saved now offline es)"
      using Cons.prems True
      by (intro Cons.IH [OF rest]) (auto simp: duplicate_destination_def path_restored_def)
    then show ?thesis
      using True ok ms Cons.prems(4) load_record [OF ok(1,2) ms, of now offline limit _ rest retained]
      by (simp add: payload snapshot_paths_Cons del: path_store_load.simps)
  qed
qed

lemma path_store_size_records:
  assumes "path_store_size saved es required count = Inr (written, n)"
    and "path_store_records rnd saved es = Some payload"
    and "\<forall>e \<in> set es. path_stored saved e \<longrightarrow> path_sized e"
  shows "written = required + length payload \<and> n = count + length (filter (path_stored saved) es)"
  using assms
proof (induction es arbitrary: required count payload)
  case Nil
  then show ?case by simp
next
  case (Cons e es)
  show ?case
  proof (cases "path_stored saved e")
    case False
    with Cons show ?thesis by simp
  next
    case True
    with Cons.prems(2) obtain remaining age rest where rest: "path_store_records rnd saved es = Some rest"
      "payload = put16 (of_nat (path_record_size e)) @ path_record_body e remaining age @ rest"
      unfolding records_Cons by auto
    have "path_store_size saved es (required + 2 + path_record_size e) (Suc count) = Inr (written, n)"
      using Cons.prems(1) True by (auto split: if_splits)
    from Cons.IH [OF this rest(1)] Cons.prems(3) True rest(2) show ?thesis
      by (simp add: length_record_body)
  qed
qed

lemma encode_OK:
  assumes "rns_path_store_encode rnd wall saved capacity t = (RNS_OK, written, n, Some raw)"
    and "\<forall>e \<in> set (tr_paths t). path_stored saved e \<longrightarrow> path_sized e"
  obtains payload where "path_store_records rnd saved (tr_paths t) = Some payload"
    "n = length (filter (path_stored saved) (tr_paths t))" "n < 4294967296" "length payload < 4294967296"
    "written = 32 + length payload" "written \<le> capacity"
    "raw = path_store_magic @ put16 2 @ put16 32 @ put32 (of_nat n) @ put32 (of_nat (length payload)) @
           put64 wall @ put32 (crc32_bytes payload) @ payload"
proof -
  obtain payload where records: "path_store_records rnd saved (tr_paths t) = Some payload"
    and size: "path_store_size saved (tr_paths t) 32 0 = Inr (written, n)"
    and limits: "n < 4294967296" "written - 32 < 4294967296" "written \<le> capacity"
    and raw: "raw = path_store_magic @ put16 2 @ put16 32 @ put32 (of_nat n) @ put32 (of_nat (written - 32)) @
           put64 wall @ put32 (crc32_bytes payload) @ payload"
    using assms(1)
    by (auto simp: rns_path_store_encode_def split: if_splits sum.splits prod.splits option.splits)
  from path_store_size_records [OF size records assms(2)] records limits raw that show thesis by auto
qed

lemma decode_header:
  assumes "raw = path_store_magic @ put16 2 @ put16 32 @ put32 (of_nat n) @ put32 (of_nat (length payload)) @
           put64 wall @ put32 (crc32_bytes payload) @ payload"
    and "n < 4294967296" "length payload < 4294967296" "tr_paths t \<noteq> []" "n \<le> cfg_path_capacity (tr_config t)"
    and "isfinite now" "seconds_to_ms rnd (cfg_path_lifetime (tr_config t)) = Some limit"
  shows "rns_path_store_decode rnd wall' now raw t =
         (case path_store_load rnd 2 now (if wall \<le> wall' then wall' - wall else 0) limit n payload [] of
            Inl status \<Rightarrow> (status, 0, t)
          | Inr retained \<Rightarrow> (RNS_OK, length retained,
              t\<lparr>tr_paths := retained @ replicate (cfg_path_capacity (tr_config t) - length retained) zero_path\<rparr>))"
proof -
  have magic: "length path_store_magic = 8" by (simp add: path_store_magic_def)
  have "take 8 raw = path_store_magic" "get16 (drop 8 raw) = 2" "get16 (drop 10 raw) = 32"
    "get32 (drop 12 raw) = of_nat n" "get32 (drop 16 raw) = of_nat (length payload)"
    "get64 (drop 20 raw) = wall" "get32 (drop 28 raw) = crc32_bytes payload" "drop 32 raw = payload"
    "length raw = 32 + length payload"
    using magic by (simp_all add: assms(1))
  then show ?thesis
    using assms(2-7) by (simp add: rns_path_store_decode_def Let_def unat_of_nat_small)
qed

text \<open>
  C29. A snapshot of the path table restores it: when the encoder succeeds on a well-formed table
  whose live paths carry the timebase of their newest blob and lifetimes within the configured one,
  the decoder accepts the snapshot in any table with room for it, and the table then holds exactly
  the paths that were live and outlast the time offline, in order, with their routes, histories and
  identities, and with the deadlines and ages moved to the new clock.
\<close>

theorem path_store_roundtrip:
  assumes "transport_wf t"
    and "\<forall>e \<in> set (tr_paths t). path_stored saved e \<longrightarrow> snapshot_ok rnd saved limit e"
    and "rns_path_store_encode rnd wall saved capacity t = (RNS_OK, written, n, Some raw)"
    and "tr_paths t' \<noteq> []" "n \<le> cfg_path_capacity (tr_config t')" "isfinite now"
    and "seconds_to_ms rnd (cfg_path_lifetime (tr_config t')) = Some limit"
    and paths_def: "paths = snapshot_paths rnd saved now (if wall \<le> wall' then wall' - wall else 0) (tr_paths t)"
  shows "length raw = written \<and> written \<le> capacity \<and>
         rns_path_store_decode rnd wall' now raw t' =
           (RNS_OK, length paths,
            t'\<lparr>tr_paths := paths @ replicate (cfg_path_capacity (tr_config t') - length paths) zero_path\<rparr>)"
proof -
  have sized: "\<forall>e \<in> set (tr_paths t). path_stored saved e \<longrightarrow> path_sized e"
    using assms(2) by (auto simp: snapshot_ok_def)
  obtain payload where payload: "path_store_records rnd saved (tr_paths t) = Some payload"
    "n = length (filter (path_stored saved) (tr_paths t))" "n < 4294967296" "length payload < 4294967296"
    "written = 32 + length payload" "written \<le> capacity"
    "raw = path_store_magic @ put16 2 @ put16 32 @ put32 (of_nat n) @ put32 (of_nat (length payload)) @
           put64 wall @ put32 (crc32_bytes payload) @ payload"
    by (rule encode_OK [OF assms(3) sized])
  have "distinct (map pe_destination_hash (filter (path_stored saved) (tr_paths t)))"
    using assms(1) distinct_keys_map [of pe_occupied pe_destination_hash "tr_paths t" "path_stored saved"]
    by (auto simp: transport_wf_def path_stored_def)
  then have "path_store_load rnd 2 now (if wall \<le> wall' then wall' - wall else 0) limit n payload [] = Inr paths"
    using load_records [OF payload(1) assms(2), of "[]"] payload(2)
    by (simp add: duplicate_destination_def paths_def)
  then show ?thesis
    using decode_header [OF payload(7,3,4) assms(4,5,6,7), of wall'] payload(5-7)
    by (simp add: path_store_magic_def)
qed

definition loaded_ok :: "rns_path_entry list \<Rightarrow> bool" where
  "loaded_ok es \<longleftrightarrow> distinct (map pe_destination_hash es) \<and>
     (\<forall>e \<in> set es. pe_occupied e \<and> 0 < length (pe_random_blobs e) \<and> length (pe_random_blobs e) \<le> 16 \<and>
        pe_announce_timebase e = latest_timebase (pe_random_blobs e))"

lemma path_store_load_sound:
  assumes "path_store_load rnd version now offline limit n rest retained = Inr es" "loaded_ok retained"
  shows "loaded_ok es \<and> length es \<le> length retained + n"
  using assms
proof (induction rnd version now offline limit n rest retained rule: path_store_load.induct)
  case (1 rnd version now offline limit rest retained)
  then show ?case by (simp split: if_splits)
next
  case (2 rnd version now offline limit n rest retained)
  let ?r = "drop 2 rest"
  let ?e = "path_of_record rnd now offline (version \<ge> 2 \<and> ?r ! 103 = 1) ?r"
  let ?kept = "if get64 (drop 84 ?r) > offline then retained @ [?e] else retained"
  from "2.prems"(1) have ok: "\<not> length rest < 2"
    "\<not> (unat (get16 rest) < 104 \<or> unat (get16 rest) > length ?r)"
    and fields: "\<not> (?r ! 101 > 1 \<or> ?r ! 103 > (if version \<ge> 2 then 1 else 0) \<or> unat (?r ! 102) = 0 \<or>
        unat (?r ! 102) > 16 \<or> unat (get16 rest) \<noteq> 104 + unat (?r ! 102) * 10 +
          (if version \<ge> 2 \<and> ?r ! 103 = 1 then 64 else 0) \<or> duplicate_destination retained (take 16 ?r))"
    and times: "\<not> (get64 (drop 84 ?r) > limit \<or>
        get64 (drop 64 ?r) \<noteq> latest_timebase (record_blobs ?r (unat (?r ! 102))))"
    and rest: "path_store_load rnd version now offline limit n (drop (unat (get16 rest)) ?r) ?kept = Inr es"
    unfolding path_store_load.simps(2) Let_def by (auto split: if_split_asm)
  have "loaded_ok ?kept"
    using "2.prems"(2) fields times
    by (auto simp: loaded_ok_def path_of_record_def record_blobs_def duplicate_destination_def Let_def)
  from "2.IH" [OF ok(1) refl refl ok(2) refl refl fields refl times rest this]
  show ?case by (auto split: if_splits)
qed

lemma path_store_load_error:
  "path_store_load rnd version now offline limit n rest retained = Inl status \<Longrightarrow> status = RNS_ERROR_PROTOCOL"
proof (induction n arbitrary: rest retained)
  case 0
  then show ?case by (simp split: if_splits)
next
  case (Suc n)
  from Suc.prems Suc.IH show ?case
    unfolding path_store_load.simps(2) Let_def by (auto split: if_split_asm)
qed

lemma decode_OK_load:
  assumes "rns_path_store_decode rnd wall now input t = (RNS_OK, n, t')"
  obtains es offline limit where
    "path_store_load rnd (get16 (drop 8 input)) now offline limit (unat (get32 (drop 12 input))) (drop 32 input) [] = Inr es"
    "unat (get32 (drop 12 input)) \<le> cfg_path_capacity (tr_config t)"
    "t' = t\<lparr>tr_paths := es @ replicate (cfg_path_capacity (tr_config t) - length es) zero_path\<rparr>" "n = length es"
  using assms
  by (auto simp: rns_path_store_decode_def Let_def dest: path_store_load_error
      split: if_split_asm option.split_asm sum.split_asm)

text \<open>
  C30. Loading is a transaction, whatever bytes it is given: an error leaves the transport as it was,
  and a success changes the path table only, to one of the same capacity in which no destination
  occurs twice and every path has 1 to 16 blobs and the timebase of its newest one. This is less than
  the invariant the operations of the transport keep: the number of blobs is not compared with the
  configured history, and repeated blobs are not looked for.
\<close>

theorem path_store_decode_sound:
  assumes "rns_path_store_decode rnd wall now input t = (status, n, t')"
    and "length (tr_paths t) = cfg_path_capacity (tr_config t)"
  shows "if status = RNS_OK
         then \<exists>es. t' = t\<lparr>tr_paths := es @ replicate (length (tr_paths t) - length es) zero_path\<rparr> \<and>
                   n = length es \<and> length (tr_paths t') = length (tr_paths t) \<and> loaded_ok es
         else t' = t \<and> n = 0"
proof (cases "status = RNS_OK")
  case False
  with assms(1) show ?thesis
    by (auto simp: rns_path_store_decode_def Let_def split: if_split_asm option.split_asm sum.split_asm)
next
  case True
  obtain es version offline limit where load: "path_store_load rnd version now offline limit
      (unat (get32 (drop 12 input))) (drop 32 input) [] = Inr es"
    and room: "unat (get32 (drop 12 input)) \<le> cfg_path_capacity (tr_config t)"
    and t': "t' = t\<lparr>tr_paths := es @ replicate (cfg_path_capacity (tr_config t) - length es) zero_path\<rparr>"
      "n = length es"
    by (rule decode_OK_load [OF assms(1) [unfolded True]]) blast
  have "loaded_ok es" "length es \<le> unat (get32 (drop 12 input))"
    using path_store_load_sound [OF load] by (auto simp: loaded_ok_def)
  with True t' room assms(2) show ?thesis by auto
qed

lemma load_stale:
  assumes "path_store_records rnd saved es = Some payload"
    and "\<forall>e \<in> set es. path_stored saved e \<longrightarrow> path_sized e"
    and "e \<in> set es" "path_stored saved e" "pe_announce_timebase e \<noteq> latest_timebase (pe_random_blobs e)"
  shows "path_store_load rnd 2 now offline limit (length (filter (path_stored saved) es)) payload retained =
         Inl RNS_ERROR_PROTOCOL"
  using assms
proof (induction es arbitrary: payload retained)
  case Nil
  then show ?case by simp
next
  case (Cons f es)
  show ?case
  proof (cases "path_stored saved f")
    case False
    with Cons show ?thesis by auto
  next
    case True
    obtain remaining age rest where ms: "remaining_ms_of rnd saved f = Some remaining"
      "age_ms_of rnd saved f = Some age" and rest: "path_store_records rnd saved es = Some rest"
      and payload: "payload = put16 (of_nat (path_record_size f)) @ path_record_body f remaining age @ rest"
      using Cons.prems(1) True unfolding records_Cons by auto
    have ok: "path_sized f" "pe_occupied f" using Cons.prems(2) True by (auto simp: path_stored_def)
    have "pe_announce_timebase f \<noteq> latest_timebase (pe_random_blobs f) \<or> e \<in> set es"
      using Cons.prems(3,5) by auto
    then show ?thesis
      using True Cons.IH [OF rest _ _ Cons.prems(4,5)] Cons.prems(2)
      by (auto simp add: payload load_record [OF ok ms] simp del: path_store_load.simps)
  qed
qed

text \<open>
  C31. One path with an older timebase makes the whole snapshot unreadable: when some live path has a
  timebase that is not the newest of its blobs, as an unresponsive path has after an older announce
  replaced it, the encoder writes the snapshot and the decoder refuses it on every transport and at
  every time, so all paths are lost.
\<close>

theorem path_store_stale_unreadable:
  assumes "rns_path_store_encode rnd wall saved capacity t = (RNS_OK, written, n, Some raw)"
    and "\<forall>e \<in> set (tr_paths t). path_stored saved e \<longrightarrow> path_sized e"
    and "e \<in> set (tr_paths t)" "path_stored saved e" "pe_announce_timebase e \<noteq> latest_timebase (pe_random_blobs e)"
  shows "fst (rns_path_store_decode rnd wall' now raw t') \<noteq> RNS_OK"
proof
  assume OK: "fst (rns_path_store_decode rnd wall' now raw t') = RNS_OK"
  obtain payload where payload: "path_store_records rnd saved (tr_paths t) = Some payload"
    "n = length (filter (path_stored saved) (tr_paths t))" "n < 4294967296"
    and raw: "raw = path_store_magic @ put16 2 @ put16 32 @ put32 (of_nat n) @ put32 (of_nat (length payload)) @
           put64 wall @ put32 (crc32_bytes payload) @ payload"
    by (rule encode_OK [OF assms(1,2)])
  have fields: "get16 (drop 8 raw) = 2" "unat (get32 (drop 12 raw)) = n" "drop 32 raw = payload"
    using payload(3) by (simp_all add: raw path_store_magic_def unat_of_nat_small)
  obtain k u where "rns_path_store_decode rnd wall' now raw t' = (RNS_OK, k, u)"
    using OK by (metis prod.collapse)
  then obtain es offline limit where "path_store_load rnd 2 now offline limit n payload [] = Inr es"
    by (rule decode_OK_load) (use fields in auto)
  then show False using load_stale [OF payload(1) assms(2-5)] payload(2) by simp
qed

section \<open>A sample table\<close>

definition sample_announced :: "bytes list \<Rightarrow> u64 \<Rightarrow> rns_path_entry" where
  "sample_announced blobs timebase = zero_path\<lparr>pe_destination_hash := replicate 16 1, pe_next_hop := replicate 16 2,
     pe_announce_packet_hash := replicate 32 5, pe_random_blobs := blobs, pe_announce_timebase := timebase,
     pe_interface_id := 7, pe_hops := 3, pe_updated_at := Fin 1, pe_expires_at := Fin 101, pe_occupied := True\<rparr>"

abbreviation (input) sample_blob :: "byte \<Rightarrow> bytes" where
  "sample_blob k \<equiv> [0, 0, 0, 0, 0, 0, 0, 0, 0, k]"

definition sample_table :: "bytes list \<Rightarrow> u64 \<Rightarrow> rns_transport" where
  "sample_table blobs timebase = sample_transport\<lparr>tr_paths := [sample_announced blobs timebase, zero_path]\<rparr>"

lemma sample_announced_sized:
  "blobs \<noteq> [] \<Longrightarrow> length blobs \<le> 16 \<Longrightarrow> \<forall>b \<in> set blobs. length b = 10 \<Longrightarrow> path_sized (sample_announced blobs timebase)"
  by (simp add: path_sized_def sample_announced_def zero_path_def)

lemma sample_announced_stored: "path_stored (Fin 5) (sample_announced blobs timebase)" "\<not> path_stored (Fin 5) zero_path"
  by (simp_all add: path_stored_def sample_announced_def)

lemma sample_announced_ms:
  "remaining_ms_of Fin (Fin 5) (sample_announced blobs timebase) = Some 96000"
  "age_ms_of Fin (Fin 5) (sample_announced blobs timebase) = Some 4000"
  by (simp_all add: remaining_ms_of_def age_ms_of_def sample_announced_def seconds_to_ms_def dsub_def
      dmul_nonneg_def u64_of_double_def)

lemma sample_table_wf:
  "distinct blobs \<Longrightarrow> length blobs \<le> 2 \<Longrightarrow> transport_wf (sample_table blobs timebase)"
  using sample_transport_wf
  by (auto simp: transport_wf_def sample_table_def sample_transport_def sample_config_def sample_announced_def
      path_wf_def distinct_keys_filter)

lemma sample_table_encode:
  assumes "blobs \<noteq> []" "length blobs \<le> 2" "\<forall>b \<in> set blobs. length b = 10"
  shows "\<exists>written raw. rns_path_store_encode Fin 1000 (Fin 5) 4096 (sample_table blobs timebase) =
           (RNS_OK, written, 1, Some raw)"
proof -
  have size: "path_record_size (sample_announced blobs timebase) \<le> 328"
    using path_record_size_bounds [OF sample_announced_sized] assms by simp
  then have "path_store_size (Fin 5) (tr_paths (sample_table blobs timebase)) 32 0 =
      Inr (34 + path_record_size (sample_announced blobs timebase), 1)"
    using assms by (simp add: sample_table_def sample_announced_stored SIZE_MAX_def)
      (simp add: sample_announced_def)
  moreover have "\<exists>payload. path_store_records Fin (Fin 5) (tr_paths (sample_table blobs timebase)) = Some payload"
    using sample_announced_ms [of blobs timebase]
    by (simp add: sample_table_def sample_announced_stored remaining_ms_of_def age_ms_of_def)
  moreover have "tr_paths (sample_table blobs timebase) \<noteq> []" by (simp add: sample_table_def)
  ultimately show ?thesis using size by (auto simp: rns_path_store_encode_def)
qed

lemma sample_lifetime: "seconds_to_ms Fin (cfg_path_lifetime (tr_config (sample_table blobs timebase))) = Some 100000"
  by (simp add: sample_table_def sample_transport_def sample_config_def seconds_to_ms_def dmul_nonneg_def
      u64_of_double_def)

theorem path_store_roundtrip_witness:
  "case rns_path_store_encode Fin 1000 (Fin 5) 4096 (sample_table [sample_blob 9] 9) of
     (_, _, _, raw) \<Rightarrow> fst (rns_path_store_decode Fin 2000 (Fin 3) (the raw) sample_transport) = RNS_OK"
proof -
  let ?t = "sample_table [sample_blob 9] 9"
  obtain written raw where enc: "rns_path_store_encode Fin 1000 (Fin 5) 4096 ?t = (RNS_OK, written, 1, Some raw)"
    using sample_table_encode [of "[sample_blob 9]" 9] by auto
  have wf: "transport_wf ?t" by (rule sample_table_wf) simp_all
  have paths: "set (tr_paths ?t) = {sample_announced [sample_blob 9] 9, zero_path}" by (simp add: sample_table_def)
  have "pe_announce_timebase (sample_announced [sample_blob 9] 9) =
      latest_timebase (pe_random_blobs (sample_announced [sample_blob 9] 9))"
    by (simp add: sample_announced_def latest_timebase_def blob_timebase_def bytes_at_def be_get_def)
  then have ok: "\<forall>e \<in> set (tr_paths ?t). path_stored (Fin 5) e \<longrightarrow> snapshot_ok Fin (Fin 5) 100000 e"
    using sample_announced_sized [of "[sample_blob 9]" 9]
    by (simp add: paths snapshot_ok_def sample_announced_stored sample_announced_ms)
  have "tr_paths sample_transport \<noteq> []" "1 \<le> cfg_path_capacity (tr_config sample_transport)"
    by (simp_all add: sample_transport_def sample_config_def)
  moreover have "seconds_to_ms Fin (cfg_path_lifetime (tr_config sample_transport)) = Some 100000"
    using sample_lifetime by (simp add: sample_table_def)
  ultimately show ?thesis
    using path_store_roundtrip [OF wf ok enc _ _ _ _ refl, of sample_transport "Fin 3" 2000] enc by simp
qed

definition sample_empty_store :: bytes where
  "sample_empty_store = path_store_magic @ put16 2 @ put16 32 @ put32 0 @ put32 0 @ put64 1000 @ put32 (crc32_bytes [])"

lemma sample_empty_store_fields:
  "take 8 sample_empty_store = path_store_magic" "get16 (drop 8 sample_empty_store) = 2"
  "get16 (drop 10 sample_empty_store) = 32" "get32 (drop 12 sample_empty_store) = 0"
  "get32 (drop 16 sample_empty_store) = 0" "get32 (drop 28 sample_empty_store) = crc32_bytes []"
  "length sample_empty_store = 32"
  using get_put(2) [of "crc32_bytes []" "[]"]
  by (simp_all add: sample_empty_store_def path_store_magic_def)

theorem path_store_decode_sound_witness:
  "snd (snd (rns_path_store_decode Fin 0 (Fin 1) [1, 2, 3] (sample_table [sample_blob 9] 9))) =
     sample_table [sample_blob 9] 9 \<and>
   (\<exists>es. snd (snd (rns_path_store_decode Fin 2000 (Fin 1) sample_empty_store (sample_table [sample_blob 9] 9))) =
      (sample_table [sample_blob 9] 9)\<lparr>tr_paths :=
         es @ replicate (length (tr_paths (sample_table [sample_blob 9] 9)) - length es) zero_path\<rparr> \<and> loaded_ok es)"
proof -
  let ?t = "sample_table [sample_blob 9] 9"
  have size: "length (tr_paths ?t) = cfg_path_capacity (tr_config ?t)" "tr_paths ?t \<noteq> []"
    by (simp_all add: sample_table_def sample_transport_def sample_config_def)
  have bad: "rns_path_store_decode Fin 0 (Fin 1) [1, 2, 3] ?t = (RNS_ERROR_PROTOCOL, 0, ?t)"
    using size(2) by (simp add: rns_path_store_decode_def)
  obtain n t' where good: "rns_path_store_decode Fin 2000 (Fin 1) sample_empty_store ?t = (RNS_OK, n, t')"
    using size(2) sample_lifetime [of "[sample_blob 9]" 9]
    by (simp add: rns_path_store_decode_def sample_empty_store_fields Let_def)
  from path_store_decode_sound [OF bad size(1)] path_store_decode_sound [OF good size(1)] bad good show ?thesis
    by auto
qed

text \<open>The table after an announce, a failure, and an older announce of the same destination.\<close>

definition sample_replaced :: rns_transport where
  "sample_replaced =
     snd (rns_transport_consider_announce Fin (replicate 16 1) (replicate 16 2) 7 0 3 (sample_blob 5) (replicate 32 5) (Fin 1)
       (snd (rns_transport_mark_unresponsive (replicate 16 1) (Fin 1)
          (snd (rns_transport_consider_announce Fin (replicate 16 1) (replicate 16 2) 7 0 3 (sample_blob 9) (replicate 32 5)
             (Fin 1) sample_transport)))))"

lemma sample_replaced_table: "sample_replaced = sample_table [sample_blob 9, sample_blob 5] 5"
  by (simp add: sample_replaced_def sample_table_def sample_announced_def rns_transport_consider_announce_def
      rns_transport_mark_unresponsive_def rns_transport_lookup_def sample_transport_def sample_config_def
      path_for_def live_def announce_rejected_def path_replacement_slot_def announced_path_def
      path_add_blob_def path_heard_blob_def random_blob_timebase_def bytes_at_def be_get_def zero_path_def
      slot_loop.simps Let_def)

theorem path_store_stale_unreadable_witness:
  "case rns_path_store_encode Fin 1000 (Fin 5) 4096 sample_replaced of
     (status, _, _, raw) \<Rightarrow> status = RNS_OK \<and>
       fst (rns_path_store_decode Fin 2000 (Fin 3) (the raw) sample_transport) \<noteq> RNS_OK"
proof -
  let ?blobs = "[sample_blob 9, sample_blob 5]"
  obtain written raw where enc: "rns_path_store_encode Fin 1000 (Fin 5) 4096 (sample_table ?blobs 5) =
      (RNS_OK, written, 1, Some raw)"
    using sample_table_encode [of ?blobs 5] by auto
  have paths: "set (tr_paths (sample_table ?blobs 5)) = {sample_announced ?blobs 5, zero_path}"
    by (simp add: sample_table_def)
  have sized: "\<forall>e \<in> set (tr_paths (sample_table ?blobs 5)). path_stored (Fin 5) e \<longrightarrow> path_sized e"
    using sample_announced_sized [of ?blobs 5] by (simp add: paths sample_announced_stored)
  have "pe_announce_timebase (sample_announced ?blobs 5) \<noteq>
      latest_timebase (pe_random_blobs (sample_announced ?blobs 5))"
    by (simp add: sample_announced_def latest_timebase_def blob_timebase_def bytes_at_def be_get_def)
  from path_store_stale_unreadable [OF enc sized _ sample_announced_stored(1) this, of 2000 "Fin 3" sample_transport]
  show ?thesis using enc by (simp add: sample_replaced_table paths)
qed

end
