(* ===== verification/Buffer.thy ===== *)
theory Buffer
  imports Prelude
begin

text \<open>
  The growable byte buffer of \<^verbatim>\<open>src/platform/buffer.c\<close>. A buffer is its \<^verbatim>\<open>len\<close> used
  bytes and its capacity; the unused bytes after them are never read before they are written, so
  they have no counterpart. Whether \<^verbatim>\<open>realloc\<close> grants a size is the parameter
  \<open>realloc_ok\<close>.
\<close>

record rns_buffer =
  buf_data :: bytes
  buf_capacity :: nat

definition rns_buffer_init :: rns_buffer where
  "rns_buffer_init = \<lparr>buf_data = [], buf_capacity = 0\<rparr>"

definition rns_buffer_clear :: "rns_buffer \<Rightarrow> rns_buffer" where
  "rns_buffer_clear buffer = rns_buffer_init"

definition rns_buffer_reserve :: "(nat \<Rightarrow> bool) \<Rightarrow> rns_buffer \<Rightarrow> nat \<Rightarrow> rns_status \<times> rns_buffer" where
  "rns_buffer_reserve realloc_ok buffer capacity =
     (if capacity \<le> buf_capacity buffer then (RNS_OK, buffer)
      else if \<not> realloc_ok capacity then (RNS_ERROR_NO_MEMORY, buffer)
      else (RNS_OK, buffer\<lparr>buf_capacity := capacity\<rparr>))"

definition rns_buffer_resize :: "(nat \<Rightarrow> bool) \<Rightarrow> rns_buffer \<Rightarrow> nat \<Rightarrow> rns_status \<times> rns_buffer" where
  "rns_buffer_resize realloc_ok buffer n =
     (case rns_buffer_reserve realloc_ok buffer n of
        (RNS_OK, buffer') \<Rightarrow>
          (RNS_OK, buffer'\<lparr>buf_data := take n (buf_data buffer') @ replicate (n - length (buf_data buffer')) 0\<rparr>)
      | (status, buffer') \<Rightarrow> (status, buffer'))"

text \<open>The growth loop, from a non-zero capacity.\<close>

function grow_capacity :: "nat \<Rightarrow> nat \<Rightarrow> nat" where
  "grow_capacity required capacity =
     (if capacity = 0 \<or> required \<le> capacity then capacity
      else if capacity > SIZE_MAX div 2 then required
      else grow_capacity required (capacity * 2))"
  by pat_completeness auto
termination
  by (relation "measure (\<lambda>(required, capacity). required - capacity)") auto

declare grow_capacity.simps [simp del]

definition rns_buffer_append :: "(nat \<Rightarrow> bool) \<Rightarrow> rns_buffer \<Rightarrow> bytes \<Rightarrow> rns_status \<times> rns_buffer" where
  "rns_buffer_append realloc_ok buffer data =
     (if length data > SIZE_MAX - length (buf_data buffer) then (RNS_ERROR_OVERFLOW, buffer)
      else let required = length (buf_data buffer) + length data;
               appended = (\<lambda>b. (RNS_OK, b\<lparr>buf_data := buf_data b @ data\<rparr>))
           in if required > buf_capacity buffer
              then let start = (if buf_capacity buffer = 0 then 64 else buf_capacity buffer)
                   in (case rns_buffer_reserve realloc_ok buffer (grow_capacity required start) of
                         (RNS_OK, buffer') \<Rightarrow> appended buffer'
                       | (status, buffer') \<Rightarrow> (status, buffer'))
              else appended buffer)"

section \<open>Properties\<close>

lemma grow_capacity_bounds:
  assumes "0 < capacity" "capacity \<le> SIZE_MAX" "required \<le> SIZE_MAX"
  shows "required \<le> grow_capacity required capacity \<and> grow_capacity required capacity \<le> SIZE_MAX \<and>
         capacity \<le> grow_capacity required capacity \<and>
         grow_capacity required capacity \<le> max capacity (2 * required)"
  using assms
proof (induction required capacity rule: grow_capacity.induct)
  case (1 required capacity)
  show ?case
  proof (cases "required \<le> capacity \<or> SIZE_MAX div 2 < capacity")
    case True
    with 1 show ?thesis by (subst (1 2 3 4) grow_capacity.simps) auto
  next
    case False
    then have "capacity * 2 \<le> SIZE_MAX" by (simp add: SIZE_MAX_def)
    with 1 False show ?thesis by (subst (1 2 3 4) grow_capacity.simps) auto
  qed
qed

text \<open>What the used bytes are, as long as an operation succeeds, and the bound they obey.\<close>

definition buffer_wf :: "rns_buffer \<Rightarrow> bool" where
  "buffer_wf buffer \<longleftrightarrow> length (buf_data buffer) \<le> buf_capacity buffer \<and> buf_capacity buffer \<le> SIZE_MAX"

lemma append_step:
  assumes "buffer_wf buffer" "rns_buffer_append realloc_ok buffer data = (status, buffer')"
  shows "buffer_wf buffer'" "buf_capacity buffer \<le> buf_capacity buffer'"
    "buf_capacity buffer' \<le> max (max 64 (buf_capacity buffer)) (2 * (length (buf_data buffer) + length data))"
    "buf_data buffer' = buf_data buffer @ (if status = RNS_OK then data else [])"
    "status = RNS_ERROR_OVERFLOW \<longleftrightarrow> length (buf_data buffer) + length data > SIZE_MAX"
    "\<forall>k. realloc_ok k \<Longrightarrow> status = RNS_OK \<or> status = RNS_ERROR_OVERFLOW"
proof -
  define start where "start = (if buf_capacity buffer = 0 then 64 else buf_capacity buffer)"
  define grown where "grown = grow_capacity (length (buf_data buffer) + length data) start"
  have start: "0 < start" "start \<le> SIZE_MAX" "buf_capacity buffer \<le> start" "start \<le> max 64 (buf_capacity buffer)"
    using assms(1) by (auto simp: start_def buffer_wf_def SIZE_MAX_def)
  have grown: "length (buf_data buffer) + length data \<le> grown" "grown \<le> SIZE_MAX" "start \<le> grown"
    "grown \<le> max start (2 * (length (buf_data buffer) + length data))"
    if "length (buf_data buffer) + length data \<le> SIZE_MAX"
    using grow_capacity_bounds [OF start(1,2) that] by (simp_all add: grown_def)
  have op: "rns_buffer_append realloc_ok buffer data =
      (if SIZE_MAX < length (buf_data buffer) + length data then (RNS_ERROR_OVERFLOW, buffer)
       else if length (buf_data buffer) + length data \<le> buf_capacity buffer
       then (RNS_OK, buffer\<lparr>buf_data := buf_data buffer @ data\<rparr>)
       else if realloc_ok grown then (RNS_OK, buffer\<lparr>buf_capacity := grown, buf_data := buf_data buffer @ data\<rparr>)
       else (RNS_ERROR_NO_MEMORY, buffer))"
  proof -
    have "SIZE_MAX - length (buf_data buffer) < length data \<longleftrightarrow> SIZE_MAX < length (buf_data buffer) + length data"
      using assms(1) by (auto simp: buffer_wf_def)
    moreover have "\<not> grown \<le> buf_capacity buffer"
      if "length (buf_data buffer) + length data \<le> SIZE_MAX"
        "\<not> length (buf_data buffer) + length data \<le> buf_capacity buffer"
      using grown(1) that by linarith
    ultimately show ?thesis
      by (auto simp: rns_buffer_append_def rns_buffer_reserve_def Let_def start_def [symmetric] grown_def [symmetric])
  qed
  show "buffer_wf buffer'" "buf_capacity buffer \<le> buf_capacity buffer'"
    "buf_capacity buffer' \<le> max (max 64 (buf_capacity buffer)) (2 * (length (buf_data buffer) + length data))"
    "buf_data buffer' = buf_data buffer @ (if status = RNS_OK then data else [])"
    "status = RNS_ERROR_OVERFLOW \<longleftrightarrow> length (buf_data buffer) + length data > SIZE_MAX"
    "\<forall>k. realloc_ok k \<Longrightarrow> status = RNS_OK \<or> status = RNS_ERROR_OVERFLOW"
    using assms op start(3,4) grown by (auto simp: buffer_wf_def split: if_splits)
qed

lemma resize_step:
  assumes "buffer_wf buffer" "n \<le> SIZE_MAX" "rns_buffer_resize realloc_ok buffer n = (status, buffer')"
  shows "buffer_wf buffer'" "buf_capacity buffer \<le> buf_capacity buffer'"
    "buf_data buffer' = (if status = RNS_OK
       then take n (buf_data buffer) @ replicate (n - length (buf_data buffer)) 0 else buf_data buffer)"
  using assms by (auto simp: rns_buffer_resize_def rns_buffer_reserve_def buffer_wf_def split: if_splits)

text \<open>
  C35. The buffer is a byte string: whatever sizes the allocator grants, an append or a resize that
  succeeds leaves exactly the old bytes followed by the new ones, or cut or padded with zeros, in a
  buffer whose capacity covers them, never shrinks, never exceeds the address space and never more
  than doubles beyond need; one that fails leaves the bytes as they were. An append fails only when
  the total length overflows or the allocator refuses, so with a willing allocator it succeeds.
\<close>

theorem buffer_refines_bytes:
  assumes "buffer_wf buffer" "n \<le> SIZE_MAX"
  shows "(case rns_buffer_append realloc_ok buffer data of (status, buffer') \<Rightarrow>
           buffer_wf buffer' \<and> buf_capacity buffer \<le> buf_capacity buffer' \<and>
           buf_capacity buffer' \<le> max (max 64 (buf_capacity buffer)) (2 * (length (buf_data buffer) + length data)) \<and>
           buf_data buffer' = buf_data buffer @ (if status = RNS_OK then data else []) \<and>
           (status = RNS_ERROR_OVERFLOW \<longleftrightarrow> length (buf_data buffer) + length data > SIZE_MAX) \<and>
           ((\<forall>k. realloc_ok k) \<longrightarrow> status = RNS_OK \<or> status = RNS_ERROR_OVERFLOW)) \<and>
         (case rns_buffer_resize realloc_ok buffer n of (status, buffer') \<Rightarrow>
           buffer_wf buffer' \<and> buf_capacity buffer \<le> buf_capacity buffer' \<and>
           buf_data buffer' = (if status = RNS_OK
              then take n (buf_data buffer) @ replicate (n - length (buf_data buffer)) 0
              else buf_data buffer))"
  using append_step [OF assms(1)] resize_step [OF assms] by (auto split: prod.splits)

theorem buffer_refines_bytes_witness:
  "buf_data (snd (rns_buffer_append (\<lambda>_. True) rns_buffer_init [1, 2])) = [1, 2]"
proof -
  have "buffer_wf rns_buffer_init" by (simp add: buffer_wf_def rns_buffer_init_def)
  from buffer_refines_bytes [OF this, of 0 "[1, 2]" "\<lambda>_. True"] show ?thesis
    by (auto simp: rns_buffer_init_def SIZE_MAX_def split: prod.splits)
qed

end
