(* ===== verification/Channel.thy ===== *)
theory Channel
  imports Prelude
begin

text \<open>
  The reliable message channel over a link (\<^verbatim>\<open>src/link/channel.c\<close>): the envelope format, the
  sender with its window and retries, and the receiver that puts envelopes back in order.

  The callbacks \<^verbatim>\<open>send\<close>, \<^verbatim>\<open>receive\<close> and \<^verbatim>\<open>event\<close> act on one context value; a
  null \<^verbatim>\<open>event\<close> is the function that returns the context. They are not re-entered. The bytes
  of a slot are those that were written to it.
\<close>

abbreviation (input) RNS_CHANNEL_HEADER_BYTES :: nat where "RNS_CHANNEL_HEADER_BYTES \<equiv> 6"
abbreviation (input) RNS_CHANNEL_MAX_ENVELOPE_BYTES :: nat where "RNS_CHANNEL_MAX_ENVELOPE_BYTES \<equiv> 500"
abbreviation (input) RNS_CHANNEL_MAX_PAYLOAD_BYTES :: nat where "RNS_CHANNEL_MAX_PAYLOAD_BYTES \<equiv> 494"
abbreviation (input) RNS_CHANNEL_MAX_WINDOW :: nat where "RNS_CHANNEL_MAX_WINDOW \<equiv> 32"

datatype rns_channel_event =
    RNS_CHANNEL_EVENT_DELIVERED
  | RNS_CHANNEL_EVENT_RETRY
  | RNS_CHANNEL_EVENT_TIMEOUT
  | RNS_CHANNEL_EVENT_DUPLICATE
  | RNS_CHANNEL_EVENT_OUT_OF_ORDER

record rns_channel_config =
  chc_initial_window :: byte
  chc_max_window :: byte
  chc_max_retries :: byte
  chc_retry_timeout :: double

record rns_channel_slot =
  sl_used :: bool
  sl_retries :: byte
  sl_sequence :: u16
  sl_length :: u16
  sl_deadline :: double
  sl_envelope :: bytes

record rns_channel =
  ch_config :: rns_channel_config
  ch_next_sequence :: u16
  ch_expected_sequence :: u16
  ch_window :: byte
  ch_success_count :: byte
  ch_outstanding :: nat
  ch_transmit :: "rns_channel_slot list"
  ch_receive :: "rns_channel_slot list"

type_synonym 'c send_fn = "bytes \<Rightarrow> 'c \<Rightarrow> rns_status \<times> 'c"
type_synonym 'c receive_fn = "u16 \<Rightarrow> u16 \<Rightarrow> bytes \<Rightarrow> 'c \<Rightarrow> rns_status \<times> 'c"
type_synonym 'c event_fn = "rns_channel_event \<Rightarrow> u16 \<Rightarrow> 'c \<Rightarrow> 'c"

definition zero_slot :: rns_channel_slot where
  "zero_slot = \<lparr>sl_used = False, sl_retries = 0, sl_sequence = 0, sl_length = 0, sl_deadline = Fin 0,
                sl_envelope = []\<rparr>"

lemma zero_slot_unused [simp]: "\<not> sl_used zero_slot"
  by (simp add: zero_slot_def)

definition read_u16 :: "bytes \<Rightarrow> u16" where
  "read_u16 p = push_bit 8 (ucast (p ! 0)) OR ucast (p ! 1)"

definition write_u16 :: "u16 \<Rightarrow> bytes" where
  "write_u16 v = [ucast (drop_bit 8 v), ucast v]"

definition sequence_before :: "u16 \<Rightarrow> u16 \<Rightarrow> bool" where
  "sequence_before left right \<longleftrightarrow> sint (left - right) < 0"

definition sequence_distance :: "u16 \<Rightarrow> u16 \<Rightarrow> u16" where
  "sequence_distance sequence base = sequence - base"

definition rns_channel_envelope_encode :: "u16 \<Rightarrow> u16 \<Rightarrow> bytes \<Rightarrow> nat \<Rightarrow> rns_status + bytes" where
  "rns_channel_envelope_encode message_type sequence payload capacity =
     (let whole = RNS_CHANNEL_HEADER_BYTES + length payload
      in if length payload > RNS_CHANNEL_MAX_PAYLOAD_BYTES \<or> capacity < whole then Inl RNS_ERROR_OVERFLOW
         else Inr (write_u16 message_type @ write_u16 sequence @ write_u16 (of_nat (length payload)) @ payload))"

definition rns_channel_envelope_decode :: "bytes \<Rightarrow> rns_status + u16 \<times> u16 \<times> bytes" where
  "rns_channel_envelope_decode envelope =
     (if length envelope < RNS_CHANNEL_HEADER_BYTES \<or> length envelope > RNS_CHANNEL_MAX_ENVELOPE_BYTES
      then Inl RNS_ERROR_PROTOCOL
      else let declared = unat (read_u16 (drop 4 envelope))
           in if declared \<noteq> length envelope - RNS_CHANNEL_HEADER_BYTES then Inl RNS_ERROR_PROTOCOL
              else Inr (read_u16 envelope, read_u16 (drop 2 envelope),
                        bytes_at RNS_CHANNEL_HEADER_BYTES declared envelope))"

definition rns_channel_init :: "rns_channel_config \<Rightarrow> rns_status + rns_channel" where
  "rns_channel_init config =
     (if chc_initial_window config = 0 \<or> chc_initial_window config > chc_max_window config \<or>
         unat (chc_max_window config) > RNS_CHANNEL_MAX_WINDOW \<or> dle (chc_retry_timeout config) (Fin 0)
      then Inl RNS_ERROR_INVALID_ARGUMENT
      else Inr \<lparr>ch_config = config, ch_next_sequence = 0, ch_expected_sequence = 0,
                ch_window = chc_initial_window config, ch_success_count = 0, ch_outstanding = 0,
                ch_transmit = replicate RNS_CHANNEL_MAX_WINDOW zero_slot,
                ch_receive = replicate RNS_CHANNEL_MAX_WINDOW zero_slot\<rparr>)"

section \<open>Sending\<close>

definition rns_channel_send ::
  "rounding \<Rightarrow> 'c send_fn \<Rightarrow> u16 \<Rightarrow> bytes \<Rightarrow> double \<Rightarrow> rns_channel \<Rightarrow> 'c \<Rightarrow>
     (rns_status + u16) \<times> rns_channel \<times> 'c" where
  "rns_channel_send rnd send message_type payload now channel c =
     (if ch_outstanding channel \<ge> unat (ch_window channel) then (Inl RNS_ERROR_OVERFLOW, channel, c)
      else case first_index (\<lambda>s. \<not> sl_used s) (ch_transmit channel) of
             None \<Rightarrow> (Inl RNS_ERROR_OVERFLOW, channel, c)
           | Some i \<Rightarrow>
               (case rns_channel_envelope_encode message_type (ch_next_sequence channel) payload
                       RNS_CHANNEL_MAX_ENVELOPE_BYTES of
                  Inl status \<Rightarrow> (Inl status, channel, c)
                | Inr envelope \<Rightarrow>
                    (case send envelope c of
                       (RNS_OK, c') \<Rightarrow>
                         (Inr (ch_next_sequence channel),
                          channel\<lparr>ch_transmit := (ch_transmit channel)[i :=
                              (ch_transmit channel ! i)\<lparr>sl_used := True, sl_sequence := ch_next_sequence channel,
                                sl_length := of_nat (length envelope),
                                sl_deadline := dadd rnd now (chc_retry_timeout (ch_config channel)),
                                sl_envelope := envelope\<rparr>],
                            ch_next_sequence := ch_next_sequence channel + 1,
                            ch_outstanding := Suc (ch_outstanding channel)\<rparr>, c')
                     | (status, c') \<Rightarrow>
                         (Inl status,
                          channel\<lparr>ch_transmit := (ch_transmit channel)[i := zero_slot]\<rparr>, c'))))"

definition rns_channel_mark_delivered ::
  "'c event_fn \<Rightarrow> u16 \<Rightarrow> rns_channel \<Rightarrow> 'c \<Rightarrow> rns_status \<times> rns_channel \<times> 'c" where
  "rns_channel_mark_delivered event sequence channel c =
     (case first_index (\<lambda>s. sl_used s \<and> sl_sequence s = sequence) (ch_transmit channel) of
        None \<Rightarrow> (RNS_ERROR_NOT_FOUND, channel, c)
      | Some i \<Rightarrow>
          let success_count = ch_success_count channel + 1;
              grow = (success_count \<ge> ch_window channel \<and>
                      ch_window channel < chc_max_window (ch_config channel))
          in (RNS_OK,
              channel\<lparr>ch_transmit := (ch_transmit channel)[i := zero_slot],
                ch_outstanding := ch_outstanding channel - 1,
                ch_window := (if grow then ch_window channel + 1 else ch_window channel),
                ch_success_count := (if grow then 0 else success_count)\<rparr>,
              event RNS_CHANNEL_EVENT_DELIVERED sequence c))"

text \<open>One slot of the timer loop, and the loop over the indices of the slots.\<close>

definition tick_slot ::
  "rounding \<Rightarrow> 'c send_fn \<Rightarrow> 'c event_fn \<Rightarrow> double \<Rightarrow> nat \<Rightarrow> nat \<times> rns_channel \<times> 'c \<Rightarrow> nat \<times> rns_channel \<times> 'c" where
  "tick_slot rnd send event now i state =
     (case state of (actions, channel, c) \<Rightarrow>
        let slot = ch_transmit channel ! i; config = ch_config channel;
            put = (\<lambda>s. channel\<lparr>ch_transmit := (ch_transmit channel)[i := s]\<rparr>)
        in if \<not> sl_used slot \<or> dlt now (sl_deadline slot) then (actions, channel, c)
           else if sl_retries slot \<ge> chc_max_retries config
           then let window = (if ch_window channel > 1 then ch_window channel div 2 else 1);
                    window' = (if window > chc_max_window config then chc_max_window config else window)
                in (Suc actions,
                    (put zero_slot)\<lparr>ch_outstanding := ch_outstanding channel - 1, ch_window := window',
                      ch_success_count := 0\<rparr>,
                    event RNS_CHANNEL_EVENT_TIMEOUT (sl_sequence slot) c)
           else (case send (take (unat (sl_length slot)) (sl_envelope slot)) c of
                   (RNS_OK, c') \<Rightarrow>
                     (Suc actions,
                      put (slot\<lparr>sl_retries := sl_retries slot + 1,
                                sl_deadline := dadd rnd now (chc_retry_timeout config)\<rparr>),
                      event RNS_CHANNEL_EVENT_RETRY (sl_sequence slot) c')
                 | (_, c') \<Rightarrow>
                     (actions, put (slot\<lparr>sl_deadline := dadd rnd now (chc_retry_timeout config)\<rparr>), c')))"

definition rns_channel_tick ::
  "rounding \<Rightarrow> 'c send_fn \<Rightarrow> 'c event_fn \<Rightarrow> double \<Rightarrow> rns_channel \<Rightarrow> 'c \<Rightarrow> nat \<times> rns_channel \<times> 'c" where
  "rns_channel_tick rnd send event now channel c =
     fold (tick_slot rnd send event now) [0..<RNS_CHANNEL_MAX_WINDOW] (0, channel, c)"

section \<open>Receiving\<close>

lemma used_slots_decrease:
  assumes "first_index Q es = Some i" "\<And>s. Q s \<Longrightarrow> sl_used s"
  shows "length (filter sl_used (es[i := zero_slot])) < length (filter sl_used es)"
  using assms
proof (induction es arbitrary: i)
  case Nil
  then show ?case by simp
next
  case (Cons s es)
  then show ?case by (cases i) (auto simp: zero_slot_def split: if_splits)
qed

function drain_receive ::
  "'c receive_fn \<Rightarrow> rns_channel \<Rightarrow> 'c \<Rightarrow> rns_status \<times> rns_channel \<times> 'c" where
  "drain_receive receive channel c =
     (case first_index (\<lambda>s. sl_used s \<and> sl_sequence s = ch_expected_sequence channel) (ch_receive channel) of
        None \<Rightarrow> (RNS_OK, channel, c)
      | Some i \<Rightarrow>
          let slot = ch_receive channel ! i
          in (case rns_channel_envelope_decode (take (unat (sl_length slot)) (sl_envelope slot)) of
                Inl status \<Rightarrow> (status, channel, c)
              | Inr (message_type, sequence, payload) \<Rightarrow>
                  (case receive message_type sequence payload c of
                     (RNS_OK, c') \<Rightarrow>
                       drain_receive receive
                         (channel\<lparr>ch_receive := (ch_receive channel)[i := zero_slot],
                                  ch_expected_sequence := ch_expected_sequence channel + 1\<rparr>) c'
                   | (status, c') \<Rightarrow> (status, channel, c'))))"
  by pat_completeness auto

termination
  by (relation "measure (\<lambda>(receive, channel, c). length (filter sl_used (ch_receive channel)))")
     (auto intro: used_slots_decrease)

declare drain_receive.simps [simp del]

definition rns_channel_receive ::
  "'c receive_fn \<Rightarrow> 'c event_fn \<Rightarrow> bytes \<Rightarrow> rns_channel \<Rightarrow> 'c \<Rightarrow> rns_status \<times> rns_channel \<times> 'c" where
  "rns_channel_receive receive event envelope channel c =
     (case rns_channel_envelope_decode envelope of
        Inl status \<Rightarrow> (status, channel, c)
      | Inr (message_type, sequence, payload) \<Rightarrow>
          if sequence_before sequence (ch_expected_sequence channel)
          then (RNS_OK, channel, event RNS_CHANNEL_EVENT_DUPLICATE sequence c)
          else let distance = sequence_distance sequence (ch_expected_sequence channel)
               in if distance \<ge> ucast (chc_max_window (ch_config channel))
                  then (RNS_ERROR_PROTOCOL, channel, c)
                  else if \<exists>s \<in> set (ch_receive channel). sl_used s \<and> sl_sequence s = sequence
                  then (RNS_OK, channel, event RNS_CHANNEL_EVENT_DUPLICATE sequence c)
                  else (case first_index (\<lambda>s. \<not> sl_used s) (ch_receive channel) of
                          None \<Rightarrow> (RNS_ERROR_OVERFLOW, channel, c)
                        | Some i \<Rightarrow>
                            drain_receive receive
                              (channel\<lparr>ch_receive := (ch_receive channel)[i :=
                                 (ch_receive channel ! i)\<lparr>sl_used := True, sl_sequence := sequence,
                                   sl_length := of_nat (length envelope), sl_envelope := envelope\<rparr>]\<rparr>)
                              (if distance \<noteq> 0 then event RNS_CHANNEL_EVENT_OUT_OF_ORDER sequence c else c)))"

section \<open>Envelopes\<close>

lemma write_u16_be: "write_u16 v = be_put 2 v"
  by (simp add: write_u16_def eval_nat_numeral)

lemma length_write_u16 [simp]: "length (write_u16 v) = 2"
  by (simp add: write_u16_def)

lemma read_u16_be: "2 \<le> length bs \<Longrightarrow> read_u16 bs = be_get (take 2 bs)"
proof -
  assume "2 \<le> length bs"
  then have "take 2 bs = [bs ! 0, bs ! 1]" by (intro nth_equalityI) (auto simp: less_Suc_eq eval_nat_numeral)
  then show ?thesis by (simp add: read_u16_def be_get_def)
qed

lemma read_write_u16 [simp]: "read_u16 (write_u16 v @ rest) = v"
  by (simp add: read_u16_be write_u16_be)

lemma write_read_u16: "2 \<le> length bs \<Longrightarrow> write_u16 (read_u16 bs) = take 2 bs"
  using be_put_get [of "take 2 bs", where 'a = 16] by (simp add: read_u16_be write_u16_be)

lemma unat_of_nat_u16: "n < 65536 \<Longrightarrow> unat (of_nat n :: u16) = n"
  by (simp add: unsigned_of_nat take_bit_nat_eq_self_iff)

definition envelope_of :: "u16 \<Rightarrow> u16 \<Rightarrow> bytes \<Rightarrow> bytes" where
  "envelope_of message_type sequence payload =
     write_u16 message_type @ write_u16 sequence @ write_u16 (of_nat (length payload)) @ payload"

lemma length_envelope_of [simp]: "length (envelope_of m s p) = 6 + length p"
  by (simp add: envelope_of_def)

lemma encode_envelope_of:
  "rns_channel_envelope_encode m s p capacity = Inr raw \<longleftrightarrow>
     length p \<le> 494 \<and> 6 + length p \<le> capacity \<and> raw = envelope_of m s p"
  by (auto simp: rns_channel_envelope_encode_def envelope_of_def Let_def)

lemma decode_envelope_of: "length p \<le> 494 \<Longrightarrow> rns_channel_envelope_decode (envelope_of m s p) = Inr (m, s, p)"
  by (simp add: rns_channel_envelope_decode_def envelope_of_def unat_of_nat_u16 bytes_at_def Let_def)

lemma decode_envelopeD:
  assumes "rns_channel_envelope_decode raw = Inr (m, s, p)"
  shows "raw = envelope_of m s p \<and> length p \<le> 494"
proof -
  have len: "6 \<le> length raw" "length raw \<le> 500" and n: "unat (read_u16 (drop 4 raw)) = length raw - 6"
    and m: "m = read_u16 raw" "s = read_u16 (drop 2 raw)" and "p = bytes_at 6 (length raw - 6) raw"
    using assms by (auto simp: rns_channel_envelope_decode_def Let_def split: if_splits)
  then have p: "p = drop 6 raw" by (simp add: bytes_at_def)
  have "of_nat (length p) = (of_nat (unat (read_u16 (drop 4 raw))) :: u16)" using n p by simp
  then have "of_nat (length p) = read_u16 (drop 4 raw)" by simp
  then have "write_u16 (of_nat (length p)) = bytes_at 4 2 raw" "write_u16 s = bytes_at 2 2 raw"
    "write_u16 m = take 2 raw"
    using write_read_u16 len m by (simp_all add: bytes_at_def)
  moreover have "take 2 raw @ (bytes_at 2 2 raw @ bytes_at 4 2 raw) @ drop 6 raw = raw"
    using bytes_at_append_bytes_at [of 2 2 raw 2] take_bytes_at_drop [of 2 4 raw] len
    by (simp del: append_assoc)
  ultimately show ?thesis using p len by (simp add: envelope_of_def)
qed

interpretation envelope: canonical_codec
  "\<lambda>(m, s, p). case rns_channel_envelope_encode m s p RNS_CHANNEL_MAX_ENVELOPE_BYTES of Inl _ \<Rightarrow> None | Inr raw \<Rightarrow> Some raw"
  "\<lambda>raw. case rns_channel_envelope_decode raw of Inl _ \<Rightarrow> None | Inr x \<Rightarrow> Some x"
  "\<lambda>_. True" "\<lambda>_. True"
proof (unfold_locales, goal_cases)
  case (1 x raw)
  then show ?case by (auto simp: encode_envelope_of decode_envelope_of split: sum.splits prod.splits)
next
  case (2 raw x)
  obtain m s p where x: "x = (m, s, p)" by (cases x)
  with 2 have "raw = envelope_of m s p" "length p \<le> 494"
    using decode_envelopeD [of raw m s p] by (auto split: sum.splits)
  then have "rns_channel_envelope_encode m s p 500 = Inr raw" by (simp add: encode_envelope_of)
  then show ?case by (simp add: x)
qed

section \<open>Delivery in order\<close>

text \<open>
  Sequence numbers are message indices modulo \<open>2^16\<close>; near an index they determine it.
\<close>

lemma sequence_inject:
  assumes "k \<le> i" "i < k + 65536" "(of_nat i :: u16) = of_nat k"
  shows "i = k"
proof -
  have "i mod 65536 = k mod 65536"
    using assms(3) by (simp add: word_of_nat_eq_iff take_bit_eq_mod)
  then have "(i - k) mod 65536 = 0" using assms(1) by (metis mod_eq_dvd_iff_nat mod_0_imp_dvd dvd_imp_mod_0)
  then show ?thesis using assms(1,2) by simp
qed

lemma sequence_before_iff:
  assumes "\<bar>int i - int k\<bar> < 32768"
  shows "sequence_before (of_nat i) (of_nat k) \<longleftrightarrow> i < k"
proof -
  have "(of_nat i - of_nat k :: u16) = of_int (int i - int k)" by simp
  then have "sint (of_nat i - of_nat k :: u16) = int i - int k"
    using assms by (simp only: signed_of_int) (simp add: signed_take_bit_int_eq_self_iff, linarith)
  then show ?thesis by (simp add: sequence_before_def)
qed

lemma sequence_distance_eq:
  assumes "k \<le> i" "i < k + 65536"
  shows "unat (sequence_distance (of_nat i) (of_nat k)) = i - k"
proof -
  have "(of_nat i - of_nat k :: u16) = of_nat (i - k)" using assms(1) by (simp add: of_nat_diff)
  then show ?thesis using assms(2) by (simp add: sequence_distance_def unat_of_nat_u16 del: of_nat_diff)
qed

text \<open>
  The receiver's state after the first \<open>k\<close> messages were delivered: the slots hold envelopes of
  later messages within the window, each at most once.
\<close>

definition slot_bytes :: "rns_channel_slot \<Rightarrow> bytes" where
  "slot_bytes s = take (unat (sl_length s)) (sl_envelope s)"

definition slot_holds :: "(u16 \<times> bytes) list \<Rightarrow> nat \<Rightarrow> nat \<Rightarrow> rns_channel_slot \<Rightarrow> bool" where
  "slot_holds msgs k window s \<longleftrightarrow>
     (\<exists>i. k \<le> i \<and> i < k + window \<and> i < length msgs \<and> sl_sequence s = of_nat i \<and>
          slot_bytes s = envelope_of (fst (msgs ! i)) (of_nat i) (snd (msgs ! i)))"

definition receiver_holds :: "(u16 \<times> bytes) list \<Rightarrow> nat \<Rightarrow> rns_channel \<Rightarrow> bool" where
  "receiver_holds msgs k ch \<longleftrightarrow>
     length (ch_receive ch) = 32 \<and> unat (chc_max_window (ch_config ch)) \<le> 32 \<and>
     ch_expected_sequence ch = of_nat k \<and>
     (\<forall>s \<in> set (ch_receive ch). sl_used s \<longrightarrow> slot_holds msgs k (unat (chc_max_window (ch_config ch))) s) \<and>
     distinct_keys sl_used sl_sequence (ch_receive ch)"

text \<open>
  A receiver that logs what it accepts; it may refuse a message at any of its attempts, which it
  counts.
\<close>

definition logging_receive :: "(nat \<Rightarrow> bool) \<Rightarrow> ((u16 \<times> bytes) list \<times> nat) receive_fn" where
  "logging_receive accepts m s p c =
     (case c of (got, n) \<Rightarrow> if accepts n then (RNS_OK, got @ [(m, p)], Suc n) else (RNS_ERROR_IO, got, Suc n))"

definition payloads_fit :: "(u16 \<times> bytes) list \<Rightarrow> bool" where
  "payloads_fit msgs \<longleftrightarrow> (\<forall>x \<in> set msgs. length (snd x) \<le> 494)"

lemma slot_holds_expected:
  assumes "slot_holds msgs k window s" "sl_sequence s = of_nat k" "window \<le> 32"
  shows "k < length msgs \<and> slot_bytes s = envelope_of (fst (msgs ! k)) (of_nat k) (snd (msgs ! k))"
proof -
  obtain i where i: "k \<le> i" "i < k + window" "i < length msgs" "sl_sequence s = of_nat i"
    "slot_bytes s = envelope_of (fst (msgs ! i)) (of_nat i) (snd (msgs ! i))"
    using assms(1) by (auto simp: slot_holds_def)
  have "i = k" using i assms(2,3) by (intro sequence_inject) simp_all
  with i show ?thesis by simp
qed

lemma slot_holds_Suc:
  assumes "slot_holds msgs k window s" "sl_sequence s \<noteq> of_nat k"
  shows "slot_holds msgs (Suc k) window s"
  using assms unfolding slot_holds_def by (metis le_eq_less_or_eq less_Suc_eq add_Suc not_less_eq_eq Suc_le_eq)

lemma receiver_holds_next:
  assumes "receiver_holds msgs k ch"
    and "first_index (\<lambda>s. sl_used s \<and> sl_sequence s = ch_expected_sequence ch) (ch_receive ch) = Some i"
  shows "receiver_holds msgs (Suc k) (ch\<lparr>ch_receive := (ch_receive ch)[i := zero_slot],
           ch_expected_sequence := ch_expected_sequence ch + 1\<rparr>)"
proof -
  let ?es = "ch_receive ch" and ?w = "unat (chc_max_window (ch_config ch))"
  have i: "i < length ?es" "sl_used (?es ! i)" "sl_sequence (?es ! i) = of_nat k"
    using first_index_SomeD [OF assms(2)] assms(1) by (auto simp: receiver_holds_def)
  have other: "slot_holds msgs (Suc k) ?w (?es ! j)" if "j < length ?es" "j \<noteq> i" "sl_used (?es ! j)" for j
  proof (rule slot_holds_Suc)
    show "slot_holds msgs k ?w (?es ! j)" using assms(1) that by (simp add: receiver_holds_def)
    show "sl_sequence (?es ! j) \<noteq> of_nat k"
      using assms(1) i that unfolding receiver_holds_def distinct_keys_def by metis
  qed
  have "slot_holds msgs (Suc k) ?w s" if s: "s \<in> set (?es[i := zero_slot])" "sl_used s" for s
  proof -
    obtain j where "j < length ?es" "s = ?es[i := zero_slot] ! j" using s(1) by (auto simp: in_set_conv_nth)
    with s(2) other [of j] show ?thesis by (cases "j = i") simp_all
  qed
  moreover have "distinct_keys sl_used sl_sequence (?es[i := zero_slot])"
    using assms(1) by (intro distinct_keys_update) (auto simp: receiver_holds_def)
  ultimately show ?thesis using assms(1) by (auto simp: receiver_holds_def add.commute)
qed

lemma drain_in_order:
  assumes "drain_receive receive ch c = (status, ch', c')" "receive = logging_receive accepts" "c = (take k msgs, n)"
    and "receiver_holds msgs k ch" "payloads_fit msgs" "k \<le> length msgs"
  shows "\<exists>k' n'. k \<le> k' \<and> k' \<le> length msgs \<and> receiver_holds msgs k' ch' \<and> c' = (take k' msgs, n') \<and>
           (status = RNS_OK \<or> status = RNS_ERROR_IO) \<and>
           (accepts n \<and> (\<exists>s \<in> set (ch_receive ch). sl_used s \<and> sl_sequence s = of_nat k) \<longrightarrow> k < k')"
  using assms
proof (induction receive ch c arbitrary: k n rule: drain_receive.induct)
  case (1 receive ch c)
  let ?find = "first_index (\<lambda>s. sl_used s \<and> sl_sequence s = ch_expected_sequence ch) (ch_receive ch)"
  have expected: "ch_expected_sequence ch = of_nat k" using "1.prems"(4) by (simp add: receiver_holds_def)
  show ?case
  proof (cases ?find)
    case None
    then have "\<not> (\<exists>s \<in> set (ch_receive ch). sl_used s \<and> sl_sequence s = of_nat k)"
      unfolding first_index_None_iff expected by blast
    moreover have "status = RNS_OK" "ch' = ch" "c' = c"
      using "1.prems"(1) None by (simp_all add: drain_receive.simps)
    ultimately show ?thesis using "1.prems"(3,4,6) by blast
  next
    case (Some i)
    let ?s = "ch_receive ch ! i"
    have "k < length msgs \<and> slot_bytes ?s = envelope_of (fst (msgs ! k)) (of_nat k) (snd (msgs ! k))"
      using first_index_SomeD [OF Some] "1.prems"(4)
      by (intro slot_holds_expected) (auto simp: receiver_holds_def expected)
    then have k: "k < length msgs"
      and dec: "rns_channel_envelope_decode (take (unat (sl_length ?s)) (sl_envelope ?s)) =
        Inr (fst (msgs ! k), of_nat k, snd (msgs ! k))"
      using "1.prems"(5) decode_envelope_of [of "snd (msgs ! k)"]
      by (auto simp: slot_bytes_def payloads_fit_def dest!: nth_mem)
    have take: "take k msgs @ [(fst (msgs ! k), snd (msgs ! k))] = take (Suc k) msgs"
      using k by (simp add: take_Suc_conv_app_nth)
    show ?thesis
    proof (cases "accepts n")
      case False
      then have "status = RNS_ERROR_IO" "ch' = ch" "c' = (take k msgs, Suc n)"
        using "1.prems"(1-3) Some dec by (simp_all add: drain_receive.simps logging_receive_def)
      then show ?thesis using "1.prems"(4,6) False by blast
    next
      case True
      have acc: "receive (fst (msgs ! k)) (of_nat k) (snd (msgs ! k)) c = (RNS_OK, take (Suc k) msgs, Suc n)"
        using True "1.prems"(2,3) take by (simp add: logging_receive_def)
      let ?ch = "ch\<lparr>ch_receive := (ch_receive ch)[i := zero_slot],
        ch_expected_sequence := ch_expected_sequence ch + 1\<rparr>"
      have "drain_receive receive ?ch (take (Suc k) msgs, Suc n) = (status, ch', c')"
        using "1.prems"(1) Some dec acc by (simp add: drain_receive.simps [of receive ch c])
      from "1.IH" [OF Some refl dec refl refl acc [symmetric] refl this "1.prems"(2) refl
          receiver_holds_next [OF "1.prems"(4) Some] "1.prems"(5)] k
      show ?thesis by (metis Suc_le_eq order_less_imp_le)
    qed
  qed
qed

text \<open>The window leaves room: a new envelope within it finds a free slot.\<close>

lemma receiver_has_room:
  assumes "receiver_holds msgs k ch" "k \<le> i" "i < k + unat (chc_max_window (ch_config ch))"
    and "\<forall>s \<in> set (ch_receive ch). sl_used s \<longrightarrow> sl_sequence s \<noteq> of_nat i"
  shows "\<exists>s \<in> set (ch_receive ch). \<not> sl_used s"
proof (rule ccontr)
  let ?w = "unat (chc_max_window (ch_config ch))" and ?es = "ch_receive ch"
  assume "\<not> ?thesis"
  then have all: "\<forall>s \<in> set ?es. sl_used s" by blast
  then have "filter sl_used ?es = ?es" by (simp add: filter_id_conv)
  then have "card (set (map sl_sequence ?es)) = 32"
    using assms(1) distinct_card [of "map sl_sequence ?es"]
    by (auto simp: receiver_holds_def distinct_keys_filter)
  moreover have "set (map sl_sequence ?es) \<subseteq> of_nat ` ({k..<k + ?w} - {i})"
    using assms(1,4) all by (fastforce simp: receiver_holds_def slot_holds_def)
  then have "card (set (map sl_sequence ?es)) \<le> card ({k..<k + ?w} - {i})"
    by (meson card_image_le card_mono finite_Diff finite_atLeastLessThan finite_imageI le_trans)
  moreover have "card ({k..<k + ?w} - {i}) = ?w - 1" using assms(2,3) by simp
  moreover have "?w \<le> 32" using assms(1) by (simp add: receiver_holds_def)
  moreover have "0 < ?w" using assms(2,3) by linarith
  ultimately show False by linarith
qed

lemma receiver_stores:
  assumes holds: "receiver_holds msgs k ch" "payloads_fit msgs" and i: "k \<le> i" "i < length msgs"
      "i < k + unat (chc_max_window (ch_config ch))"
    and fresh: "\<forall>s \<in> set (ch_receive ch). sl_used s \<longrightarrow> sl_sequence s \<noteq> of_nat i"
    and slot: "first_index (\<lambda>s. \<not> sl_used s) (ch_receive ch) = Some j"
  defines "e \<equiv> envelope_of (fst (msgs ! i)) (of_nat i) (snd (msgs ! i))"
  shows "receiver_holds msgs k (ch\<lparr>ch_receive := (ch_receive ch)[j :=
           (ch_receive ch ! j)\<lparr>sl_used := True, sl_sequence := of_nat i, sl_length := of_nat (length e), sl_envelope := e\<rparr>]\<rparr>)"
proof -
  let ?es = "ch_receive ch" and ?w = "unat (chc_max_window (ch_config ch))"
  let ?x = "(?es ! j)\<lparr>sl_used := True, sl_sequence := of_nat i, sl_length := of_nat (length e), sl_envelope := e\<rparr>"
  have "length (snd (msgs ! i)) \<le> 494"
    using holds(2) i(2) by (simp add: payloads_fit_def)
  then have "unat (of_nat (length e) :: u16) = length e" by (intro unat_of_nat_u16) (simp add: e_def)
  then have x: "slot_holds msgs k ?w ?x" using i by (auto simp: slot_holds_def slot_bytes_def e_def)
  have "slot_holds msgs k ?w s" if "s \<in> set (?es[j := ?x])" "sl_used s" for s
    using that x holds(1) set_update_subset_insert [of ?es j ?x] by (auto simp: receiver_holds_def)
  moreover have "distinct_keys sl_used sl_sequence (?es[j := ?x])"
    using holds(1) fresh by (intro distinct_keys_update) (auto simp: receiver_holds_def)
  ultimately show ?thesis using holds(1) by (auto simp: receiver_holds_def)
qed

lemma receive_in_order:
  assumes holds: "receiver_holds msgs k ch" "payloads_fit msgs" "k \<le> length msgs"
    and i: "i < length msgs" "\<bar>int i - int k\<bar> < 32768"
    and op: "rns_channel_receive (logging_receive accepts) (\<lambda>_ _ c. c)
        (envelope_of (fst (msgs ! i)) (of_nat i) (snd (msgs ! i))) ch (take k msgs, n) = (status, ch', c')"
  shows "\<exists>k' n'. k \<le> k' \<and> k' \<le> length msgs \<and> receiver_holds msgs k' ch' \<and> c' = (take k' msgs, n') \<and>
           status \<in> {RNS_OK, RNS_ERROR_IO, RNS_ERROR_PROTOCOL} \<and>
           (status = RNS_ERROR_PROTOCOL \<longleftrightarrow> k + unat (chc_max_window (ch_config ch)) \<le> i) \<and>
           (i = k \<and> accepts n \<and> unat (chc_max_window (ch_config ch)) > 0 \<and>
             \<not> (\<exists>s \<in> set (ch_receive ch). sl_used s \<and> sl_sequence s = of_nat k) \<longrightarrow> k < k')"
proof -
  let ?w = "chc_max_window (ch_config ch)"
  define e where "e = envelope_of (fst (msgs ! i)) (of_nat i) (snd (msgs ! i))"
  have fits: "length (snd (msgs ! i)) \<le> 494"
    using holds(2) i(1) by (simp add: payloads_fit_def)
  have expected: "ch_expected_sequence ch = of_nat k" using holds(1) by (simp add: receiver_holds_def)
  note dec = decode_envelope_of [OF fits, of "fst (msgs ! i)" "of_nat i", folded e_def]
  note before = sequence_before_iff [OF i(2)]
  have far: "sequence_distance (of_nat i) (of_nat k) \<ge> ucast ?w \<longleftrightarrow> k + unat ?w \<le> i" if "k \<le> i"
  proof -
    have "unat ?w < 256" using unsigned_less [of ?w, where 'a = nat] by simp
    then have "unat (ucast ?w :: u16) = unat ?w" by (simp add: unsigned_ucast_eq take_bit_nat_eq_self_iff)
    then show ?thesis using sequence_distance_eq [of k i] that i(2) by (simp add: word_le_nat_alt) linarith
  qed
  consider (old) "i < k" | (beyond) "k \<le> i" "k + unat ?w \<le> i"
    | (again) "k \<le> i" "i < k + unat ?w" "\<exists>s \<in> set (ch_receive ch). sl_used s \<and> sl_sequence s = of_nat i"
    | (fresh) "k \<le> i" "i < k + unat ?w" "\<forall>s \<in> set (ch_receive ch). sl_used s \<longrightarrow> sl_sequence s \<noteq> of_nat i"
    by fastforce
  then show ?thesis
  proof cases
    case old
    then have "status = RNS_OK" "ch' = ch" "c' = (take k msgs, n)"
      using op by (simp_all add: rns_channel_receive_def dec expected before flip: e_def)
    then show ?thesis using holds old by auto
  next
    case beyond
    then have "status = RNS_ERROR_PROTOCOL" "ch' = ch" "c' = (take k msgs, n)"
      using op far by (simp_all add: rns_channel_receive_def dec expected before Let_def flip: e_def)
    then show ?thesis using holds beyond by auto
  next
    case again
    then have "status = RNS_OK" "ch' = ch" "c' = (take k msgs, n)"
      using op far by (simp_all add: rns_channel_receive_def dec expected before Let_def flip: e_def)
    then show ?thesis using holds again by auto
  next
    case fresh
    obtain j where j: "first_index (\<lambda>s. \<not> sl_used s) (ch_receive ch) = Some j"
      using receiver_has_room [OF holds(1) fresh] first_index_None_iff [of "\<lambda>s. \<not> sl_used s" "ch_receive ch"]
      by (cases "first_index (\<lambda>s. \<not> sl_used s) (ch_receive ch)") auto
    let ?ch = "ch\<lparr>ch_receive := (ch_receive ch)[j := (ch_receive ch ! j)\<lparr>sl_used := True,
        sl_sequence := of_nat i, sl_length := of_nat (length e), sl_envelope := e\<rparr>]\<rparr>"
    have stored: "receiver_holds msgs k ?ch"
      unfolding e_def by (rule receiver_stores [OF holds(1,2) fresh(1) i(1) fresh(2,3) j])
    have "drain_receive (logging_receive accepts) ?ch (take k msgs, n) = (status, ch', c')"
      using op far fresh j
      by (auto simp: rns_channel_receive_def dec expected before Let_def simp flip: e_def split: if_splits)
    from drain_in_order [OF this refl refl stored holds(2,3)] obtain k' n' where
      k': "k \<le> k'" "k' \<le> length msgs" "receiver_holds msgs k' ch'" "c' = (take k' msgs, n')"
        "status = RNS_OK \<or> status = RNS_ERROR_IO"
      and more: "accepts n \<and> (\<exists>s \<in> set (ch_receive ?ch). sl_used s \<and> sl_sequence s = of_nat k) \<longrightarrow> k < k'"
      by blast
    have "i = k \<Longrightarrow> \<exists>s \<in> set (ch_receive ?ch). sl_used s \<and> sl_sequence s = of_nat k"
      using first_index_SomeD [OF j] by (auto intro!: bexI [OF _ set_update_memI])
    with k' more fresh show ?thesis by auto
  qed
qed

text \<open>
  The runs of a receiver to which the network brings, in any order and any number of times, the
  envelopes of a message sequence, each within half the sequence space of the next expected one.
\<close>

inductive receiver_run ::
  "(u16 \<times> bytes) list \<Rightarrow> (nat \<Rightarrow> bool) \<Rightarrow> rns_channel_config \<Rightarrow> rns_channel \<Rightarrow> (u16 \<times> bytes) list \<times> nat \<Rightarrow> bool"
  for msgs accepts config where
  start: "rns_channel_init config = Inr ch \<Longrightarrow> receiver_run msgs accepts config ch ([], 0)"
| arrival: "receiver_run msgs accepts config ch (got, n) \<Longrightarrow> i < length msgs \<Longrightarrow>
    \<bar>int i - int (length got)\<bar> < 32768 \<Longrightarrow>
    rns_channel_envelope_encode (fst (msgs ! i)) (of_nat i) (snd (msgs ! i)) RNS_CHANNEL_MAX_ENVELOPE_BYTES = Inr e \<Longrightarrow>
    rns_channel_receive (logging_receive accepts) (\<lambda>_ _ c. c) e ch (got, n) = (status, ch', c') \<Longrightarrow>
    receiver_run msgs accepts config ch' c'"

lemma receiver_run_holds:
  assumes "receiver_run msgs accepts config ch c" "payloads_fit msgs"
  shows "\<exists>k n. k \<le> length msgs \<and> receiver_holds msgs k ch \<and> c = (take k msgs, n)"
  using assms
proof (induction rule: receiver_run.induct)
  case (start ch)
  then have "receiver_holds msgs 0 ch"
    by (auto simp: rns_channel_init_def receiver_holds_def distinct_keys_def split: if_splits)
  then show ?case by fastforce
next
  case (arrival ch got n i e status ch' c')
  then obtain k where k: "k \<le> length msgs" "receiver_holds msgs k ch" "got = take k msgs" by auto
  have e: "e = envelope_of (fst (msgs ! i)) (of_nat i) (snd (msgs ! i))"
    using arrival.hyps(4) by (simp add: encode_envelope_of)
  have near: "\<bar>int i - int k\<bar> < 32768" using arrival.hyps(3) k by simp
  from receive_in_order [OF k(2) arrival.prems k(1) arrival.hyps(2) near arrival.hyps(5) [unfolded e k(3)]]
  show ?case by blast
qed

text \<open>
  C26. The channel delivers in order, each message once: however the network loses, repeats and
  reorders the envelopes, and whenever the application refuses a message, what it has accepted is a
  prefix of the messages sent, and the next expected sequence number counts it. The receiver never
  runs out of slots: an envelope is refused as a protocol error exactly when it is beyond the
  window; and the next envelope, when it arrives for the first time and is accepted, makes progress.
\<close>

theorem channel_in_order:
  assumes "receiver_run msgs accepts config ch (got, n)" "payloads_fit msgs"
    and "i < length msgs" "\<bar>int i - int (length got)\<bar> < 32768"
    and "rns_channel_envelope_encode (fst (msgs ! i)) (of_nat i) (snd (msgs ! i)) RNS_CHANNEL_MAX_ENVELOPE_BYTES = Inr e"
    and "rns_channel_receive (logging_receive accepts) (\<lambda>_ _ c. c) e ch (got, n) = (status, ch', got', n')"
  shows "got = take (length got) msgs \<and> ch_expected_sequence ch = of_nat (length got) \<and>
         got' = take (length got') msgs \<and> length got \<le> length got' \<and>
         (status = RNS_ERROR_PROTOCOL \<longleftrightarrow> length got + unat (chc_max_window (ch_config ch)) \<le> i) \<and>
         status \<noteq> RNS_ERROR_OVERFLOW \<and>
         (i = length got \<and> accepts n \<and> 0 < chc_max_window (ch_config ch) \<and>
            (\<forall>s \<in> set (ch_receive ch). sl_used s \<longrightarrow> sl_sequence s \<noteq> of_nat i) \<longrightarrow> length got < length got')"
proof -
  obtain k where k: "k \<le> length msgs" "receiver_holds msgs k ch" "got = take k msgs"
    using receiver_run_holds [OF assms(1,2)] by auto
  have len: "length got = k" using k by simp
  have e: "e = envelope_of (fst (msgs ! i)) (of_nat i) (snd (msgs ! i))"
    using assms(5) by (simp add: encode_envelope_of)
  obtain k' where k': "k \<le> k'" "k' \<le> length msgs" "got' = take k' msgs"
    "status \<in> {RNS_OK, RNS_ERROR_IO, RNS_ERROR_PROTOCOL}"
    "status = RNS_ERROR_PROTOCOL \<longleftrightarrow> k + unat (chc_max_window (ch_config ch)) \<le> i"
    "i = k \<and> accepts n \<and> unat (chc_max_window (ch_config ch)) > 0 \<and>
       \<not> (\<exists>s \<in> set (ch_receive ch). sl_used s \<and> sl_sequence s = of_nat k) \<longrightarrow> k < k'"
    using receive_in_order [OF k(2) assms(2) k(1) assms(3), of accepts n status ch' "(got', n')"] assms(4,6)
    by (auto simp: e len k(3) [symmetric])
  have "length got' = k'" using k' by simp
  moreover have "ch_expected_sequence ch = of_nat k" using k(2) by (simp add: receiver_holds_def)
  moreover have "0 < chc_max_window (ch_config ch) \<longleftrightarrow> unat (chc_max_window (ch_config ch)) > 0"
    by (simp add: word_less_nat_alt)
  ultimately show ?thesis using k k' len by auto
qed

definition sample_channel_config :: rns_channel_config where
  "sample_channel_config =
     \<lparr>chc_initial_window = 2, chc_max_window = 4, chc_max_retries = 3, chc_retry_timeout = Fin 5\<rparr>"

definition sample_channel :: rns_channel where
  "sample_channel =
     \<lparr>ch_config = sample_channel_config, ch_next_sequence = 0, ch_expected_sequence = 0, ch_window = 2,
      ch_success_count = 0, ch_outstanding = 0, ch_transmit = replicate 32 zero_slot,
      ch_receive = replicate 32 zero_slot\<rparr>"

lemma sample_channel_init: "rns_channel_init sample_channel_config = Inr sample_channel"
  by (simp add: rns_channel_init_def sample_channel_config_def sample_channel_def)

theorem channel_in_order_witness:
  "case rns_channel_receive (logging_receive (\<lambda>_. True)) (\<lambda>_ _ c. c) (envelope_of 7 0 [1]) sample_channel ([], 0) of
     (status, ch', got, n) \<Rightarrow> got = take (length got) [(7, [1]), (8, [2])] \<and> 0 < length got"
proof -
  let ?msgs = "[(7, [1]), (8, [2])] :: (u16 \<times> bytes) list"
  have run: "receiver_run ?msgs (\<lambda>_. True) sample_channel_config sample_channel ([], 0)"
    by (rule receiver_run.start [OF sample_channel_init])
  obtain status ch' got n where op: "rns_channel_receive (logging_receive (\<lambda>_. True)) (\<lambda>_ _ c. c)
      (envelope_of 7 0 [1]) sample_channel ([], 0) = (status, ch', got, n)" by (metis prod_cases4)
  have fit: "payloads_fit ?msgs" by (simp add: payloads_fit_def)
  have enc: "rns_channel_envelope_encode (fst (?msgs ! 0)) (of_nat 0) (snd (?msgs ! 0)) 500 = Inr (envelope_of 7 0 [1])"
    by (simp add: encode_envelope_of)
  have "\<forall>s \<in> set (ch_receive sample_channel). sl_used s \<longrightarrow> sl_sequence s \<noteq> of_nat 0"
    "0 < chc_max_window (ch_config sample_channel)"
    by (simp_all add: sample_channel_def sample_channel_config_def)
  then have "got = take (length got) ?msgs \<and> 0 < length got"
    using channel_in_order [OF run fit _ _ enc op] by simp
  then show ?thesis using op by simp
qed

section \<open>The sender\<close>

lemma length_filter_update:
  "i < length xs \<Longrightarrow> length (filter Q (xs[i := x])) + (if Q (xs ! i) then 1 else 0) =
     length (filter Q xs) + (if Q x then 1 else 0)"
proof (induction xs arbitrary: i)
  case Nil
  then show ?case by simp
next
  case (Cons y ys)
  show ?case
  proof (cases i)
    case 0
    then show ?thesis by simp
  next
    case (Suc j)
    with Cons.IH [of j] Cons.prems show ?thesis by (simp split: if_splits)
  qed
qed

definition transmit_slot_ok :: "byte \<Rightarrow> rns_channel_slot \<Rightarrow> bool" where
  "transmit_slot_ok max_retries s \<longleftrightarrow>
     (if sl_used s
      then sl_retries s \<le> max_retries \<and>
           (\<exists>m p. length p \<le> 494 \<and> slot_bytes s = envelope_of m (sl_sequence s) p)
      else sl_retries s = 0)"

definition channel_wf :: "rns_channel_config \<Rightarrow> rns_channel \<Rightarrow> bool" where
  "channel_wf config ch \<longleftrightarrow>
     config = ch_config ch \<and>
     length (ch_transmit ch) = 32 \<and> length (ch_receive ch) = 32 \<and>
     0 < ch_window ch \<and> ch_window ch \<le> chc_max_window (ch_config ch) \<and> chc_max_window (ch_config ch) \<le> 32 \<and>
     ch_outstanding ch = length (filter sl_used (ch_transmit ch)) \<and>
     ch_outstanding ch \<le> unat (chc_max_window (ch_config ch)) \<and>
     (\<forall>s \<in> set (ch_transmit ch). transmit_slot_ok (chc_max_retries (ch_config ch)) s)"

lemma zero_slot_ok [simp]: "transmit_slot_ok r zero_slot"
  by (simp add: transmit_slot_ok_def zero_slot_def)

lemma channel_wf_update:
  assumes "channel_wf config ch" "i < 32" "transmit_slot_ok (chc_max_retries (ch_config ch)) s"
    and "n + (if sl_used (ch_transmit ch ! i) then 1 else 0) = ch_outstanding ch + (if sl_used s then 1 else 0)"
    and "0 < w" "w \<le> chc_max_window (ch_config ch)" "n \<le> unat (chc_max_window (ch_config ch))"
  shows "channel_wf config (ch\<lparr>ch_transmit := (ch_transmit ch)[i := s], ch_outstanding := n, ch_window := w\<rparr>)"
proof -
  have "n = length (filter sl_used ((ch_transmit ch)[i := s]))"
    using length_filter_update [of i "ch_transmit ch" sl_used s] assms(1,2,4)
    by (simp add: channel_wf_def split: if_splits)
  moreover have "\<forall>x \<in> set ((ch_transmit ch)[i := s]). transmit_slot_ok (chc_max_retries (ch_config ch)) x"
    using assms(1,3) set_update_subset_insert [of "ch_transmit ch" i s] by (auto simp: channel_wf_def)
  ultimately show ?thesis using assms by (simp add: channel_wf_def)
qed

lemma channel_wf_ignores [simp]:
  "channel_wf config (ch\<lparr>ch_success_count := a\<rparr>) = channel_wf config ch"
  "channel_wf config (ch\<lparr>ch_next_sequence := b\<rparr>) = channel_wf config ch"
  by (simp_all add: channel_wf_def)

lemma channel_wf_slot_used:
  assumes "channel_wf config ch" "i < 32" "sl_used (ch_transmit ch ! i)"
  shows "0 < ch_outstanding ch"
  using assms by (auto simp: channel_wf_def filter_empty_conv intro!: bexI [of _ "ch_transmit ch ! i"])

lemma channel_wf_room: "channel_wf config ch \<Longrightarrow> ch_outstanding ch \<le> unat (chc_max_window (ch_config ch))"
  by (simp add: channel_wf_def)

lemma byte_window_arith:
  fixes w m :: byte
  shows "0 < w \<Longrightarrow> w < m \<Longrightarrow> 0 < w + 1 \<and> w + 1 \<le> m"
    and "1 < w \<Longrightarrow> 0 < w div 2 \<and> w div 2 \<le> w"
proof -
  have "0 < w + 1" if "0 < w" "w < m"
  proof (rule ccontr)
    assume "\<not> 0 < w + 1"
    then have "w + 1 = 0" by (simp add: word_gt_0)
    then have "w = - 1" by (simp add: eq_neg_iff_add_eq_0)
    with that(2) show False by (simp add: not_less)
  qed
  moreover have "w + 1 \<le> m" if "w < m" using that by (rule inc_le)
  ultimately show "0 < w \<Longrightarrow> w < m \<Longrightarrow> 0 < w + 1 \<and> w + 1 \<le> m" by blast
  show "1 < w \<Longrightarrow> 0 < w div 2 \<and> w div 2 \<le> w"
    by (simp add: word_less_nat_alt word_le_nat_alt unat_div)
qed

lemma send_wf:
  assumes wf: "channel_wf config ch" and op: "rns_channel_send rnd send m p now ch c = (r, ch', c')"
  shows "channel_wf config ch'"
proof (cases "ch_outstanding ch \<ge> unat (ch_window ch)")
  case True
  with assms show ?thesis by (simp add: rns_channel_send_def)
next
  case False
  then have room: "Suc (ch_outstanding ch) \<le> unat (chc_max_window (ch_config ch))"
    using wf by (simp add: channel_wf_def word_le_nat_alt)
  show ?thesis
  proof (cases "first_index (\<lambda>s. \<not> sl_used s) (ch_transmit ch)")
    case None
    with assms False show ?thesis by (simp add: rns_channel_send_def)
  next
    case (Some i)
    note slot = first_index_SomeD [OF Some]
    have i: "i < 32" "\<not> sl_used (ch_transmit ch ! i)" using slot wf by (simp_all add: channel_wf_def)
    have clear: "channel_wf config (ch\<lparr>ch_transmit := (ch_transmit ch)[i := zero_slot]\<rparr>)"
      using channel_wf_update [OF wf i(1) zero_slot_ok, of "ch_outstanding ch" "ch_window ch"] i wf
      by (simp add: channel_wf_def)
    show ?thesis
    proof (cases "rns_channel_envelope_encode m (ch_next_sequence ch) p 500")
      case (Inl status)
      with assms False Some show ?thesis by (simp add: rns_channel_send_def)
    next
      case (Inr e)
      obtain status c1 where sent: "send e c = (status, c1)" by fastforce
      have e: "e = envelope_of m (ch_next_sequence ch) p" "length p \<le> 494" using Inr by (simp_all add: encode_envelope_of)
      let ?s = "(ch_transmit ch ! i)\<lparr>sl_used := True, sl_sequence := ch_next_sequence ch,
          sl_length := of_nat (length e), sl_deadline := dadd rnd now (chc_retry_timeout (ch_config ch)),
          sl_envelope := e\<rparr>"
      have "unat (of_nat (length e) :: u16) = length e" using e by (intro unat_of_nat_u16) simp
      moreover have "sl_retries (ch_transmit ch ! i) = 0"
        using wf i by (auto simp: channel_wf_def transmit_slot_ok_def dest!: bspec [OF _ nth_mem])
      ultimately have "transmit_slot_ok (chc_max_retries (ch_config ch)) ?s"
        using e by (auto simp: transmit_slot_ok_def slot_bytes_def)
      then have ok: "channel_wf config (ch\<lparr>ch_transmit := (ch_transmit ch)[i := ?s], ch_outstanding := Suc (ch_outstanding ch),
          ch_window := ch_window ch\<rparr>)"
        using wf i room by (intro channel_wf_update) (auto simp: channel_wf_def)
      show ?thesis
      proof (cases "status = RNS_OK")
        case True
        with op False Some Inr sent ok show ?thesis by (auto simp: rns_channel_send_def channel_wf_def)
      next
        case unsent: False
        with op False Some Inr sent clear show ?thesis
          by (auto simp: rns_channel_send_def split: rns_status.splits)
      qed
    qed
  qed
qed

lemma mark_delivered_wf:
  assumes wf: "channel_wf config ch" and op: "rns_channel_mark_delivered event sequence ch c = (r, ch', c')"
  shows "channel_wf config ch'"
proof (cases "first_index (\<lambda>s. sl_used s \<and> sl_sequence s = sequence) (ch_transmit ch)")
  case None
  with assms show ?thesis by (simp add: rns_channel_mark_delivered_def)
next
  case (Some i)
  have i: "i < 32" "sl_used (ch_transmit ch ! i)"
    using first_index_SomeD [OF Some] wf by (simp_all add: channel_wf_def)
  have "channel_wf config (ch\<lparr>ch_transmit := (ch_transmit ch)[i := zero_slot], ch_outstanding := ch_outstanding ch - 1, ch_window := w\<rparr>)"
    if "0 < w" "w \<le> chc_max_window (ch_config ch)" for w
    using channel_wf_update [OF wf i(1) zero_slot_ok, of "ch_outstanding ch - 1" w] i that
      channel_wf_slot_used [OF wf i] channel_wf_room [OF wf] by simp
  moreover define w where "w = (if ch_success_count ch + 1 \<ge> ch_window ch \<and>
      ch_window ch < chc_max_window (ch_config ch) then ch_window ch + 1 else ch_window ch)"
  have "0 < w" "w \<le> chc_max_window (ch_config ch)"
    using wf byte_window_arith(1) [of "ch_window ch" "chc_max_window (ch_config ch)"]
    by (auto simp: channel_wf_def w_def)
  moreover obtain n where "ch' = ch\<lparr>ch_transmit := (ch_transmit ch)[i := zero_slot],
      ch_outstanding := ch_outstanding ch - 1, ch_window := w, ch_success_count := n\<rparr>"
    using op Some by (auto simp: rns_channel_mark_delivered_def Let_def w_def)
  ultimately show ?thesis by simp
qed

lemma tick_slot_wf:
  assumes wf: "channel_wf config ch" "i < 32" and op: "tick_slot rnd send event now i (n, ch, c) = (n', ch', c')"
  shows "channel_wf config ch'"
proof (cases "\<not> sl_used (ch_transmit ch ! i) \<or> dlt now (sl_deadline (ch_transmit ch ! i))")
  case True
  with assms show ?thesis by (auto simp: tick_slot_def Let_def)
next
  case False
  let ?s = "ch_transmit ch ! i"
  have used: "sl_used ?s" using False by simp
  have window: "0 < ch_window ch" "ch_window ch \<le> chc_max_window (ch_config ch)" using wf by (simp_all add: channel_wf_def)
  have s_ok: "transmit_slot_ok (chc_max_retries (ch_config ch)) ?s" using wf by (simp add: channel_wf_def)
  show ?thesis
  proof (cases "sl_retries ?s \<ge> chc_max_retries (ch_config ch)")
    case True
    have "channel_wf config (ch\<lparr>ch_transmit := (ch_transmit ch)[i := zero_slot], ch_outstanding := ch_outstanding ch - 1, ch_window := w\<rparr>)"
      if "0 < w" "w \<le> chc_max_window (ch_config ch)" for w
      using channel_wf_update [OF wf zero_slot_ok, of "ch_outstanding ch - 1" w] used that
        channel_wf_slot_used [OF wf(1,2) used] channel_wf_room [OF wf(1)] by simp
    moreover define w where "w = (if ch_window ch > 1 then ch_window ch div 2 else 1)"
    have w: "0 < w" "w \<le> chc_max_window (ch_config ch)"
      using window byte_window_arith(2) [of "ch_window ch"] by (auto simp: word_le_nat_alt word_less_nat_alt w_def)
    then have "\<not> w > chc_max_window (ch_config ch)" by simp
    then have "ch' = ch\<lparr>ch_transmit := (ch_transmit ch)[i := zero_slot],
        ch_outstanding := ch_outstanding ch - 1, ch_window := w, ch_success_count := 0\<rparr>"
      using op True False by (auto simp: tick_slot_def Let_def w_def [symmetric])
    moreover note w
    ultimately show ?thesis by simp
  next
    case retry: False
    have keep: "channel_wf config (ch\<lparr>ch_transmit := (ch_transmit ch)[i := s]\<rparr>)"
      if "transmit_slot_ok (chc_max_retries (ch_config ch)) s" "sl_used s" for s
      using channel_wf_update [OF wf that(1), of "ch_outstanding ch" "ch_window ch"] used that(2) window channel_wf_room [OF wf(1)] by simp
    have "sl_retries ?s + 1 \<le> chc_max_retries (ch_config ch)" using retry by (intro inc_le) simp
    then have "transmit_slot_ok (chc_max_retries (ch_config ch)) (?s\<lparr>sl_retries := sl_retries ?s + 1, sl_deadline := d\<rparr>)"
      "transmit_slot_ok (chc_max_retries (ch_config ch)) (?s\<lparr>sl_deadline := d\<rparr>)" for d
      using s_ok used by (auto simp: transmit_slot_ok_def slot_bytes_def)
    then show ?thesis
      using op False retry keep used by (auto simp: tick_slot_def Let_def split: prod.splits rns_status.splits)
  qed
qed

lemma tick_wf:
  assumes "channel_wf config ch" "rns_channel_tick rnd send event now ch c = (n, ch', c')"
  shows "channel_wf config ch'"
proof -
  have "channel_wf config (fst (snd (fold (tick_slot rnd send event now) is (a, ch, c))))"
    if "set is \<subseteq> {..<32}" "channel_wf config ch" for "is" a ch c
    using that
  proof (induction "is" arbitrary: a ch c)
    case Nil
    then show ?case by simp
  next
    case (Cons i "is")
    obtain a' ch' c' where step: "tick_slot rnd send event now i (a, ch, c) = (a', ch', c')" by (metis prod_cases3)
    with Cons.prems have "channel_wf config ch'" by (intro tick_slot_wf [OF _ _ step]) auto
    with Cons step show ?case by simp
  qed
  moreover have "set [0..<32] \<subseteq> {..<32 :: nat}" by auto
  ultimately show ?thesis using assms by (metis fst_conv snd_conv rns_channel_tick_def)
qed

lemma drain_keeps_sender:
  "drain_receive receive ch c = (status, ch', c') \<Longrightarrow> channel_wf config ch \<Longrightarrow> channel_wf config ch'"
proof (induction receive ch c rule: drain_receive.induct)
  case (1 receive ch c)
  have "channel_wf config (ch\<lparr>ch_receive := (ch_receive ch)[i := zero_slot], ch_expected_sequence := e\<rparr>)" for i e
    using "1.prems"(2) by (simp add: channel_wf_def)
  with 1 show ?case
    by (subst (asm) (2) drain_receive.simps) (auto simp: Let_def split: option.splits sum.splits prod.splits rns_status.splits)
qed

lemma receive_wf:
  assumes "channel_wf config ch" "rns_channel_receive receive event e ch c = (status, ch', c')"
  shows "channel_wf config ch'"
proof -
  have "channel_wf config (ch\<lparr>ch_receive := (ch_receive ch)[i := s]\<rparr>)" for i s
    using assms(1) by (simp add: channel_wf_def)
  then show ?thesis
    using assms by (auto simp: rns_channel_receive_def Let_def split: option.splits sum.splits if_splits
        dest!: drain_keeps_sender)
qed

text \<open>One operation on a channel, with any callbacks, any clock reading and any argument.\<close>

inductive channel_step :: "rounding \<Rightarrow> rns_channel \<times> 'c \<Rightarrow> rns_channel \<times> 'c \<Rightarrow> bool" for rnd where
  send: "rns_channel_send rnd send m p now ch c = (r, ch', c') \<Longrightarrow> channel_step rnd (ch, c) (ch', c')"
| delivered: "rns_channel_mark_delivered event s ch c = (status, ch', c') \<Longrightarrow> channel_step rnd (ch, c) (ch', c')"
| tick: "rns_channel_tick rnd send event now ch c = (n, ch', c') \<Longrightarrow> channel_step rnd (ch, c) (ch', c')"
| receive: "rns_channel_receive receive event e ch c = (status, ch', c') \<Longrightarrow> channel_step rnd (ch, c) (ch', c')"

interpretation channel: invariant_steps "channel_step rnd" "\<lambda>(ch, _). channel_wf config ch" for rnd config
proof
  fix s s' :: "rns_channel \<times> 'a"
  assume "channel_step rnd s s'" and wf: "case s of (ch, _) \<Rightarrow> channel_wf config ch"
  from this(1) show "case s' of (ch, _) \<Rightarrow> channel_wf config ch"
    by cases (use wf in \<open>auto dest: send_wf mark_delivered_wf tick_wf receive_wf\<close>)
qed

lemma encode_whole:
  "rns_channel_envelope_encode m s p 500 = (if 494 < length p then Inl RNS_ERROR_OVERFLOW else Inr (envelope_of m s p))"
  by (auto simp: rns_channel_envelope_encode_def envelope_of_def Let_def)

text \<open>A window that is not full leaves a free slot, so sending fails for the stated reasons only.\<close>

lemma send_outcome:
  assumes wf: "channel_wf config ch"
  shows "fst (rns_channel_send rnd send m p now ch c) =
     (if unat (ch_window ch) \<le> ch_outstanding ch \<or> RNS_CHANNEL_MAX_PAYLOAD_BYTES < length p
      then Inl RNS_ERROR_OVERFLOW
      else let status = fst (send (envelope_of m (ch_next_sequence ch) p) c)
           in if status = RNS_OK then Inr (ch_next_sequence ch) else Inl status)"
proof (cases "unat (ch_window ch) \<le> ch_outstanding ch")
  case True
  then show ?thesis by (simp add: rns_channel_send_def)
next
  case False
  have "first_index (\<lambda>s. \<not> sl_used s) (ch_transmit ch) \<noteq> None"
  proof
    assume "first_index (\<lambda>s. \<not> sl_used s) (ch_transmit ch) = None"
    then have "filter sl_used (ch_transmit ch) = ch_transmit ch"
      by (simp add: first_index_None_iff filter_id_conv)
    then show False using wf False by (simp add: channel_wf_def word_le_nat_alt)
  qed
  then obtain i where "first_index (\<lambda>s. \<not> sl_used s) (ch_transmit ch) = Some i" by blast
  then show ?thesis
    using False
    by (cases "send (envelope_of m (ch_next_sequence ch) p) c")
       (auto simp: rns_channel_send_def encode_whole split: rns_status.splits)
qed

lemma send_counts:
  "rns_channel_send rnd send m p now ch c = (Inr seq, ch', c') \<Longrightarrow>
     ch_outstanding ch' = Suc (ch_outstanding ch) \<and> ch_window ch' = ch_window ch"
  by (auto simp: rns_channel_send_def split: if_splits option.splits sum.splits prod.splits rns_status.splits)

text \<open>
  C27. The sender keeps within its window and its books are right. After any sequence of sends,
  deliveries, timer ticks and received envelopes, with any callbacks and clock: the configuration
  is the one it was set up with; the window is between one and the configured maximum; the number
  of outstanding messages is the number of used slots and never exceeds the configured maximum
  window; no message has been retried more than the configured number of times; and every used slot
  holds a whole envelope with the sequence number it is filed under. In each such state a send is
  refused as an overflow exactly when the current window is full or the payload too long, and
  otherwise its result is that of the callback; one that succeeds leaves at most a full window.
\<close>

theorem channel_invariant:
  assumes "rns_channel_init config = Inr ch0" and "(channel_step rnd)\<^sup>*\<^sup>* (ch0, c0) (ch, c)"
  shows "ch_config ch = config \<and> 0 < ch_window ch \<and> ch_window ch \<le> chc_max_window config \<and>
         ch_outstanding ch = length (filter sl_used (ch_transmit ch)) \<and>
         ch_outstanding ch \<le> unat (chc_max_window config) \<and>
         (\<forall>s \<in> set (ch_transmit ch). sl_used s \<longrightarrow>
            sl_retries s \<le> chc_max_retries config \<and>
            (\<exists>m p. rns_channel_envelope_decode (take (unat (sl_length s)) (sl_envelope s)) = Inr (m, sl_sequence s, p))) \<and>
         (\<forall>send m p now.
            fst (rns_channel_send rnd send m p now ch c) =
              (if unat (ch_window ch) \<le> ch_outstanding ch \<or> RNS_CHANNEL_MAX_PAYLOAD_BYTES < length p
               then Inl RNS_ERROR_OVERFLOW
               else let status = fst (send (envelope_of m (ch_next_sequence ch) p) c)
                    in if status = RNS_OK then Inr (ch_next_sequence ch) else Inl status)) \<and>
         (\<forall>send m p now seq ch' c'. rns_channel_send rnd send m p now ch c = (Inr seq, ch', c') \<longrightarrow>
            ch_outstanding ch' = Suc (ch_outstanding ch) \<and> ch_outstanding ch' \<le> unat (ch_window ch'))"
proof -
  have "channel_wf config ch0"
    using assms(1)
    by (auto simp: rns_channel_init_def channel_wf_def word_le_nat_alt word_less_nat_alt unat_gt_0 split: if_splits)
  then have wf: "channel_wf config ch" using channel.reachable_invariant [OF assms(2), of config] by simp
  have slots: "\<exists>m p. rns_channel_envelope_decode (take (unat (sl_length s)) (sl_envelope s)) = Inr (m, sl_sequence s, p)"
    "sl_retries s \<le> chc_max_retries config" if "s \<in> set (ch_transmit ch)" "sl_used s" for s
  proof -
    have "transmit_slot_ok (chc_max_retries config) s" using wf that(1) by (simp add: channel_wf_def)
    then show "\<exists>m p. rns_channel_envelope_decode (take (unat (sl_length s)) (sl_envelope s)) = Inr (m, sl_sequence s, p)"
      "sl_retries s \<le> chc_max_retries config"
      using that(2) decode_envelope_of by (auto simp: transmit_slot_ok_def slot_bytes_def)
  qed
  have sent: "ch_outstanding ch' = Suc (ch_outstanding ch) \<and> ch_outstanding ch' \<le> unat (ch_window ch')"
    if "rns_channel_send rnd send m p now ch c = (Inr seq, ch', c')" for send m p now seq ch' c'
    using send_counts [OF that] send_outcome [OF wf, of rnd send m p now c] that by (simp split: if_splits)
  have books: "ch_config ch = config \<and> 0 < ch_window ch \<and> ch_window ch \<le> chc_max_window config \<and>
      ch_outstanding ch = length (filter sl_used (ch_transmit ch)) \<and> ch_outstanding ch \<le> unat (chc_max_window config)"
    using wf by (simp add: channel_wf_def)
  then show ?thesis
    by (intro conjI allI impI ballI send_outcome [OF wf]) (use slots sent in \<open>blast+\<close>)
qed

theorem channel_invariant_witness:
  "ch_outstanding (fst (snd (rns_channel_send Fin (\<lambda>_ c. (RNS_OK, c)) 7 [1] (Fin 0) sample_channel ()))) \<le>
     unat (chc_max_window sample_channel_config)"
proof -
  obtain r ch c where op: "rns_channel_send Fin (\<lambda>_ c. (RNS_OK, c)) 7 [1] (Fin 0) sample_channel () = (r, ch, c)"
    by (metis prod_cases3)
  then have "(channel_step Fin)\<^sup>*\<^sup>* (sample_channel, ()) (ch, c)"
    by (intro r_into_rtranclp channel_step.send)
  from channel_invariant [OF sample_channel_init this] op show ?thesis by simp
qed

end
