(* ===== verification/Request.thy ===== *)
theory Request
  imports Crypto
begin

text \<open>
  Requests and responses over a link (\<^verbatim>\<open>src/link/request.c\<close>): the recogniser of one
  MessagePack object, and the two message formats.

  A cursor into the input is the list of the bytes that remain; the recogniser returns them. A path
  is the characters of the C string. The memory representation of a double is the pair of
  parameters \<open>to_bits\<close> and \<open>of_bits\<close>.
\<close>

abbreviation (input) RNS_REQUEST_ID_LENGTH :: nat where "RNS_REQUEST_ID_LENGTH \<equiv> 16"
abbreviation (input) RNS_REQUEST_PATH_MAX :: nat where "RNS_REQUEST_PATH_MAX \<equiv> 1024"

record rns_request_view =
  rqv_requested_at :: double
  rqv_path_hash :: bytes
  rqv_data_msgpack :: bytes

record rns_response_view =
  rsv_request_id :: bytes
  rsv_response_msgpack :: bytes
  rsv_response :: bytes

definition read32 :: "bytes \<Rightarrow> u32" where
  "read32 p = push_bit 24 (ucast (p ! 0)) OR push_bit 16 (ucast (p ! 1)) OR push_bit 8 (ucast (p ! 2)) OR
              ucast (p ! 3)"

definition read16 :: "bytes \<Rightarrow> u32" where
  \<comment> \<open>\<^verbatim>\<open>(p[0] << 8) | p[1]\<close>\<close>
  "read16 p = push_bit 8 (ucast (p ! 0)) OR ucast (p ! 1)"

text \<open>
  The head of an object, its first byte and the length that may follow: how many bytes of content
  and how many child objects come next, and the input after the head.
\<close>

definition object_head :: "byte \<Rightarrow> bytes \<Rightarrow> (nat \<times> nat \<times> bytes) option" where
  "object_head code rest =
     (if code \<le> 0x7f \<or> code \<ge> 0xe0 \<or> code = 0xc0 \<or> code = 0xc2 \<or> code = 0xc3 then Some (0, 0, rest)
      else if code AND 0xe0 = 0xa0 then Some (unat (code AND 0x1f), 0, rest)
      else if code AND 0xf0 = 0x90 then Some (0, unat (code AND 0x0f), rest)
      else if code AND 0xf0 = 0x80 then Some (0, 2 * unat (code AND 0x0f), rest)
      else if code = 0xc4 \<or> code = 0xd9
      then (if length rest < 1 then None else Some (unat (rest ! 0), 0, drop 1 rest))
      else if code = 0xc5 \<or> code = 0xda
      then (if length rest < 2 then None else Some (unat (read16 rest), 0, drop 2 rest))
      else if code = 0xc6 \<or> code = 0xdb
      then (if length rest < 4 then None else Some (unat (read32 rest), 0, drop 4 rest))
      else if code = 0xca then Some (4, 0, rest)
      else if code = 0xcb then Some (8, 0, rest)
      else if code = 0xcc \<or> code = 0xd0 then Some (1, 0, rest)
      else if code = 0xcd \<or> code = 0xd1 then Some (2, 0, rest)
      else if code = 0xce \<or> code = 0xd2 then Some (4, 0, rest)
      else if code = 0xcf \<or> code = 0xd3 then Some (8, 0, rest)
      else if code = 0xd4 then Some (2, 0, rest)
      else if code = 0xd5 then Some (3, 0, rest)
      else if code = 0xd6 then Some (5, 0, rest)
      else if code = 0xd7 then Some (9, 0, rest)
      else if code = 0xd8 then Some (17, 0, rest)
      else if code = 0xdc
      then (if length rest < 2 then None else Some (0, unat (read16 rest), drop 2 rest))
      else if code = 0xdd
      then (if length rest < 4 then None else Some (0, unat (read32 rest), drop 4 rest))
      else if code = 0xde
      then (if length rest < 2 then None else Some (0, 2 * unat (read16 rest), drop 2 rest))
      else if code = 0xdf
      then (if length rest < 4 then None else Some (0, 2 * unat (read32 rest), drop 4 rest))
      else None)"

text \<open>The recursion is bounded by the depth; the loop over the children by their number.\<close>

function skip_object :: "nat \<Rightarrow> bytes \<Rightarrow> bytes option"
  and skip_children :: "nat \<Rightarrow> nat \<Rightarrow> bytes \<Rightarrow> bytes option" where
  "skip_object depth input =
     (case input of
        [] \<Rightarrow> None
      | code # rest \<Rightarrow>
          if depth > 32 then None
          else (case object_head code rest of
                  None \<Rightarrow> None
                | Some (count, children, rest') \<Rightarrow>
                    if count > length rest' then None
                    else skip_children children (Suc depth) (drop count rest')))"
| "skip_children 0 depth input = Some input"
| "skip_children (Suc n) depth input =
     (case skip_object depth input of
        None \<Rightarrow> None
      | Some rest \<Rightarrow> skip_children n depth rest)"
  by pat_completeness auto
termination
  by (relation "measures
        [\<lambda>x. case x of Inl (depth, _) \<Rightarrow> 33 - depth | Inr (_, depth, _) \<Rightarrow> 33 - depth,
         \<lambda>x. case x of Inl _ \<Rightarrow> 0 | Inr (n, _, _) \<Rightarrow> Suc n]") auto

declare skip_object.simps [simp del]

definition one_object :: "bytes \<Rightarrow> bool" where
  \<comment> \<open>\<^verbatim>\<open>skip_object(&cursor, end, 0) && cursor == end\<close>\<close>
  "one_object input \<longleftrightarrow> skip_object 0 input = Some []"

definition write64 :: "u64 \<Rightarrow> bytes" where
  "write64 v = be_put 8 v"

definition rns_request_encode ::
  "'r rns_crypto_provider option \<Rightarrow> (double \<Rightarrow> u64) \<Rightarrow> bytes \<Rightarrow> double \<Rightarrow> bytes \<Rightarrow> nat \<Rightarrow> rns_status + bytes" where
  "rns_request_encode P to_bits path requested_at data capacity =
     (if \<not> isfinite requested_at \<or> dlt requested_at (Fin 0) then Inl RNS_ERROR_INVALID_ARGUMENT
      else if length path = 0 \<or> length path > RNS_REQUEST_PATH_MAX then Inl RNS_ERROR_INVALID_ARGUMENT
      else if data \<noteq> [] \<and> \<not> one_object data then Inl RNS_ERROR_PROTOCOL
      else let needed = 1 + 9 + 2 + RNS_REQUEST_ID_LENGTH + (if data \<noteq> [] then length data else 1)
           in if needed > capacity then Inl RNS_ERROR_OVERFLOW
              else (case rns_sha256 P path of
                      None \<Rightarrow> Inl RNS_ERROR_CRYPTO
                    | Some digest \<Rightarrow>
                        Inr ([0x93, 0xcb] @ write64 (to_bits requested_at) @
                             [0xc4, of_nat RNS_REQUEST_ID_LENGTH] @ take RNS_REQUEST_ID_LENGTH digest @
                             (if data \<noteq> [] then data else [0xc0]))))"

definition rns_request_decode :: "(u64 \<Rightarrow> double) \<Rightarrow> bytes \<Rightarrow> rns_status + rns_request_view" where
  "rns_request_decode of_bits input =
     (if length input < 29 \<or> input ! 0 \<noteq> 0x93 \<or> input ! 1 \<noteq> 0xcb \<or> input ! 10 \<noteq> 0xc4 \<or>
         input ! 11 \<noteq> of_nat RNS_REQUEST_ID_LENGTH then Inl RNS_ERROR_PROTOCOL
      else let timestamp = of_bits (be_get (bytes_at 2 8 input))
           in if \<not> isfinite timestamp \<or> dlt timestamp (Fin 0) then Inl RNS_ERROR_PROTOCOL
              else if \<not> one_object (drop 28 input) then Inl RNS_ERROR_PROTOCOL
              else Inr \<lparr>rqv_requested_at = timestamp,
                        rqv_path_hash = bytes_at 12 RNS_REQUEST_ID_LENGTH input,
                        rqv_data_msgpack = drop 28 input\<rparr>)"

definition read_bytes :: "bytes \<Rightarrow> (bytes \<times> bytes) option" where
  \<comment> \<open>the bytes read and the input after them\<close>
  "read_bytes input =
     (case input of
        [] \<Rightarrow> None
      | code # rest \<Rightarrow>
          let sized = (\<lambda>n rest'. if n > length rest' then None else Some (take n rest', drop n rest'))
          in if code AND 0xe0 = 0xa0 then sized (unat (code AND 0x1f)) rest
             else if code = 0xc4 \<or> code = 0xd9
             then (if rest = [] then None else sized (unat (rest ! 0)) (drop 1 rest))
             else if code = 0xc5 \<or> code = 0xda
             then (if length rest < 2 then None else sized (unat (read16 rest)) (drop 2 rest))
             else if code = 0xc6 \<or> code = 0xdb
             then (if length rest < 4 then None else sized (unat (read32 rest)) (drop 4 rest))
             else None)"

definition rns_response_decode :: "bytes \<Rightarrow> rns_status + rns_response_view" where
  "rns_response_decode input =
     (if length input < 1 \<or> input ! 0 \<noteq> 0x92 then Inl RNS_ERROR_PROTOCOL
      else case read_bytes (drop 1 input) of
             None \<Rightarrow> Inl RNS_ERROR_PROTOCOL
           | Some (request_id, object) \<Rightarrow>
               if length request_id \<noteq> RNS_REQUEST_ID_LENGTH then Inl RNS_ERROR_PROTOCOL
               else if \<not> one_object object then Inl RNS_ERROR_PROTOCOL
               else Inr \<lparr>rsv_request_id = request_id, rsv_response_msgpack = object,
                         rsv_response = (case read_bytes object of
                                           Some (body, []) \<Rightarrow> body
                                         | _ \<Rightarrow> object)\<rparr>)"

definition rns_response_encode :: "bytes \<Rightarrow> bytes \<Rightarrow> nat \<Rightarrow> rns_status + bytes" where
  "rns_response_encode request_id response_msgpack output_capacity =
     (if length response_msgpack = 0 then Inl RNS_ERROR_INVALID_ARGUMENT
      else if \<not> one_object response_msgpack then Inl RNS_ERROR_PROTOCOL
      else if length response_msgpack > SIZE_MAX - 19 \<or> output_capacity < 19 + length response_msgpack
      then Inl RNS_ERROR_OVERFLOW
      else Inr ([0x92, 0xc4, of_nat RNS_REQUEST_ID_LENGTH] @ request_id @ response_msgpack))"

section \<open>The MessagePack format\<close>

text \<open>
  The format as its specification has it: a table of heads, each with the bytes of content and the
  number of objects it announces, and objects as heads followed by both. With \<open>ext\<close> true it is the
  whole format; with \<open>ext\<close> false the extension objects with a length of their own (ext 8, ext 16 and
  ext 32, a length, a type byte and the data) do not occur, at any depth.
\<close>

definition nat_of_be :: "bytes \<Rightarrow> nat" where
  "nat_of_be bs = foldl (\<lambda>n b. 256 * n + unat b) 0 bs"

inductive msgpack_head :: "bool \<Rightarrow> bytes \<Rightarrow> nat \<Rightarrow> nat \<Rightarrow> bool" for ext where
  mp_single: "b \<le> 0x7f \<or> 0xe0 \<le> b \<or> b \<in> {0xc0, 0xc2, 0xc3} \<Longrightarrow> msgpack_head ext [b] 0 0"
| mp_fixstr: "b \<in> {0xa0..0xbf} \<Longrightarrow> msgpack_head ext [b] (unat b - 0xa0) 0"
| mp_fixarray: "b \<in> {0x90..0x9f} \<Longrightarrow> msgpack_head ext [b] 0 (unat b - 0x90)"
| mp_fixmap: "b \<in> {0x80..0x8f} \<Longrightarrow> msgpack_head ext [b] 0 (2 * (unat b - 0x80))"
| mp_sized: "(b, length ls) \<in> {(0xc4, 1), (0xd9, 1), (0xc5, 2), (0xda, 2), (0xc6, 4), (0xdb, 4)} \<Longrightarrow>
             msgpack_head ext (b # ls) (nat_of_be ls) 0"
| mp_array: "(b, length ls) \<in> {(0xdc, 2), (0xdd, 4)} \<Longrightarrow> msgpack_head ext (b # ls) 0 (nat_of_be ls)"
| mp_map: "(b, length ls) \<in> {(0xde, 2), (0xdf, 4)} \<Longrightarrow> msgpack_head ext (b # ls) 0 (2 * nat_of_be ls)"
| mp_fixed: "(b, n) \<in> {(0xca, 4), (0xcb, 8), (0xcc, 1), (0xcd, 2), (0xce, 4), (0xcf, 8), (0xd0, 1), (0xd1, 2),
                       (0xd2, 4), (0xd3, 8), (0xd4, 2), (0xd5, 3), (0xd6, 5), (0xd7, 9), (0xd8, 17)} \<Longrightarrow>
             msgpack_head ext [b] n 0"
| mp_ext: "ext \<Longrightarrow> (b, length ls) \<in> {(0xc7, 1), (0xc8, 2), (0xc9, 4)} \<Longrightarrow>
           msgpack_head ext (b # ls) (Suc (nat_of_be ls)) 0"

text \<open>Objects nested at most \<open>k\<close> deep.\<close>

inductive msgpack :: "bool \<Rightarrow> nat \<Rightarrow> bytes \<Rightarrow> bool" for ext where
  msgpack_object: "msgpack_head ext h (length content) (length objects) \<Longrightarrow>
     (\<And>x. x \<in> set objects \<Longrightarrow> msgpack ext k x) \<Longrightarrow>
     msgpack ext (Suc k) (h @ content @ concat objects)"

inductive_cases msgpackE: "msgpack ext k x"

text \<open>
  The work of the recogniser: the number of calls of \<^verbatim>\<open>skip_object\<close> that a run makes, whether it
  succeeds or not.
\<close>

function T_skip_object :: "nat \<Rightarrow> bytes \<Rightarrow> nat"
  and T_skip_children :: "nat \<Rightarrow> nat \<Rightarrow> bytes \<Rightarrow> nat" where
  "T_skip_object depth input =
     Suc (case input of
            [] \<Rightarrow> 0
          | code # rest \<Rightarrow>
              if depth > 32 then 0
              else (case object_head code rest of
                      None \<Rightarrow> 0
                    | Some (count, children, rest') \<Rightarrow>
                        if count > length rest' then 0
                        else T_skip_children children (Suc depth) (drop count rest')))"
| "T_skip_children 0 depth input = 0"
| "T_skip_children (Suc n) depth input =
     T_skip_object depth input +
     (case skip_object depth input of
        None \<Rightarrow> 0
      | Some rest \<Rightarrow> T_skip_children n depth rest)"
  by pat_completeness auto
termination
  by (relation "measures
        [\<lambda>x. case x of Inl (depth, _) \<Rightarrow> 33 - depth | Inr (_, depth, _) \<Rightarrow> 33 - depth,
         \<lambda>x. case x of Inl _ \<Rightarrow> 0 | Inr (n, _, _) \<Rightarrow> Suc n]") auto

declare T_skip_object.simps [simp del]

lemma unat_or_shift:
  fixes a :: "'a::len word"
  assumes "8 < LENGTH('a)" "unat a < 2 ^ (LENGTH('a) - 8)"
  shows "unat (push_bit 8 a OR ucast (b :: byte)) = 256 * unat a + unat b"
proof -
  have len: "(2 :: nat) ^ LENGTH('a) = 256 * 2 ^ (LENGTH('a) - 8)"
    using power_add [of "2 :: nat" 8 "LENGTH('a) - 8"] assms(1) by simp
  have push: "unat (push_bit 8 a) = 256 * unat a"
    using assms(2) len by (simp add: unsigned_push_bit_eq push_bit_nat_def take_bit_nat_eq_self)
  have cast: "unat (ucast b :: 'a word) = unat b"
    using unsigned_less [of b, where 'a = nat] power_increasing [of 8 "LENGTH('a)" "2 :: nat"] assms(1)
    by (simp add: unsigned_ucast_eq take_bit_nat_eq_self)
  have "push_bit 8 a AND ucast b = 0"
    by (rule bit_word_eqI) (auto simp: bit_simps dest: bit_imp_le_length)
  then have "push_bit 8 a OR ucast b = push_bit 8 a + ucast b"
    by (simp add: disjunctive_add_eq_or)
  moreover have "256 * unat a + unat b < 2 ^ LENGTH('a)"
  proof -
    have "unat b < 256" using unsigned_less [of b, where 'a = nat] by simp
    moreover have "Suc (unat a) \<le> 2 ^ (LENGTH('a) - 8)" using assms(2) by simp
    ultimately show ?thesis using len by linarith
  qed
  ultimately show ?thesis
    by (simp add: unat_word_ariths push cast)
qed

lemma nat_of_be_less: "nat_of_be bs < 2 ^ (8 * length bs)"
proof (induction bs rule: rev_induct)
  case Nil
  then show ?case by (simp add: nat_of_be_def)
next
  case (snoc b bs)
  have "unat b < 256" using unsigned_less [of b, where 'a = nat] by simp
  moreover have "Suc (nat_of_be bs) \<le> 2 ^ (8 * length bs)" using snoc by simp
  moreover have "nat_of_be (bs @ [b]) = 256 * nat_of_be bs + unat b" by (simp add: nat_of_be_def)
  moreover have "(2 :: nat) ^ (8 * length (bs @ [b])) = 256 * 2 ^ (8 * length bs)"
    by (simp add: power_add)
  ultimately show ?case by linarith
qed

lemma unat_be_get:
  assumes "8 * length bs \<le> LENGTH('a)" "8 < LENGTH('a)"
  shows "unat (be_get bs :: 'a::len word) = nat_of_be bs"
  using assms(1)
proof (induction bs rule: rev_induct)
  case Nil
  then show ?case by (simp add: nat_of_be_def)
next
  case (snoc b bs)
  then have IH: "unat (be_get bs :: 'a word) = nat_of_be bs" by simp
  have "nat_of_be bs < 2 ^ (LENGTH('a) - 8)"
    by (rule less_le_trans [OF nat_of_be_less]) (use snoc.prems in \<open>simp add: power_increasing\<close>)
  then show ?case
    using unat_or_shift [of "be_get bs :: 'a word" b] assms(2) by (simp add: IH nat_of_be_def)
qed

lemma read16_nat: "2 \<le> length bs \<Longrightarrow> unat (read16 bs) = nat_of_be (take 2 bs)"
  using unat_be_get [of "take 2 bs", where 'a = 32]
  by (simp add: take_Cons_numeral(1) read16_def be_get_def)

lemma read32_nat: "4 \<le> length bs \<Longrightarrow> unat (read32 bs) = nat_of_be (take 4 bs)"
  using unat_be_get [of "take 4 bs", where 'a = 32]
  by (simp add: take_Cons_numeral(2) read32_def be_get_def or.assoc)

lemma read8_nat: "1 \<le> length bs \<Longrightarrow> unat (bs ! 0) = nat_of_be (take 1 bs)"
  by (cases bs) (simp_all add: nat_of_be_def)

lemmas read_nat = read8_nat read16_nat read32_nat

text \<open>The bit tests on the first byte are range tests.\<close>

lemma unat_and_not_mask: "unat (w AND NOT (mask n) :: 'a::len word) = 2 ^ n * (unat w div 2 ^ n)"
proof -
  have "take_bit n w AND (w AND NOT (mask n)) = 0"
    by (rule bit_word_eqI) (simp add: bit_simps)
  then have "take_bit n w + (w AND NOT (mask n)) = take_bit n w OR (w AND NOT (mask n))"
    by (simp add: disjunctive_add_eq_or)
  also have "\<dots> = w"
    by (rule bit_word_eqI) (auto simp: bit_simps)
  finally have "w AND NOT (mask n) = w - take_bit n w" by (simp add: algebra_simps)
  moreover have "take_bit n w \<le> w"
    by (simp add: word_le_nat_alt unsigned_take_bit_eq take_bit_nat_less_eq_self)
  ultimately have "unat (w AND NOT (mask n)) = unat w - unat w mod 2 ^ n"
    by (simp add: unat_sub unsigned_take_bit_eq take_bit_nat_def)
  then show ?thesis by (simp add: minus_mod_eq_mult_div)
qed

lemma mod_offset:
  fixes x k n :: nat
  assumes "k * n \<le> x" "x < k * n + n"
  shows "x mod n = x - k * n"
proof -
  obtain y where y: "x = y + k * n" using assms(1) by (metis add.commute le_Suc_ex)
  then have "x mod n = y mod n" by simp
  also have "\<dots> = y" using assms(2) y by simp
  finally show ?thesis using y by simp
qed

lemma code_ranges:
  fixes code :: byte
  shows "code AND 0xe0 = 0xa0 \<longleftrightarrow> code \<in> {0xa0..0xbf}"
    and "code AND 0xf0 = 0x90 \<longleftrightarrow> code \<in> {0x90..0x9f}"
    and "code AND 0xf0 = 0x80 \<longleftrightarrow> code \<in> {0x80..0x8f}"
    and "code \<in> {0xa0..0xbf} \<Longrightarrow> unat (code AND 0x1f) = unat code - 0xa0"
    and "code \<in> {0x90..0x9f} \<Longrightarrow> unat (code AND 0x0f) = unat code - 0x90"
    and "code \<in> {0x80..0x8f} \<Longrightarrow> unat (code AND 0x0f) = unat code - 0x80"
proof -
  have masks: "(0xe0 :: byte) = NOT (mask 5)" "(0xf0 :: byte) = NOT (mask 4)"
    "(0x1f :: byte) = mask 5" "(0x0f :: byte) = mask 4"
    by (simp_all add: mask_eq_exp_minus_1 word_unat_eq_iff)
  have high: "unat (code AND 0xe0) = 32 * (unat code div 32)" "unat (code AND 0xf0) = 16 * (unat code div 16)"
    unfolding masks unat_and_not_mask by simp_all
  have low: "unat (code AND 0x1f) = unat code mod 32" "unat (code AND 0x0f) = unat code mod 16"
    unfolding masks take_bit_eq_mask [symmetric] unsigned_take_bit_eq by (simp_all add: take_bit_nat_def)
  show "code AND 0xe0 = 0xa0 \<longleftrightarrow> code \<in> {0xa0..0xbf}" "code AND 0xf0 = 0x90 \<longleftrightarrow> code \<in> {0x90..0x9f}"
    "code AND 0xf0 = 0x80 \<longleftrightarrow> code \<in> {0x80..0x8f}"
    unfolding word_unat_eq_iff high atLeastAtMost_iff word_le_nat_alt by (simp_all; linarith)+
  show "code \<in> {0xa0..0xbf} \<Longrightarrow> unat (code AND 0x1f) = unat code - 0xa0"
    "code \<in> {0x90..0x9f} \<Longrightarrow> unat (code AND 0x0f) = unat code - 0x90"
    "code \<in> {0x80..0x8f} \<Longrightarrow> unat (code AND 0x0f) = unat code - 0x80"
    unfolding low atLeastAtMost_iff word_le_nat_alt
    using mod_offset [of 5 32 "unat code"] mod_offset [of 9 16 "unat code"] mod_offset [of 8 16 "unat code"] by simp_all
qed

lemma head_only: "msgpack_head False [code] n c \<Longrightarrow> \<exists>h. code # rest = h @ rest \<and> msgpack_head False h n c"
  by (rule exI [of _ "[code]"]) simp

lemma head_with_length:
  "msgpack_head False (code # take k rest) n c \<Longrightarrow> \<exists>h. code # rest = h @ drop k rest \<and> msgpack_head False h n c"
  by (rule exI [of _ "code # take k rest"]) simp

lemma object_head_sound:
  "object_head code rest = Some (n, c, rest') \<Longrightarrow> \<exists>h. code # rest = h @ rest' \<and> msgpack_head False h n c"
  unfolding object_head_def code_ranges(1-3)
  apply (simp only: split: if_splits)
  apply (simp_all only: option.simps prod.simps code_ranges(4-6) not_less)
  apply (elim conjE, hypsubst, rule head_only head_with_length, (simp only: read_nat)?,
      rule msgpack_head.intros, (elim disjE)?, simp_all del: atLeastAtMost_iff; fail)+
  done

lemma object_head_complete:
  assumes "msgpack_head False h n c"
  shows "h \<noteq> [] \<and> object_head (hd h) (tl h @ rest) = Some (n, c, rest)"
  using assms
proof cases
  case (mp_single b)
  then show ?thesis by (simp add: object_head_def)
next
  case (mp_fixstr b)
  then have "\<not> (b \<le> 0x7f \<or> b \<ge> 0xe0 \<or> b = 0xc0 \<or> b = 0xc2 \<or> b = 0xc3)"
    by (auto simp: word_le_nat_alt)
  with mp_fixstr show ?thesis by (simp only: object_head_def code_ranges list.sel append.simps if_False if_True list.distinct simp_thms)
next
  case (mp_fixarray b)
  then have "\<not> (b \<le> 0x7f \<or> b \<ge> 0xe0 \<or> b = 0xc0 \<or> b = 0xc2 \<or> b = 0xc3)" "b \<notin> {0xa0..0xbf}"
    by (auto simp: word_le_nat_alt)
  with mp_fixarray show ?thesis by (simp only: object_head_def code_ranges list.sel append.simps if_False if_True list.distinct simp_thms)
next
  case (mp_fixmap b)
  then have "\<not> (b \<le> 0x7f \<or> b \<ge> 0xe0 \<or> b = 0xc0 \<or> b = 0xc2 \<or> b = 0xc3)" "b \<notin> {0xa0..0xbf}" "b \<notin> {0x90..0x9f}"
    by (auto simp: word_le_nat_alt)
  with mp_fixmap show ?thesis by (simp only: object_head_def code_ranges list.sel append.simps if_False if_True list.distinct simp_thms)
next
  case (mp_sized b ls)
  then show ?thesis by (elim insertE) (simp_all add: object_head_def read_nat)
next
  case (mp_array b ls)
  then show ?thesis by (elim insertE) (simp_all add: object_head_def read_nat)
next
  case (mp_map b ls)
  then show ?thesis by (elim insertE) (simp_all add: object_head_def read_nat)
next
  case (mp_fixed b)
  then show ?thesis by (elim insertE) (simp_all add: object_head_def)
qed simp

lemma msgpack_nonempty: "msgpack False k x \<Longrightarrow> x \<noteq> []"
  by (erule msgpackE) (auto dest: object_head_complete)

lemma skip_sound_complete:
  "skip_object depth input = Some rest \<longleftrightarrow> (\<exists>x. input = x @ rest \<and> msgpack False (33 - depth) x)"
  "skip_children n depth input = Some rest \<longleftrightarrow>
     (\<exists>xs. length xs = n \<and> input = concat xs @ rest \<and> (\<forall>x \<in> set xs. msgpack False (33 - depth) x))"
proof (induction depth input and n depth input arbitrary: rest and rest rule: skip_object_skip_children.induct)
  case (1 depth input)
  show ?case
  proof
    assume skip: "skip_object depth input = Some rest"
    then obtain code tail count children rest' where
      input: "input = code # tail" and depth: "depth \<le> 32"
      and head: "object_head code tail = Some (count, children, rest')"
      and count: "count \<le> length rest'"
      and kids: "skip_children children (Suc depth) (drop count rest') = Some rest"
      by (subst (asm) skip_object.simps) (auto split: list.splits if_splits option.splits)
    obtain h where h: "code # tail = h @ rest'" "msgpack_head False h count children"
      using object_head_sound [OF head] by blast
    obtain xs where xs: "length xs = children" "drop count rest' = concat xs @ rest"
        "\<forall>x \<in> set xs. msgpack False (33 - Suc depth) x"
      using 1 [OF input _ head refl refl, of rest] depth count kids by auto
    have "msgpack False (Suc (33 - Suc depth)) (h @ take count rest' @ concat xs)"
      using h(2) xs(1,3) count by (intro msgpack_object) auto
    moreover have "Suc (33 - Suc depth) = 33 - depth" using depth by simp
    moreover have "input = (h @ take count rest' @ concat xs) @ rest"
      using input h(1) xs(2) append_take_drop_id [of count rest'] by simp
    ultimately show "\<exists>x. input = x @ rest \<and> msgpack False (33 - depth) x" by auto
  next
    assume "\<exists>x. input = x @ rest \<and> msgpack False (33 - depth) x"
    then obtain x where input: "input = x @ rest" and "msgpack False (33 - depth) x" by blast
    then obtain h content xs k where x: "x = h @ content @ concat xs" and k: "33 - depth = Suc k"
      and head: "msgpack_head False h (length content) (length xs)" and xs: "\<And>y. y \<in> set xs \<Longrightarrow> msgpack False k y"
      by (auto elim: msgpackE)
    let ?rest = "content @ concat xs @ rest"
    obtain code ls where h: "h = code # ls" "object_head code (ls @ ?rest) = Some (length content, length xs, ?rest)"
      using object_head_complete [OF head, of ?rest] by (cases h) auto
    have "skip_children (length xs) (Suc depth) (concat xs @ rest) = Some rest"
    proof -
      have "k = 33 - Suc depth" "\<not> 32 < depth" using k by auto
      with xs show ?thesis
        using 1 [of code "ls @ ?rest", OF _ _ h(2) refl refl, of rest] h(1) by (auto simp: input x)
    qed
    then show "skip_object depth input = Some rest"
      using h k by (subst skip_object.simps) (simp add: input x)
  qed
next
  case (2 depth input)
  then show ?case by simp
next
  case (3 n depth input)
  show ?case
  proof
    assume "skip_children (Suc n) depth input = Some rest"
    then obtain rest1 where one: "skip_object depth input = Some rest1"
      and more: "skip_children n depth rest1 = Some rest"
      by (auto split: option.splits)
    obtain x where "input = x @ rest1" "msgpack False (33 - depth) x"
      using "3.IH"(1) [of rest1] one by auto
    moreover obtain xs where "length xs = n" "rest1 = concat xs @ rest" "\<forall>x \<in> set xs. msgpack False (33 - depth) x"
      using "3.IH"(2) [OF one, of rest] more by auto
    ultimately show "\<exists>xs. length xs = Suc n \<and> input = concat xs @ rest \<and> (\<forall>x \<in> set xs. msgpack False (33 - depth) x)"
      by (intro exI [of _ "x # xs"]) auto
  next
    assume "\<exists>xs. length xs = Suc n \<and> input = concat xs @ rest \<and> (\<forall>x \<in> set xs. msgpack False (33 - depth) x)"
    then obtain x xs where split: "input = x @ concat xs @ rest" "length xs = n" "msgpack False (33 - depth) x"
      "\<forall>y \<in> set xs. msgpack False (33 - depth) y"
      by (auto simp: length_Suc_conv)
    then have one: "skip_object depth input = Some (concat xs @ rest)"
      using "3.IH"(1) [of "concat xs @ rest"] by auto
    with split show "skip_children (Suc n) depth input = Some rest"
      using "3.IH"(2) [OF one, of rest] by auto
  qed
qed

lemma object_head_shorter: "object_head code rest = Some (n, c, rest') \<Longrightarrow> length rest' \<le> length rest"
proof -
  assume "object_head code rest = Some (n, c, rest')"
  from object_head_sound [OF this] obtain h where h: "code # rest = h @ rest'" "msgpack_head False h n c" by blast
  from object_head_complete [OF h(2)] have "h \<noteq> []" by blast
  with h(1) have "length (code # rest) \<ge> Suc (length rest')" by (cases h) simp_all
  then show ?thesis by simp
qed

lemma T_skip_bound:
  "case skip_object depth input of
     None \<Rightarrow> T_skip_object depth input \<le> Suc (length input)
   | Some rest \<Rightarrow> T_skip_object depth input + length rest \<le> length input"
  "case skip_children n depth input of
     None \<Rightarrow> T_skip_children n depth input \<le> Suc (length input)
   | Some rest \<Rightarrow> T_skip_children n depth input + length rest \<le> length input"
proof (induction depth input and n depth input rule: skip_object_skip_children.induct)
  case (1 depth input)
  show ?case
  proof (cases "\<exists>code tail count children rest'. input = code # tail \<and> depth \<le> 32 \<and>
      object_head code tail = Some (count, children, rest') \<and> count \<le> length rest'")
    case True
    then obtain code tail count children rest' where
      run: "input = code # tail" "depth \<le> 32" "object_head code tail = Some (count, children, rest')" "count \<le> length rest'"
      by blast
    note kids = 1 [OF run(1) _ run(3) refl refl]
    have "length (drop count rest') \<le> length tail" using object_head_shorter [OF run(3)] by simp
    with kids run show ?thesis
      by (simp add: skip_object.simps T_skip_object.simps split: option.splits)
  next
    case False
    then show ?thesis
      by (auto simp: skip_object.simps T_skip_object.simps split: list.splits option.splits)
  qed
next
  case (2 depth input)
  then show ?case by simp
next
  case (3 n depth input)
  show ?case
  proof (cases "skip_object depth input")
    case None
    with "3.IH"(1) show ?thesis by simp
  next
    case (Some rest)
    with "3.IH"(1) "3.IH"(2) [OF Some] show ?thesis by (simp split: option.splits)
  qed
qed

text \<open>No object of the whole format is a proper prefix of another.\<close>

lemma msgpack_head_ext:
  "msgpack_head True h n c \<longleftrightarrow>
     msgpack_head False h n c \<or>
     (\<exists>b ls. h = b # ls \<and> (b, length ls) \<in> {(0xc7, 1), (0xc8, 2), (0xc9, 4)} \<and> n = Suc (nat_of_be ls) \<and> c = 0)"
  by (auto simp only: msgpack_head.simps simp_thms)

lemma msgpack_mono: "msgpack False k x \<Longrightarrow> msgpack True k x"
  by (induction rule: msgpack.induct) (auto intro: msgpack_object simp: msgpack_head_ext)

lemma head_unique:
  assumes "msgpack_head True h n c" "msgpack_head True h' n' c'" "h @ r = h' @ r'"
  shows "h = h' \<and> n = n' \<and> c = c'"
proof -
  have none: "object_head b rest = None" if "b \<in> {0xc7, 0xc8, 0xc9}" for b rest
    using that by (elim insertE) (simp_all add: object_head_def)
  have read: "g \<noteq> [] \<and> (object_head (hd g) (tl g @ s) = Some (m, d, s) \<or>
      (hd g, length (tl g)) \<in> {(0xc7, 1), (0xc8, 2), (0xc9, 4)} \<and> m = Suc (nat_of_be (tl g)) \<and> d = 0)"
    if "msgpack_head True g m d" for g m d s
    using that unfolding msgpack_head_ext by (elim disjE) (auto dest: object_head_complete)
  have same: "hd h = hd h'" "tl h @ r = tl h' @ r'"
    using assms(3) read [OF assms(1)] read [OF assms(2)] by (cases h; cases h'; simp)+
  from read [OF assms(1), of r] read [OF assms(2), of r'] show ?thesis
  proof (elim conjE disjE)
    assume "object_head (hd h) (tl h @ r) = Some (n, c, r)" "object_head (hd h') (tl h' @ r') = Some (n', c', r')"
    with same assms(3) show ?thesis by simp
  next
    assume "(hd h, length (tl h)) \<in> {(0xc7, 1), (0xc8, 2), (0xc9, 4)}" "(hd h', length (tl h')) \<in> {(0xc7, 1), (0xc8, 2), (0xc9, 4)}"
      and ne: "h \<noteq> []" "h' \<noteq> []" and n: "n = Suc (nat_of_be (tl h))" "n' = Suc (nat_of_be (tl h'))" "c = 0" "c' = 0"
    then have "length (tl h) = length (tl h')" using same(1) by auto
    with same(2) have "tl h = tl h'" by simp
    with same(1) ne n show ?thesis by (simp add: list.expand)
  qed (use none same in auto)
qed

lemma concat_unique:
  assumes "length xs = length ys" "\<forall>x \<in> set xs. \<forall>y \<in> set ys. \<forall>r r'. x @ r = y @ r' \<longrightarrow> x = y"
    and "concat xs @ r = concat ys @ r'"
  shows "concat xs = concat ys"
  using assms
proof (induction xs ys rule: list_induct2)
  case (Cons x xs y ys)
  have "x @ (concat xs @ r) = y @ (concat ys @ r')" using Cons.prems(2) by simp
  with Cons.prems(1) have "x = y" by (meson list.set_intros(1))
  with Cons show ?case by simp
qed simp

lemma msgpack_prefix_free:
  "msgpack True k x \<Longrightarrow> msgpack True k' y \<Longrightarrow> x @ r = y @ r' \<Longrightarrow> x = y"
proof (induction arbitrary: k' y r r' rule: msgpack.induct)
  case (msgpack_object h content objects k)
  obtain h' content' objects' k'' where y: "y = h' @ content' @ concat objects'"
    and head': "msgpack_head True h' (length content') (length objects')"
    and objects': "\<And>x. x \<in> set objects' \<Longrightarrow> msgpack True k'' x"
    using msgpack_object.prems(1) by (rule msgpackE) (rule that; assumption)
  have whole: "h @ (content @ concat objects @ r) = h' @ (content' @ concat objects' @ r')"
    using msgpack_object.prems(2) y by simp
  note heads = head_unique [OF msgpack_object.hyps(1) head' whole]
  then have "content = content'" and rest: "concat objects @ r = concat objects' @ r'"
    using whole by simp_all
  moreover have "concat objects = concat objects'"
    using heads rest msgpack_object.IH objects' by (intro concat_unique) blast+
  ultimately show ?case using heads y by simp
qed

text \<open>
  C38. What the recogniser accepts and what it costs. It returns the rest of the input exactly when
  the input starts with one MessagePack object that is nested at most 32 deep below the top and
  contains no ext 8, ext 16 or ext 32 object, and what it so accepts is an object of the whole format.
  Of the whole format, an input that starts with an object, however deep, is accepted with the rest
  after that object if the object is of this kind and refused otherwise. Every run, successful or
  not, makes at most one call more than the input has bytes, whatever number of children is announced.
\<close>

theorem skip_object_exact:
  "(\<forall>rest. skip_object 0 input = Some rest \<longleftrightarrow> (\<exists>x. input = x @ rest \<and> msgpack False 33 x)) \<and>
   (\<forall>x. msgpack False 33 x \<longrightarrow> msgpack True 33 x) \<and>
   (\<forall>k x rest. input = x @ rest \<and> msgpack True k x \<longrightarrow>
      skip_object 0 input = (if msgpack False 33 x then Some rest else None)) \<and>
   T_skip_object 0 input \<le> Suc (length input)"
proof (intro conjI allI impI)
  show accepts: "skip_object 0 input = Some rest \<longleftrightarrow> (\<exists>x. input = x @ rest \<and> msgpack False 33 x)" for rest
    using skip_sound_complete(1) [of 0 input rest] by simp
  show "msgpack True 33 x" if "msgpack False 33 x" for x
    using that by (rule msgpack_mono)
  show "skip_object 0 input = (if msgpack False 33 x then Some rest else None)"
    if x: "input = x @ rest \<and> msgpack True k x" for k x rest
  proof (cases "skip_object 0 input")
    case None
    then have "\<not> msgpack False 33 x" using accepts [of rest] x by auto
    with None show ?thesis by simp
  next
    case (Some rest')
    then obtain y where y: "input = y @ rest'" "msgpack False 33 y" using accepts by blast
    with x have "x @ rest = y @ rest'" by simp
    moreover from this have "x = y" using x msgpack_mono [OF y(2)] by (blast intro: msgpack_prefix_free)
    ultimately show ?thesis using Some y(2) by simp
  qed
  show "T_skip_object 0 input \<le> Suc (length input)"
    using T_skip_bound(1) [of 0 input] by (auto split: option.splits)
qed

theorem skip_object_exact_witness:
  "(\<exists>x. [0x91, 0xc0, 0x05] = x @ [0x05] \<and> msgpack False 33 x) \<and>
   skip_object 0 [0xc7, 1, 9, 9] = None \<and> msgpack True 1 [0xc7, 1, 9, 9]"
proof -
  have "skip_object 0 [0x91, 0xc0, 0x05] = Some [0x05]"
    by (simp add: skip_object.simps object_head_def)
  then have one: "\<exists>x. [0x91, 0xc0, 0x05] = x @ [0x05] \<and> msgpack False 33 x"
    using skip_object_exact [of "[0x91, 0xc0, 0x05]"] by blast
  have "msgpack_head True [0xc7, 1] (length [9, 9 :: byte]) (length ([] :: bytes list))"
    using mp_ext [of True "0xc7" "[1]"] by (simp add: nat_of_be_def)
  from msgpack_object [OF this, of 0] have ext: "msgpack True 1 ([0xc7, 1, 9, 9] @ [])" by simp
  have "\<not> msgpack False 33 [0xc7, 1, 9, 9]"
  proof
    assume "msgpack False 33 [0xc7, 1, 9, 9]"
    then have "skip_object 0 [0xc7, 1, 9, 9] = Some []" using skip_sound_complete(1) [of 0 "[0xc7, 1, 9, 9]" "[]"] by simp
    then show False by (simp add: skip_object.simps object_head_def)
  qed
  with ext one show ?thesis
    using skip_object_exact [of "[0xc7, 1, 9, 9]"] by (metis append_Nil2)
qed

section \<open>Messages\<close>

lemma one_object_nil: "one_object [0xc0]"
  by (simp add: one_object_def skip_object.simps object_head_def)

lemma one_object_nonempty: "one_object x \<Longrightarrow> x \<noteq> []"
  by (auto simp: one_object_def skip_object.simps)

lemma request_encodeD:
  assumes "rns_request_encode P to_bits path t data capacity = Inr out"
  obtains digest where "isfinite t" "\<not> dlt t (Fin 0)" "path \<noteq> []" "rns_sha256 P path = Some digest"
    "one_object (if data \<noteq> [] then data else [0xc0])"
    "28 + length (if data \<noteq> [] then data else [0xc0]) \<le> capacity"
    "out = [0x93, 0xcb] @ write64 (to_bits t) @ [0xc4, of_nat 16] @ take 16 digest @
       (if data \<noteq> [] then data else [0xc0])"
  using assms
  by (auto simp: rns_request_encode_def Let_def one_object_nil split: if_splits option.splits)

text \<open>
  C39. A request is read back: what the encoder accepts decodes to the time it was made at, the
  truncated hash of its path and its data, nil standing for no data; the message fills 28 bytes and
  its data and fits the output.
\<close>

theorem request_roundtrip:
  assumes "sha256_sound P" "of_bits (to_bits t) = t"
    and "rns_request_encode P to_bits path t data capacity = Inr out"
  shows "\<exists>digest. rns_sha256 P path = Some digest \<and>
           rns_request_decode of_bits out =
             Inr \<lparr>rqv_requested_at = t, rqv_path_hash = take RNS_REQUEST_ID_LENGTH digest,
                  rqv_data_msgpack = (if data \<noteq> [] then data else [0xc0])\<rparr> \<and>
           length out = 28 + length (if data \<noteq> [] then data else [0xc0]) \<and> length out \<le> capacity"
  using assms(3)
proof (rule request_encodeD)
  fix digest
  let ?data = "if data \<noteq> [] then data else [0xc0]"
  assume t: "isfinite t" "\<not> dlt t (Fin 0)" and digest: "rns_sha256 P path = Some digest"
    and data: "one_object ?data" and fits: "28 + length ?data \<le> capacity"
    and out: "out = [0x93, 0xcb] @ write64 (to_bits t) @ [0xc4, of_nat 16] @ take 16 digest @ ?data"
  define obj where "obj = ?data"
  have obj: "one_object obj" "obj \<noteq> []" using data one_object_nonempty [OF data] by (auto simp: obj_def)
  have out': "out = [0x93, 0xcb] @ write64 (to_bits t) @ [0xc4, of_nat 16] @ take 16 digest @ obj"
    using out unfolding obj_def .
  have len: "length digest = 32" using assms(1) digest by (auto simp: sha256_sound_def)
  then have long: "length out = 28 + length obj" by (simp add: out' write64_def)
  have bits: "bytes_at 2 8 out = write64 (to_bits t)" by (simp add: out' write64_def bytes_at_def)
  have fields: "out ! 0 = 0x93" "out ! 1 = 0xcb" "out ! 10 = 0xc4" "out ! 11 = of_nat 16"
    by (simp_all add: out' write64_def nth_append)
  have tail: "drop 28 out = obj" "bytes_at 12 16 out = take 16 digest"
    using len by (simp_all add: out' write64_def bytes_at_def)
  have "be_get (bytes_at 2 8 out) = to_bits t" by (simp add: bits write64_def)
  then have "rns_request_decode of_bits out =
      Inr \<lparr>rqv_requested_at = t, rqv_path_hash = take 16 digest, rqv_data_msgpack = obj\<rparr>"
    using obj t long fields tail assms(2)
    by (auto simp: rns_request_decode_def Let_def Suc_le_eq length_greater_0_conv [symmetric] simp del: length_greater_0_conv)
  with digest long fits show ?thesis unfolding obj_def by auto
qed

theorem request_roundtrip_witness:
  "\<exists>digest. rns_sha256 sample_provider [0x2f] = Some digest \<and>
     rns_request_decode (\<lambda>_. Fin 5)
       ([0x93, 0xcb] @ write64 7 @ [0xc4, 16] @ take 16 (fit 32 [0x2f]) @ [0xc0]) =
       Inr \<lparr>rqv_requested_at = Fin 5, rqv_path_hash = take 16 digest, rqv_data_msgpack = [0xc0]\<rparr>"
  using request_roundtrip [of sample_provider "\<lambda>_. Fin 5" "\<lambda>_. 7" "Fin 5" "[0x2f]" "[]" 64
      "[0x93, 0xcb] @ write64 7 @ [0xc4, 16] @ take 16 (fit 32 [0x2f]) @ [0xc0]"]
  by (auto simp: sample_provider_sound sample_provider_eval rns_request_encode_def)

lemma read_bytes_id:
  "length i = 16 \<Longrightarrow> read_bytes ([0xc4, of_nat 16] @ i @ x) = Some (i, x)"
  by (simp add: read_bytes_def)

lemma read_bytes_bin8:
  "length b < 256 \<Longrightarrow> read_bytes (0xc4 # of_nat (length b) # b) = Some (b, [])"
  by (simp add: read_bytes_def unat_of_nat_byte)

text \<open>
  C40. A response is read back: what the encoder accepts for a request identifier decodes to the same
  identifier and the same object, and a byte string in the object is handed out as its content, any
  other object whole. No message that does not end with one object is accepted.
\<close>

theorem response_roundtrip:
  assumes "length request_id = RNS_REQUEST_ID_LENGTH"
    and "rns_response_encode request_id object capacity = Inr out"
  shows "rns_response_decode out =
           Inr \<lparr>rsv_request_id = request_id, rsv_response_msgpack = object,
                rsv_response = (case read_bytes object of Some (body, []) \<Rightarrow> body | _ \<Rightarrow> object)\<rparr> \<and>
         length out = 19 + length object \<and> length out \<le> capacity \<and>
         (\<forall>body. length body < 256 \<and> object = 0xc4 # of_nat (length body) # body \<longrightarrow>
            rns_response_decode out =
              Inr \<lparr>rsv_request_id = request_id, rsv_response_msgpack = object, rsv_response = body\<rparr>) \<and>
         (\<forall>junk. junk \<noteq> [] \<longrightarrow> rns_response_decode (out @ junk) = Inl RNS_ERROR_PROTOCOL)"
proof -
  from assms(2) have object: "one_object object" and fits: "19 + length object \<le> capacity"
    and out: "out = [0x92] @ ([0xc4, of_nat 16] @ request_id @ object)"
    by (auto simp: rns_response_encode_def split: if_splits)
  have id: "read_bytes (drop 1 (out @ x)) = Some (request_id, object @ x)" for x
    using read_bytes_id [OF assms(1), of "object @ x"] by (simp add: out)
  have first: "out ! 0 = 0x92" "out \<noteq> []" by (simp_all add: out)
  have eq: "rns_response_decode out =
      Inr \<lparr>rsv_request_id = request_id, rsv_response_msgpack = object,
           rsv_response = (case read_bytes object of Some (body, []) \<Rightarrow> body | _ \<Rightarrow> object)\<rparr>"
    using id [of "[]"] object first assms(1) by (simp add: rns_response_decode_def Suc_le_eq)
  moreover have "length out = 19 + length object" using assms(1) by (simp add: out)
  moreover have "rns_response_decode (out @ junk) = Inl RNS_ERROR_PROTOCOL" if "junk \<noteq> []" for junk
  proof -
    have "skip_object 0 (object @ junk) = Some junk"
      using object skip_sound_complete(1) [of 0 object "[]"] skip_sound_complete(1) [of 0 "object @ junk" junk]
      by (auto simp: one_object_def)
    then have "\<not> one_object (object @ junk)" using that by (simp add: one_object_def)
    then show ?thesis using id [of junk] by (simp add: rns_response_decode_def)
  qed
  ultimately show ?thesis using fits by (auto simp: read_bytes_bin8)
qed

theorem response_roundtrip_witness:
  "rns_response_decode ([0x92, 0xc4, 16] @ replicate 16 0xab @ [0xc4, 1, 0x41]) =
     Inr \<lparr>rsv_request_id = replicate 16 0xab, rsv_response_msgpack = [0xc4, 1, 0x41], rsv_response = [0x41]\<rparr>"
proof -
  have "rns_response_encode (replicate 16 0xab) [0xc4, 1, 0x41] 64 =
      Inr ([0x92, 0xc4, 16] @ replicate 16 0xab @ [0xc4, 1, 0x41])"
    by (simp add: rns_response_encode_def one_object_def skip_object.simps object_head_def SIZE_MAX_def)
  then show ?thesis
    using response_roundtrip [of "replicate 16 0xab" "[0xc4, 1, 0x41]" 64] by (auto simp: read_bytes_def)
qed

end
