(* ===== verification/Link.thy ===== *)
theory Link
  imports Packet Identity
begin

text \<open>
  The link handshake (\<^verbatim>\<open>src/link/link.c\<close>): signalling, the link identifier, the two sides'
  states, the proof and the round-trip confirmation, and the encryption of link traffic.

  The clock is a reading; an operation that fails returns \<open>None\<close> where the code leaves a link
  that must not be used. The memory representation of a double, which the code copies into the
  confirmation, is the pair of parameters \<open>to_bits\<close> and \<open>of_bits\<close>.
\<close>

abbreviation (input) RNS_LINK_MODE_AES256_CBC :: byte where "RNS_LINK_MODE_AES256_CBC \<equiv> 1"
abbreviation (input) RNS_LINK_MTU_MASK :: u32 where "RNS_LINK_MTU_MASK \<equiv> 0x1fffff"

datatype rns_link_state = RNS_LINK_PENDING | RNS_LINK_HANDSHAKE | RNS_LINK_ACTIVE | RNS_LINK_CLOSED

datatype rns_link_role = RNS_LINK_INITIATOR | RNS_LINK_RESPONDER

record rns_link =
  lk_role :: rns_link_role
  lk_state :: rns_link_state
  lk_request_time :: double
  lk_deadline :: double
  lk_rtt :: double
  lk_activated_at :: double
  lk_mtu :: u32
  lk_mode :: byte
  lk_link_id :: bytes
  lk_private_key :: bytes
  lk_public_key :: bytes
  lk_signing_private :: bytes
  lk_signing_public :: bytes
  lk_peer_public :: bytes
  lk_peer_signing_public :: bytes
  lk_derived_key :: bytes
  lk_remote_identity :: rns_identity

definition derive :: "'r rns_crypto_provider option \<Rightarrow> rns_link \<Rightarrow> rns_link option" where
  "derive P link =
     (case rns_x25519_exchange P (lk_private_key link) (lk_peer_public link) of
        None \<Rightarrow> None
      | Some shared \<Rightarrow>
          (case rns_hkdf_sha256 P shared (lk_link_id link) [] 64 of
             None \<Rightarrow> None
           | Some key \<Rightarrow> Some (link\<lparr>lk_derived_key := key\<rparr>)))"

definition rns_link_signalling_encode :: "u32 \<Rightarrow> byte \<Rightarrow> bytes option" where
  "rns_link_signalling_encode mtu mode =
     (if mtu = 0 \<or> mtu > RNS_LINK_MTU_MASK \<or> mode \<noteq> RNS_LINK_MODE_AES256_CBC then None
      else let v = (mtu AND RNS_LINK_MTU_MASK) OR push_bit 16 (push_bit 5 (ucast mode :: u32))
           in Some [ucast (drop_bit 16 v), ucast (drop_bit 8 v), ucast v])"

definition rns_link_signalling_decode :: "bytes \<Rightarrow> (u32 \<times> byte) option" where
  "rns_link_signalling_decode bs =
     (let v = push_bit 16 (ucast (bs ! 0)) OR push_bit 8 (ucast (bs ! 1)) OR ucast (bs ! 2) :: u32;
          decoded_mode = drop_bit 5 (bs ! 0 AND 0xe0);
          mtu = v AND RNS_LINK_MTU_MASK
      in if mtu \<noteq> 0 \<and> decoded_mode = RNS_LINK_MODE_AES256_CBC then Some (mtu, decoded_mode) else None)"

definition rns_link_id_from_request_packet :: "'r rns_crypto_provider option \<Rightarrow> bytes \<Rightarrow> bytes option" where
  "rns_link_id_from_request_packet P raw =
     (case rns_packet_decode raw of
        None \<Rightarrow> None
      | Some packet \<Rightarrow>
          if pkt_packet_type packet \<noteq> 2 \<or> (length (pkt_data packet) \<noteq> 64 \<and> length (pkt_data packet) \<noteq> 67)
          then None
          else let source_offset = (if pkt_header_type packet = 1 then 18 else 2);
                   n = (length raw - length (pkt_data packet) - source_offset) + 64
               in map_option (take 16)
                    (rns_sha256 P ((raw ! 0 AND 0x0f) # bytes_at source_offset n raw)))"

section \<open>Initiator\<close>

definition zero_link_state :: rns_link where
  "zero_link_state =
     \<lparr>lk_role = RNS_LINK_INITIATOR, lk_state = RNS_LINK_PENDING, lk_request_time = Fin 0, lk_deadline = Fin 0,
      lk_rtt = Fin 0, lk_activated_at = Fin 0, lk_mtu = 0, lk_mode = 0, lk_link_id = replicate 16 0,
      lk_private_key = replicate 32 0, lk_public_key = replicate 32 0, lk_signing_private = replicate 32 0,
      lk_signing_public = replicate 32 0, lk_peer_public = replicate 32 0,
      lk_peer_signing_public = replicate 32 0, lk_derived_key = replicate 64 0,
      lk_remote_identity = zero_identity\<rparr>"

definition key_pair ::
  "(bytes \<Rightarrow> bytes option) \<Rightarrow> ('r \<Rightarrow> (bytes \<times> bytes) option \<times> 'r) \<Rightarrow> bytes option \<Rightarrow> 'r \<Rightarrow>
     (bytes \<times> bytes) option \<times> 'r" where
  \<comment> \<open>the given private key with its public key, or a generated pair\<close>
  "key_pair public_from_private generate given r =
     (case given of
        Some key \<Rightarrow> (map_option (Pair key) (public_from_private key), r)
      | None \<Rightarrow> generate r)"

definition initiator_common ::
  "'r rns_crypto_provider option \<Rightarrow> rounding \<Rightarrow> rns_identity \<Rightarrow> bytes option \<Rightarrow> bytes option \<Rightarrow> u32 \<Rightarrow> double \<Rightarrow>
     double \<Rightarrow> 'r \<Rightarrow> rns_link option \<times> 'r" where
  "initiator_common P rnd destination x_private s_private mtu timeout now r =
     (if dle timeout (Fin 0) \<or> rns_link_signalling_encode mtu RNS_LINK_MODE_AES256_CBC = None then (None, r)
      else case key_pair (rns_x25519_public_from_private P) (rns_x25519_generate P) x_private r of
             (None, r1) \<Rightarrow> (None, r1)
           | (Some (xsk, xpk), r1) \<Rightarrow>
               (case key_pair (rns_ed25519_public_from_private P) (rns_ed25519_generate P) s_private r1 of
                  (None, r2) \<Rightarrow> (None, r2)
                | (Some (ssk, spk), r2) \<Rightarrow>
                    (Some (zero_link_state\<lparr>lk_role := RNS_LINK_INITIATOR, lk_state := RNS_LINK_PENDING,
                       lk_request_time := now, lk_deadline := dadd rnd now timeout, lk_mtu := mtu,
                       lk_mode := RNS_LINK_MODE_AES256_CBC, lk_remote_identity := destination,
                       lk_private_key := xsk, lk_public_key := xpk, lk_signing_private := ssk,
                       lk_signing_public := spk\<rparr>), r2)))"

definition rns_link_initiator_init ::
  "'r rns_crypto_provider option \<Rightarrow> rounding \<Rightarrow> rns_identity \<Rightarrow> u32 \<Rightarrow> double \<Rightarrow> double \<Rightarrow> 'r \<Rightarrow> rns_link option \<times> 'r" where
  "rns_link_initiator_init P rnd destination mtu timeout now r =
     initiator_common P rnd destination None None mtu timeout now r"

definition rns_link_initiator_init_keys ::
  "'r rns_crypto_provider option \<Rightarrow> rounding \<Rightarrow> rns_identity \<Rightarrow> bytes \<Rightarrow> bytes \<Rightarrow> u32 \<Rightarrow> double \<Rightarrow> double \<Rightarrow> 'r \<Rightarrow>
     rns_link option \<times> 'r" where
  "rns_link_initiator_init_keys P rnd destination x_private s_private mtu timeout now r =
     initiator_common P rnd destination (Some x_private) (Some s_private) mtu timeout now r"

definition rns_link_build_request_payload :: "rns_link \<Rightarrow> bytes option" where
  "rns_link_build_request_payload link =
     (if lk_role link \<noteq> RNS_LINK_INITIATOR \<or> lk_state link \<noteq> RNS_LINK_PENDING then None
      else map_option (\<lambda>signalling. lk_public_key link @ lk_signing_public link @ signalling)
             (rns_link_signalling_encode (lk_mtu link) (lk_mode link)))"

definition rns_link_initiator_set_request_packet ::
  "'r rns_crypto_provider option \<Rightarrow> bytes \<Rightarrow> rns_link \<Rightarrow> rns_link option" where
  "rns_link_initiator_set_request_packet P raw link =
     (if lk_role link \<noteq> RNS_LINK_INITIATOR \<or> lk_state link \<noteq> RNS_LINK_PENDING then None
      else case rns_packet_decode raw of
             None \<Rightarrow> None
           | Some packet \<Rightarrow>
               if length (pkt_data packet) \<noteq> 67 \<or>
                  rns_link_build_request_payload link \<noteq> Some (pkt_data packet) then None
               else map_option (\<lambda>link_id. link\<lparr>lk_link_id := link_id\<rparr>)
                      (rns_link_id_from_request_packet P raw))"

section \<open>Responder\<close>

definition responder_common ::
  "'r rns_crypto_provider option \<Rightarrow> rounding \<Rightarrow> rns_identity \<Rightarrow> bytes option \<Rightarrow> bytes \<Rightarrow> double \<Rightarrow> double \<Rightarrow> 'r \<Rightarrow>
     rns_link option \<times> 'r" where
  "responder_common P rnd identity private_key raw timeout now r =
     (if \<not> has_private identity \<or> dle timeout (Fin 0) then (None, r)
      else case rns_packet_decode raw of
             None \<Rightarrow> (None, r)
           | Some packet \<Rightarrow>
               if pkt_packet_type packet \<noteq> 2 \<or>
                  (length (pkt_data packet) \<noteq> 64 \<and> length (pkt_data packet) \<noteq> 67) then (None, r)
               else (case (if length (pkt_data packet) = 67
                           then rns_link_signalling_decode (drop 64 (pkt_data packet))
                           else Some (of_nat RNS_MTU, RNS_LINK_MODE_AES256_CBC)) of
                       None \<Rightarrow> (None, r)
                     | Some (proposed, mode) \<Rightarrow>
                         let mtu = (if proposed > of_nat RNS_MTU then of_nat RNS_MTU else proposed)
                         in (case key_pair (rns_x25519_public_from_private P) (rns_x25519_generate P) private_key r of
                               (None, r1) \<Rightarrow> (None, r1)
                             | (Some (xsk, xpk), r1) \<Rightarrow>
                                 (case rns_link_id_from_request_packet P raw of
                                    None \<Rightarrow> (None, r1)
                                  | Some link_id \<Rightarrow>
                                      (derive P (zero_link_state\<lparr>lk_role := RNS_LINK_RESPONDER,
                                         lk_state := RNS_LINK_HANDSHAKE, lk_request_time := now,
                                         lk_deadline := dadd rnd now timeout, lk_mtu := mtu, lk_mode := mode,
                                         lk_peer_public := take 32 (pkt_data packet),
                                         lk_peer_signing_public := bytes_at 32 32 (pkt_data packet),
                                         lk_signing_private := signing_private identity,
                                         lk_signing_public := signing_public identity,
                                         lk_private_key := xsk, lk_public_key := xpk, lk_link_id := link_id\<rparr>),
                                       r1)))))"

definition rns_link_responder_accept ::
  "'r rns_crypto_provider option \<Rightarrow> rounding \<Rightarrow> rns_identity \<Rightarrow> bytes \<Rightarrow> double \<Rightarrow> double \<Rightarrow> 'r \<Rightarrow> rns_link option \<times> 'r" where
  "rns_link_responder_accept P rnd identity raw timeout now r =
     responder_common P rnd identity None raw timeout now r"

definition rns_link_responder_accept_key ::
  "'r rns_crypto_provider option \<Rightarrow> rounding \<Rightarrow> rns_identity \<Rightarrow> bytes \<Rightarrow> bytes \<Rightarrow> double \<Rightarrow> double \<Rightarrow> 'r \<Rightarrow>
     rns_link option \<times> 'r" where
  "rns_link_responder_accept_key P rnd identity private_key raw timeout now r =
     responder_common P rnd identity (Some private_key) raw timeout now r"

definition rns_link_build_proof :: "'r rns_crypto_provider option \<Rightarrow> rns_link \<Rightarrow> bytes option" where
  "rns_link_build_proof P link =
     (if lk_role link \<noteq> RNS_LINK_RESPONDER \<or> lk_state link \<noteq> RNS_LINK_HANDSHAKE then None
      else case rns_link_signalling_encode (lk_mtu link) (lk_mode link) of
             None \<Rightarrow> None
           | Some signalling \<Rightarrow>
               map_option (\<lambda>signature. signature @ lk_public_key link @ signalling)
                 (rns_ed25519_sign P (lk_signing_private link)
                    (lk_link_id link @ lk_public_key link @ lk_signing_public link @ signalling)))"

section \<open>Completion\<close>

definition rns_link_initiator_accept_proof ::
  "'r rns_crypto_provider option \<Rightarrow> rounding \<Rightarrow> bytes \<Rightarrow> double \<Rightarrow> rns_link \<Rightarrow> bool \<times> rns_link" where
  \<comment> \<open>a refused proof leaves the link pending, with the peer's keys overwritten once the format was right\<close>
  "rns_link_initiator_accept_proof P rnd pr now link =
     (if length pr \<noteq> 99 \<or> lk_role link \<noteq> RNS_LINK_INITIATOR \<or> lk_state link \<noteq> RNS_LINK_PENDING then (False, link)
      else case rns_link_signalling_decode (drop 96 pr) of
             None \<Rightarrow> (False, link)
           | Some (mtu, mode) \<Rightarrow>
               if mode \<noteq> lk_mode link then (False, link)
               else let link1 = link\<lparr>lk_peer_public := bytes_at 64 32 pr,
                                    lk_peer_signing_public := signing_public (lk_remote_identity link)\<rparr>;
                        signed_data = lk_link_id link1 @ lk_peer_public link1 @ lk_peer_signing_public link1 @
                                      bytes_at 96 3 pr
                    in if \<not> rns_identity_verify P (lk_remote_identity link1) signed_data (take 64 pr)
                       then (False, link1)
                       else (case derive P link1 of
                               None \<Rightarrow> (False, link1)
                             | Some link2 \<Rightarrow>
                                 (True, link2\<lparr>lk_rtt := dsub rnd now (lk_request_time link2),
                                          lk_mtu := mtu, lk_state := RNS_LINK_ACTIVE, lk_activated_at := now\<rparr>)))"

definition encode_double :: "(double \<Rightarrow> u64) \<Rightarrow> double \<Rightarrow> bytes" where
  "encode_double to_bits v = 0xcb # be_put 8 (to_bits v)"

definition decode_double :: "(u64 \<Rightarrow> double) \<Rightarrow> bytes \<Rightarrow> double option" where
  "decode_double of_bits bs =
     (if bs ! 0 \<noteq> 0xcb then None
      else let v = of_bits (be_get (bytes_at 1 8 bs))
           in if isfinite v \<and> dge v (Fin 0) then Some v else None)"

definition rns_link_build_rtt_confirm ::
  "'r rns_crypto_provider option \<Rightarrow> (double \<Rightarrow> u64) \<Rightarrow> nat \<Rightarrow> rns_link \<Rightarrow> 'r \<Rightarrow> bytes option \<times> 'r" where
  "rns_link_build_rtt_confirm P to_bits capacity link r =
     (if lk_role link \<noteq> RNS_LINK_INITIATOR \<or> lk_state link \<noteq> RNS_LINK_ACTIVE then (None, r)
      else rns_token_encrypt P (lk_derived_key link) (encode_double to_bits (lk_rtt link)) capacity r)"

definition rns_link_responder_accept_rtt ::
  "'r rns_crypto_provider option \<Rightarrow> rounding \<Rightarrow> (u64 \<Rightarrow> double) \<Rightarrow> bytes \<Rightarrow> double \<Rightarrow> rns_link \<Rightarrow> bool \<times> rns_link" where
  "rns_link_responder_accept_rtt P rnd of_bits token now link =
     (let failed = (False, link\<lparr>lk_state := RNS_LINK_CLOSED\<rparr>)
      in if lk_role link \<noteq> RNS_LINK_RESPONDER \<or> lk_state link \<noteq> RNS_LINK_HANDSHAKE then failed
         else case rns_token_decrypt P (lk_derived_key link) token 16 of
                None \<Rightarrow> failed
              | Some packed \<Rightarrow>
                  if length packed \<noteq> 9 then failed
                  else (case decode_double of_bits packed of
                          None \<Rightarrow> failed
                        | Some reported \<Rightarrow>
                            let measured = dsub rnd now (lk_request_time link)
                            in (True, link\<lparr>lk_rtt := (if dgt measured reported then measured else reported),
                                  lk_state := RNS_LINK_ACTIVE, lk_activated_at := now\<rparr>)))"

definition rns_link_check_timeout :: "double \<Rightarrow> rns_link \<Rightarrow> bool \<times> rns_link" where
  "rns_link_check_timeout now link =
     (if lk_state link = RNS_LINK_CLOSED then (False, link)
      else if (lk_state link = RNS_LINK_PENDING \<or> lk_state link = RNS_LINK_HANDSHAKE) \<and> dge now (lk_deadline link)
      then (True, link\<lparr>lk_state := RNS_LINK_CLOSED\<rparr>)
      else (False, link))"

definition rns_link_encrypt ::
  "'r rns_crypto_provider option \<Rightarrow> rns_link \<Rightarrow> bytes \<Rightarrow> nat \<Rightarrow> 'r \<Rightarrow> bytes option \<times> 'r" where
  "rns_link_encrypt P link plaintext capacity r =
     (if lk_state link = RNS_LINK_ACTIVE then rns_token_encrypt P (lk_derived_key link) plaintext capacity r
      else (None, r))"

definition rns_link_decrypt ::
  "'r rns_crypto_provider option \<Rightarrow> rns_link \<Rightarrow> bytes \<Rightarrow> nat \<Rightarrow> bytes option" where
  "rns_link_decrypt P link token capacity =
     (if lk_state link = RNS_LINK_ACTIVE \<or> lk_state link = RNS_LINK_HANDSHAKE
      then rns_token_decrypt P (lk_derived_key link) token capacity
      else None)"

section \<open>Signalling\<close>

lemma mtu_mask: "x AND (0x1fffff :: u32) = take_bit 21 x"
  by (simp add: take_bit_eq_mask mask_numeral)

lemma mtu_bits:
  assumes "mtu \<le> (0x1fffff :: u32)"
  shows "take_bit 21 mtu = mtu"
proof -
  have "unat mtu < 2 ^ 21" using assms by (simp add: word_le_nat_alt)
  then have "take_bit 21 (unat mtu) = unat mtu" by (simp add: take_bit_nat_eq_self_iff)
  then have "unat (take_bit 21 mtu) = unat mtu" by (simp add: unsigned_take_bit_eq)
  then show ?thesis by (simp add: word_unat_eq_iff)
qed

lemma signalling_roundtrip:
  assumes "rns_link_signalling_encode mtu mode = Some s"
  shows "length s = 3 \<and> rns_link_signalling_decode (s @ rest) = Some (mtu, mode) \<and> mode = 1 \<and> mtu \<noteq> 0"
proof -
  define v :: u32 where "v = take_bit 21 mtu OR 2 ^ 21"
  have args: "mtu \<noteq> 0" "take_bit 21 mtu = mtu" "mode = 1" and s: "s = [ucast (drop_bit 16 v), ucast (drop_bit 8 v), ucast v]"
    using assms mtu_bits [of mtu]
    by (auto simp: rns_link_signalling_encode_def v_def mtu_mask Let_def split: if_splits)
  have v: "bit v n \<longleftrightarrow> n < 21 \<and> bit mtu n \<or> n = 21" for n
    unfolding v_def bit_or_iff bit_take_bit_iff bit_exp_iff by auto
  have "take_bit 21 (push_bit 16 (ucast (ucast (drop_bit 16 v) :: byte)) OR
      push_bit 8 (ucast (ucast (drop_bit 8 v) :: byte)) OR ucast (ucast v :: byte) :: u32) = take_bit 21 mtu"
    by (rule bit_word_eqI) (auto simp: bit_simps v)
  moreover have "drop_bit 5 ((ucast (drop_bit 16 v) :: byte) AND 0xe0) = 1"
  proof (rule bit_word_eqI)
    fix n assume "n < LENGTH(8)"
    then have n: "n < 8" by simp
    have e0: "bit (0xe0 :: byte) (5 + n) \<longleftrightarrow> n < 3" if "n < 8" for n
      using that by (auto simp: less_Suc_eq eval_nat_numeral)
    show "bit (drop_bit 5 ((ucast (drop_bit 16 v) :: byte) AND 0xe0)) n = bit (1 :: byte) n"
      using n by (auto simp: bit_simps v e0 bit_1_iff simp del: bit_numeral_word_iff)
  qed
  ultimately show ?thesis
    using args by (simp add: s rns_link_signalling_decode_def mtu_mask Let_def)
qed

section \<open>The handshake\<close>

lemma key_pair_x25519:
  assumes "key_pair (rns_x25519_public_from_private P) (rns_x25519_generate P) given r = (Some (sk, pk), r')"
    and "generate_sound P" "public_key_size P"
  shows "rns_x25519_public_from_private P sk = Some pk \<and> length pk = 32"
proof (cases given)
  case None
  with assms show ?thesis by (auto simp: key_pair_def dest: generate_soundD(1) [OF assms(2,3)])
next
  case (Some key)
  with assms show ?thesis by (auto simp: key_pair_def public_key_size_def)
qed

lemma key_pair_ed25519:
  assumes "key_pair (rns_ed25519_public_from_private P) (rns_ed25519_generate P) given r = (Some (sk, pk), r')"
    and "generate_sound P" "public_key_size P"
  shows "length pk = 32"
proof (cases given)
  case None
  with assms show ?thesis by (auto simp: key_pair_def dest: generate_soundD(2) [OF assms(2,3)])
next
  case (Some key)
  with assms show ?thesis by (auto simp: key_pair_def public_key_size_def)
qed

text \<open>What the two constructors leave.\<close>

lemma initiator_commonD:
  assumes "initiator_common P rnd destination xs ss mtu timeout now r = (Some link, r')"
    and "generate_sound P" "public_key_size P"
  shows "lk_role link = RNS_LINK_INITIATOR" "lk_state link = RNS_LINK_PENDING" "lk_mtu link = mtu" "lk_mode link = 1"
    "lk_remote_identity link = destination" "lk_request_time link = now"
    "rns_x25519_public_from_private P (lk_private_key link) = Some (lk_public_key link)"
    "length (lk_public_key link) = 32" "length (lk_signing_public link) = 32"
  using assms(1) key_pair_x25519 [OF _ assms(2,3)] key_pair_ed25519 [OF _ assms(2,3)]
  by (auto simp: initiator_common_def split: if_splits option.splits prod.splits)

lemma responder_commonD:
  assumes "responder_common P rnd identity given raw timeout now r = (Some link, r')"
    and "rns_packet_decode raw = Some packet" "length (pkt_data packet) = 67"
    and "rns_link_signalling_decode (drop 64 (pkt_data packet)) = Some (mtu, 1)"
    and "generate_sound P" "public_key_size P"
  shows "lk_role link = RNS_LINK_RESPONDER" "lk_state link = RNS_LINK_HANDSHAKE" "lk_request_time link = now"
    "lk_mtu link = (if mtu > 500 then 500 else mtu)" "lk_mode link = 1"
    "rns_link_id_from_request_packet P raw = Some (lk_link_id link)"
    "rns_x25519_public_from_private P (lk_private_key link) = Some (lk_public_key link)"
    "length (lk_public_key link) = 32" "lk_signing_private link = signing_private identity"
    "lk_signing_public link = signing_public identity" "has_private identity"
    "\<exists>shared. rns_x25519_exchange P (lk_private_key link) (take 32 (pkt_data packet)) = Some shared \<and>
              rns_hkdf_sha256 P shared (lk_link_id link) [] 64 = Some (lk_derived_key link)"
  using assms(1-4) key_pair_x25519 [OF _ assms(5,6)]
  by (auto simp: responder_common_def derive_def Let_def split: if_splits option.splits prod.splits)

lemma build_proofD:
  assumes "rns_link_build_proof P link = Some pr" "signature_size P" "length (lk_public_key link) = 32"
  obtains signature signalling where "pr = signature @ lk_public_key link @ signalling"
    "rns_link_signalling_encode (lk_mtu link) (lk_mode link) = Some signalling"
    "rns_ed25519_sign P (lk_signing_private link)
       (lk_link_id link @ lk_public_key link @ lk_signing_public link @ signalling) = Some signature"
    "length signature = 64" "length signalling = 3"
  using assms signalling_roundtrip [of "lk_mtu link" "lk_mode link"]
  by (auto simp: rns_link_build_proof_def signature_size_def split: if_splits option.splits)

lemma accept_proof_active:
  assumes "generate_sound P" "public_key_size P" "exchange_sound P" "signature_sound P" "signature_size P"
    and identity: "identity_wf P identity" "has_private identity" "signing_public destination = signing_public identity"
    and i1: "lk_role i1 = RNS_LINK_INITIATOR" "lk_state i1 = RNS_LINK_PENDING" "lk_mode i1 = 1"
      "lk_remote_identity i1 = destination"
      "rns_x25519_public_from_private P (lk_private_key i1) = Some (lk_public_key i1)"
    and rsp: "lk_mode rsp = 1" "lk_link_id rsp = lk_link_id i1" "length (lk_public_key rsp) = 32"
      "rns_x25519_public_from_private P (lk_private_key rsp) = Some (lk_public_key rsp)"
      "lk_signing_private rsp = signing_private identity" "lk_signing_public rsp = signing_public identity"
      "rns_x25519_exchange P (lk_private_key rsp) (lk_public_key i1) = Some shared"
      "rns_hkdf_sha256 P shared (lk_link_id rsp) [] 64 = Some (lk_derived_key rsp)"
    and pr: "rns_link_build_proof P rsp = Some pr"
  shows "\<exists>i2. rns_link_initiator_accept_proof P rnd pr now i1 = (True, i2) \<and> lk_state i2 = RNS_LINK_ACTIVE \<and>
           lk_role i2 = RNS_LINK_INITIATOR \<and> lk_link_id i2 = lk_link_id rsp \<and> lk_derived_key i2 = lk_derived_key rsp \<and>
           lk_mtu i2 = lk_mtu rsp \<and> lk_rtt i2 = dsub rnd now (lk_request_time i1)"
proof -
  obtain signature signalling where whole: "pr = signature @ lk_public_key rsp @ signalling"
    and signalling: "rns_link_signalling_encode (lk_mtu rsp) (lk_mode rsp) = Some signalling"
    and sign: "rns_ed25519_sign P (lk_signing_private rsp)
       (lk_link_id rsp @ lk_public_key rsp @ lk_signing_public rsp @ signalling) = Some signature"
    and len: "length signature = 64" "length signalling = 3"
    by (rule build_proofD [OF pr assms(5) rsp(3)])
  have "rns_identity_sign P identity (lk_link_id rsp @ lk_public_key rsp @ lk_signing_public rsp @ signalling) =
      Some signature"
    using sign rsp(5) identity(2) by (simp add: rns_identity_sign_def)
  from identity_sign_verify [OF identity(1) assms(4) identity(3) this]
  have verified: "rns_identity_verify P destination
      (lk_link_id i1 @ lk_public_key rsp @ signing_public destination @ signalling) signature"
    using rsp(2,6) identity(3) by simp
  have "rns_link_signalling_decode signalling = Some (lk_mtu rsp, 1)"
    using signalling_roundtrip [OF signalling, of "[]"] rsp(1) by simp
  moreover have "length pr = 99" "drop 96 pr = signalling" "bytes_at 64 32 pr = lk_public_key rsp"
    "bytes_at 96 3 pr = signalling" "take 64 pr = signature"
    using whole len rsp(3) by (simp_all add: bytes_at_def)
  moreover have "rns_x25519_exchange P (lk_private_key i1) (lk_public_key rsp) = Some shared"
    using exchange_soundD [OF assms(3) i1(5) rsp(4)] rsp(7) by simp
  ultimately show ?thesis
    using i1 verified rsp(2,8)
    by (simp add: rns_link_initiator_accept_proof_def derive_def Let_def)
qed

text \<open>
  C28. The handshake agrees: when an initiator's request packet is accepted by the responder whose
  identity it names, and the responder's proof comes back, the initiator becomes active with the
  responder's link id, derived key and an MTU of at most 500; its round-trip confirmation then makes
  the responder active; and from then on whatever either side encrypts, the other decrypts.
\<close>

theorem link_handshake:
  assumes "generate_sound P" "public_key_size P" "exchange_sound P" "signature_sound P" "signature_size P" "token_sound P"
    and "identity_wf P identity" "signing_public destination = signing_public identity"
    and "rns_link_initiator_init P rnd destination mtu timeout now r = (Some i0, r1)"
    and "rns_link_build_request_payload i0 = Some (pkt_data packet)" "rns_packet_decode raw = Some packet"
    and "rns_link_initiator_set_request_packet P raw i0 = Some i1"
    and "rns_link_responder_accept P rnd identity raw timeout' now1 r2 = (Some rsp, r3)"
    and "rns_link_build_proof P rsp = Some pr"
    and "of_bits (to_bits (dsub rnd now2 now)) = dsub rnd now2 now" "isfinite (dsub rnd now2 now)"
        "dge (dsub rnd now2 now) (Fin 0)"
  shows "\<exists>i2. rns_link_initiator_accept_proof P rnd pr now2 i1 = (True, i2) \<and> lk_state i2 = RNS_LINK_ACTIVE \<and>
           lk_link_id i2 = lk_link_id rsp \<and> lk_derived_key i2 = lk_derived_key rsp \<and>
           lk_mtu i2 = (if mtu > 500 then 500 else mtu) \<and>
           (\<forall>cap token s s'. rns_link_build_rtt_confirm P to_bits cap i2 s = (Some token, s') \<longrightarrow>
              (\<exists>rsp'. rns_link_responder_accept_rtt P rnd of_bits token now3 rsp = (True, rsp') \<and>
                 lk_state rsp' = RNS_LINK_ACTIVE \<and> lk_derived_key rsp' = lk_derived_key i2 \<and>
                 (\<forall>m cap token s s' cap'. length token \<le> cap' \<longrightarrow>
                    (rns_link_encrypt P i2 m cap s = (Some token, s') \<longrightarrow> rns_link_decrypt P rsp' token cap' = Some m) \<and>
                    (rns_link_encrypt P rsp' m cap s = (Some token, s') \<longrightarrow> rns_link_decrypt P i2 token cap' = Some m))))"
proof -
  note i0 = initiator_commonD [OF assms(9) [unfolded rns_link_initiator_init_def] assms(1,2)]
  obtain signalling where sig: "rns_link_signalling_encode mtu 1 = Some signalling"
    and payload: "pkt_data packet = lk_public_key i0 @ lk_signing_public i0 @ signalling"
    using assms(10) i0(3,4) by (auto simp: rns_link_build_request_payload_def split: if_splits)
  have data: "length (pkt_data packet) = 67" "rns_link_signalling_decode (drop 64 (pkt_data packet)) = Some (mtu, 1)"
    "take 32 (pkt_data packet) = lk_public_key i0"
    using signalling_roundtrip [OF sig, of "[]"] i0(8,9) by (simp_all add: payload)
  note rsp = responder_commonD [OF assms(13) [unfolded rns_link_responder_accept_def] assms(11) data(1,2) assms(1,2)]
  have i1: "i1 = i0\<lparr>lk_link_id := lk_link_id rsp\<rparr>"
    using assms(11,12) rsp(6) by (auto simp: rns_link_initiator_set_request_packet_def split: if_splits)
  obtain shared where shared: "rns_x25519_exchange P (lk_private_key rsp) (lk_public_key i1) = Some shared"
    "rns_hkdf_sha256 P shared (lk_link_id rsp) [] 64 = Some (lk_derived_key rsp)"
    using rsp(12) data(3) by (auto simp: i1)
  have sides: "lk_role i1 = RNS_LINK_INITIATOR" "lk_state i1 = RNS_LINK_PENDING" "lk_mode i1 = 1"
    "lk_remote_identity i1 = destination"
    "rns_x25519_public_from_private P (lk_private_key i1) = Some (lk_public_key i1)" "lk_link_id rsp = lk_link_id i1"
    using i0 by (simp_all add: i1)
  from accept_proof_active [OF assms(1-5,7) rsp(11) assms(8) sides(1-5) rsp(5) sides(6) rsp(8,7,9,10) shared assms(14)]
  obtain i2 where i2: "rns_link_initiator_accept_proof P rnd pr now2 i1 = (True, i2)" "lk_state i2 = RNS_LINK_ACTIVE"
    "lk_role i2 = RNS_LINK_INITIATOR" "lk_link_id i2 = lk_link_id rsp" "lk_derived_key i2 = lk_derived_key rsp"
    "lk_mtu i2 = lk_mtu rsp" "lk_rtt i2 = dsub rnd now2 (lk_request_time i1)" by blast
  have rtt: "lk_rtt i2 = dsub rnd now2 now" using i2(7) i0(6) by (simp add: i1)
  have active: "\<exists>rsp'. rns_link_responder_accept_rtt P rnd of_bits token now3 rsp = (True, rsp') \<and>
      lk_state rsp' = RNS_LINK_ACTIVE \<and> lk_derived_key rsp' = lk_derived_key i2"
    if confirm: "rns_link_build_rtt_confirm P to_bits cap i2 s = (Some token, s')" for cap token s s'
  proof -
    have enc: "rns_token_encrypt P (lk_derived_key rsp) (encode_double to_bits (lk_rtt i2)) cap s = (Some token, s')"
      using confirm i2(2,3,5) by (simp add: rns_link_build_rtt_confirm_def)
    have "length token - 48 \<le> 16" using token_soundD(1) [OF assms(6) enc] by (simp add: encode_double_def)
    then have "rns_token_decrypt P (lk_derived_key rsp) token 16 = Some (encode_double to_bits (lk_rtt i2))"
      by (rule token_soundD(3) [OF assms(6) enc])
    moreover have "decode_double of_bits (encode_double to_bits (lk_rtt i2)) = Some (dsub rnd now2 now)"
      using assms(15-17) by (simp add: decode_double_def encode_double_def bytes_at_def rtt)
    ultimately show ?thesis
      using rsp(1,2) i2(5) by (simp add: rns_link_responder_accept_rtt_def Let_def encode_double_def)
  qed
  have decrypt: "rns_link_decrypt P b token cap' = Some m"
    if "rns_link_encrypt P a m cap s = (Some token, s')" "length token \<le> cap'" "lk_state b = RNS_LINK_ACTIVE"
      "lk_derived_key b = lk_derived_key a" for a b m cap token s s' cap'
  proof -
    have "rns_token_encrypt P (lk_derived_key a) m cap s = (Some token, s')"
      using that(1) by (simp add: rns_link_encrypt_def split: if_splits)
    from token_soundD(3) [OF assms(6) this] that(2-4) show ?thesis by (simp add: rns_link_decrypt_def)
  qed
  show ?thesis
    using i2(1,2,4,5,6) rsp(4) active decrypt by (intro exI [of _ i2]) (simp, metis)
qed

text \<open>A handshake with the sample provider, with the memory image of the double one.\<close>

lemma sample_exchange:
  "rns_x25519_exchange sample_provider sk pk = Some (map2 (\<lambda>a b. a XOR b) (fit 32 sk) (fit 32 pk))"
  by (simp add: rns_x25519_exchange_def sample_provider_defs openssl_x25519_exchange_def)

lemma sample_derive:
  assumes "length (lk_link_id link) \<le> 16"
  shows "\<exists>key. derive sample_provider link = Some (link\<lparr>lk_derived_key := key\<rparr>)"
proof -
  have "map2 (\<lambda>a b. a XOR b) (fit 32 (lk_private_key link)) (fit 32 (lk_peer_public link)) \<noteq> []"
    by (auto simp: zip_eq_Nil_iff simp flip: length_0_conv)
  with assms show ?thesis by (auto simp: derive_def sample_exchange sample_hkdf)
qed

definition sample_initiator :: rns_link where
  "sample_initiator = zero_link_state\<lparr>lk_deadline := Fin 10, lk_mtu := 500, lk_mode := 1,
     lk_remote_identity := sample_identity, lk_private_key := replicate 32 0, lk_public_key := replicate 32 0,
     lk_signing_private := replicate 32 1, lk_signing_public := replicate 32 1\<rparr>"

definition sample_request :: rns_packet where
  "sample_request = \<lparr>pkt_header_type = 0, pkt_context_flag = 0, pkt_transport_type = 0, pkt_destination_type = 0,
     pkt_packet_type = 2, pkt_hops = 0, pkt_transport_id = replicate 16 0, pkt_destination_hash = replicate 16 4,
     pkt_context = 0, pkt_data = replicate 32 0 @ replicate 32 1 @ [0x20, 1, 0xf4]\<rparr>"

definition sample_request_raw :: bytes where
  "sample_request_raw = [2, 0] @ replicate 16 4 @ [0] @ replicate 32 0 @ replicate 32 1 @ [0x20, 1, 0xf4]"

lemma sample_signalling: "rns_link_signalling_encode 500 1 = Some [0x20, 1, 0xf4]"
  by (simp add: rns_link_signalling_encode_def Let_def)

lemma sample_initiator_init:
  "rns_link_initiator_init sample_provider Fin sample_identity 500 (Fin 10) (Fin 0) 0 = (Some sample_initiator, 2)"
  by (simp add: rns_link_initiator_init_def initiator_common_def key_pair_def sample_signalling
      rns_x25519_generate_def rns_ed25519_generate_def sample_provider_defs openssl_x25519_generate_def
      openssl_ed25519_generate_def sample_initiator_def zero_link_state_def)

lemma sample_request_decode: "rns_packet_decode sample_request_raw = Some sample_request"
  by (simp add: rns_packet_decode_def sample_request_raw_def sample_request_def layout_def bytes_at_def Let_def
      nth_append)

lemma sample_request_id: "\<exists>link_id. rns_link_id_from_request_packet sample_provider sample_request_raw = Some link_id \<and>
    length link_id = 16"
  by (simp add: rns_link_id_from_request_packet_def sample_request_decode sample_provider_eval Let_def)
     (simp add: sample_request_def)

theorem link_handshake_witness:
  "\<exists>i1 rsp pr i2. rns_link_initiator_set_request_packet sample_provider sample_request_raw sample_initiator = Some i1 \<and>
     fst (rns_link_responder_accept sample_provider Fin sample_identity sample_request_raw (Fin 10) (Fin 0) 5) = Some rsp \<and>
     rns_link_build_proof sample_provider rsp = Some pr \<and>
     rns_link_initiator_accept_proof sample_provider Fin pr (Fin 1) i1 = (True, i2) \<and>
     lk_derived_key i2 = lk_derived_key rsp"
proof -
  obtain link_id where id: "rns_link_id_from_request_packet sample_provider sample_request_raw = Some link_id"
    "length link_id = 16" using sample_request_id by blast
  have payload: "rns_link_build_request_payload sample_initiator = Some (pkt_data sample_request)"
    by (simp add: rns_link_build_request_payload_def sample_initiator_def zero_link_state_def sample_signalling
        sample_request_def)
  obtain i1 where i1: "rns_link_initiator_set_request_packet sample_provider sample_request_raw sample_initiator = Some i1"
  proof -
    have "lk_role sample_initiator = RNS_LINK_INITIATOR" "lk_state sample_initiator = RNS_LINK_PENDING"
      "length (pkt_data sample_request) = 67"
      by (simp_all add: sample_request_def sample_initiator_def zero_link_state_def)
    then show ?thesis
      using payload id that by (simp add: rns_link_initiator_set_request_packet_def sample_request_decode)
  qed
  have decoded: "rns_link_signalling_decode [0x20, 1, 0xf4] = Some (500, 1)"
    using signalling_roundtrip [OF sample_signalling, of "[]"] by simp
  obtain rsp r3 where rsp: "rns_link_responder_accept sample_provider Fin sample_identity sample_request_raw
      (Fin 10) (Fin 0) 5 = (Some rsp, r3)" "lk_role rsp = RNS_LINK_RESPONDER" "lk_state rsp = RNS_LINK_HANDSHAKE"
    "lk_mtu rsp = 500" "lk_mode rsp = 1"
  proof -
    let ?l = "zero_link_state\<lparr>lk_role := RNS_LINK_RESPONDER, lk_state := RNS_LINK_HANDSHAKE,
        lk_deadline := Fin 10, lk_mtu := 500, lk_mode := 1, lk_peer_public := replicate 32 0,
        lk_peer_signing_public := replicate 32 1, lk_signing_private := signing_private sample_identity,
        lk_signing_public := signing_public sample_identity, lk_private_key := replicate 32 5,
        lk_public_key := replicate 32 5, lk_link_id := link_id\<rparr>"
    obtain key where "derive sample_provider ?l = Some (?l\<lparr>lk_derived_key := key\<rparr>)"
      using sample_derive [of ?l] id(2) by auto
    then have "rns_link_responder_accept sample_provider Fin sample_identity sample_request_raw (Fin 10) (Fin 0) 5 =
        (Some (?l\<lparr>lk_derived_key := key\<rparr>), 6)"
      using id(1) decoded
      by (simp add: rns_link_responder_accept_def responder_common_def sample_request_decode Let_def key_pair_def
          rns_x25519_generate_def sample_provider_defs openssl_x25519_generate_def sample_request_def
          sample_identity_def bytes_at_def zero_link_state_def)
    from that [OF this] show thesis by simp
  qed
  obtain pr where pr: "rns_link_build_proof sample_provider rsp = Some pr"
    using rsp by (simp add: rns_link_build_proof_def sample_signalling sample_provider_eval)
  have "dsub Fin (Fin 1) (Fin 0) = Fin 1" by (simp add: dsub_def)
  then have rtt: "(\<lambda>_. Fin 1) ((\<lambda>_. 0x3ff0000000000000 :: u64) (dsub Fin (Fin 1) (Fin 0))) = dsub Fin (Fin 1) (Fin 0)"
    "isfinite (dsub Fin (Fin 1) (Fin 0))" "dge (dsub Fin (Fin 1) (Fin 0)) (Fin 0)" by simp_all
  from link_handshake [OF sample_provider_sound(6,5,7,3,4,8) sample_identity_wf refl sample_initiator_init payload
      sample_request_decode i1 rsp(1) pr rtt, of "\<lambda>_. 0x3ff0000000000000" "Fin 2"]
  have "\<exists>i2. rns_link_initiator_accept_proof sample_provider Fin pr (Fin 1) i1 = (True, i2) \<and>
      lk_derived_key i2 = lk_derived_key rsp" by blast
  then show ?thesis using i1 rsp(1) pr by auto
qed

end
