(* ===== verification/Resource.thy ===== *)
theory Resource
  imports Link
begin

text \<open>
  Resources: the transfer of large data over a link (\<^verbatim>\<open>src/link/resource.c\<close>). The sender cuts an
  encrypted segment into parts and advertises it with a map of truncated part hashes; the receiver
  requests parts by their hashes and further pages of the map as it needs them, assembles the
  segment and proves that it has it.

  A cursor of the MessagePack reader is the list of the bytes that remain. \<^verbatim>\<open>size_t\<close> is 64 bits wide and
  a count is a natural number below \<open>SIZE_MAX\<close>. A stored part carries its length, so
  \<^verbatim>\<open>part_lengths\<close> is not a field of its own. The bzip2 library, present or not, is a parameter.
\<close>

abbreviation (input) RNS_RESOURCE_HASH_SIZE :: nat where "RNS_RESOURCE_HASH_SIZE \<equiv> 32"
abbreviation (input) RNS_RESOURCE_MAPHASH_LEN :: nat where "RNS_RESOURCE_MAPHASH_LEN \<equiv> 4"
abbreviation (input) RNS_RESOURCE_RANDOM_HASH_SIZE :: nat where "RNS_RESOURCE_RANDOM_HASH_SIZE \<equiv> 4"
abbreviation (input) RNS_RESOURCE_REQUEST_ID_SIZE :: nat where "RNS_RESOURCE_REQUEST_ID_SIZE \<equiv> 16"
abbreviation (input) RNS_RESOURCE_PROOF_SIZE :: nat where "RNS_RESOURCE_PROOF_SIZE \<equiv> 64"
abbreviation (input) RNS_RESOURCE_WINDOW :: nat where "RNS_RESOURCE_WINDOW \<equiv> 4"
abbreviation (input) RNS_RESOURCE_WINDOW_MAX :: nat where "RNS_RESOURCE_WINDOW_MAX \<equiv> 75"
abbreviation (input) RNS_RESOURCE_MAX_RETRIES :: nat where "RNS_RESOURCE_MAX_RETRIES \<equiv> 16"
abbreviation (input) RNS_RESOURCE_HASHMAP_MAX_ENTRIES :: nat where "RNS_RESOURCE_HASHMAP_MAX_ENTRIES \<equiv> 74"
abbreviation (input) RNS_RESOURCE_MAX_PARTS :: nat where "RNS_RESOURCE_MAX_PARTS \<equiv> 18000"
abbreviation (input) RNS_RESOURCE_PART_MAX :: nat where "RNS_RESOURCE_PART_MAX \<equiv> 464"
abbreviation (input) RNS_RESOURCE_MAX_SIZE :: nat where "RNS_RESOURCE_MAX_SIZE \<equiv> 8388608"
abbreviation (input) RNS_RESOURCE_SINGLE_SEGMENT_MAX_SIZE :: nat where
  "RNS_RESOURCE_SINGLE_SEGMENT_MAX_SIZE \<equiv> 1048575"
abbreviation (input) UINT_MAX :: nat where "UINT_MAX \<equiv> 4294967295"

abbreviation (input) RNS_RESOURCE_FLAG_ENCRYPTED :: byte where "RNS_RESOURCE_FLAG_ENCRYPTED \<equiv> 0x01"
abbreviation (input) RNS_RESOURCE_FLAG_COMPRESSED :: byte where "RNS_RESOURCE_FLAG_COMPRESSED \<equiv> 0x02"
abbreviation (input) RNS_RESOURCE_FLAG_SPLIT :: byte where "RNS_RESOURCE_FLAG_SPLIT \<equiv> 0x04"
abbreviation (input) RNS_RESOURCE_FLAG_REQUEST :: byte where "RNS_RESOURCE_FLAG_REQUEST \<equiv> 0x08"
abbreviation (input) RNS_RESOURCE_FLAG_RESPONSE :: byte where "RNS_RESOURCE_FLAG_RESPONSE \<equiv> 0x10"
abbreviation (input) RNS_RESOURCE_FLAG_METADATA :: byte where "RNS_RESOURCE_FLAG_METADATA \<equiv> 0x20"

record rns_resource_advertisement =
  ra_transfer_size :: nat
  ra_data_size :: nat
  ra_parts :: nat
  ra_hash :: bytes
  ra_random_hash :: bytes
  ra_original_hash :: bytes
  ra_segment_index :: nat
  ra_total_segments :: nat
  ra_has_request_id :: bool
  ra_request_id :: bytes
  ra_flags :: byte
  ra_hashmap :: bytes
  ra_encrypted :: bool
  ra_compressed :: bool
  ra_split :: bool
  ra_is_request :: bool
  ra_is_response :: bool
  ra_has_metadata :: bool

record rns_resource_sender_options =
  so_auto_compress :: bool
  so_is_response :: bool
  so_request_id :: "bytes option"

record rns_resource =
  rc_advertisement :: rns_resource_advertisement
  rc_map_hashes :: bytes
  rc_known_hashes :: nat
  rc_parts :: "bytes option list"
  rc_requested :: "bool list"
  rc_received :: nat
  rc_retries_used :: nat
  rc_waiting :: bool
  rc_assembled :: bool
  rc_proof :: bytes
  rc_max_size :: nat

record rns_resource_sender =
  rs_source :: bytes
  rs_segment_index :: nat
  rs_total_segments :: nat
  rs_total_data_parts :: nat
  rs_auto_compress :: bool
  rs_is_response :: bool
  rs_has_request_id :: bool
  rs_request_id :: bytes
  rs_flags :: byte
  rs_random_hash :: bytes
  rs_hash :: bytes
  rs_original_hash :: bytes
  rs_wire :: bytes
  rs_parts :: nat
  rs_map_hashes :: bytes

text \<open>
  The bzip2 library: compression into a bounded buffer, and decompression with a limit on the
  output. \<open>None\<close> in place of the record is a build without it.
\<close>

datatype bz_result = BZ_OK bytes | BZ_OUTBUFF_FULL | BZ_ERROR

record bzip2 =
  BZ2_bzBuffToBuffCompress :: "nat \<Rightarrow> bytes \<Rightarrow> bytes option"
  BZ2_bzBuffToBuffDecompress :: "nat \<Rightarrow> bytes \<Rightarrow> bz_result"

section \<open>The MessagePack reader\<close>

definition add_size :: "nat \<Rightarrow> nat \<Rightarrow> nat option" where
  "add_size a b = (if a > SIZE_MAX - b then None else Some (a + b))"

definition mul_size :: "nat \<Rightarrow> nat \<Rightarrow> nat option" where
  "mul_size a b = (if a \<noteq> 0 \<and> b > SIZE_MAX div a then None else Some (a * b))"

definition mp_byte :: "bytes \<Rightarrow> (byte \<times> bytes) option" where
  "mp_byte reader = (case reader of [] \<Rightarrow> None | b # rest \<Rightarrow> Some (b, rest))"

definition mp_take :: "nat \<Rightarrow> bytes \<Rightarrow> (bytes \<times> bytes) option" where
  "mp_take n reader = (if length reader < n then None else Some (take n reader, drop n reader))"

definition mp_uint :: "bytes \<Rightarrow> (u64 \<times> bytes) option" where
  "mp_uint reader =
     (case mp_byte reader of
        None \<Rightarrow> None
      | Some (tag, rest) \<Rightarrow>
          if tag \<le> 0x7f then Some (ucast tag, rest)
          else let sized = (\<lambda>n. map_option (\<lambda>(p, rest'). (be_get p, rest')) (mp_take n rest))
               in if tag = 0xcc then sized 1
                  else if tag = 0xcd then sized 2
                  else if tag = 0xce then sized 4
                  else if tag = 0xcf then sized 8
                  else None)"

definition mp_bin :: "bytes \<Rightarrow> (bytes \<times> bytes) option" where
  "mp_bin reader =
     (case mp_byte reader of
        None \<Rightarrow> None
      | Some (tag, rest) \<Rightarrow>
          let sized = (\<lambda>width.
                case mp_take width rest of
                  None \<Rightarrow> None
                | Some (p, rest') \<Rightarrow> mp_take (unat (be_get p :: u64)) rest')
          in if tag = 0xc4 then sized 1
             else if tag = 0xc5 then sized 2
             else if tag = 0xc6 then sized 4
             else None)"

definition mp_key :: "bytes \<Rightarrow> (byte \<times> bytes) option" where
  "mp_key reader =
     (case mp_byte reader of
        None \<Rightarrow> None
      | Some (tag, rest) \<Rightarrow> if tag = 0xa1 then mp_byte rest else None)"

definition uint_to_size :: "u64 \<Rightarrow> nat option" where
  "uint_to_size v = (if unat v > SIZE_MAX then None else Some (unat v))"

section \<open>Advertisements\<close>

definition zero_advertisement :: rns_resource_advertisement where
  "zero_advertisement =
     \<lparr>ra_transfer_size = 0, ra_data_size = 0, ra_parts = 0, ra_hash = replicate 32 0,
      ra_random_hash = replicate 4 0, ra_original_hash = replicate 32 0, ra_segment_index = 0,
      ra_total_segments = 0, ra_has_request_id = False, ra_request_id = replicate 16 0, ra_flags = 0,
      ra_hashmap = [], ra_encrypted = False, ra_compressed = False, ra_split = False,
      ra_is_request = False, ra_is_response = False, ra_has_metadata = False\<rparr>"

definition validate_advertisement :: "rns_resource_advertisement \<Rightarrow> rns_status" where
  "validate_advertisement a =
     (if ra_parts a = 0 \<or> ra_parts a > RNS_RESOURCE_MAX_PARTS \<or> ra_transfer_size a = 0 \<or>
         ra_data_size a > RNS_RESOURCE_MAX_SIZE \<or> ra_segment_index a = 0 \<or>
         ra_segment_index a > ra_total_segments a \<or>
         length (ra_hashmap a) mod RNS_RESOURCE_MAPHASH_LEN \<noteq> 0 \<or>
         length (ra_hashmap a) \<noteq>
           (if ra_parts a < RNS_RESOURCE_HASHMAP_MAX_ENTRIES then ra_parts a
            else RNS_RESOURCE_HASHMAP_MAX_ENTRIES) * RNS_RESOURCE_MAPHASH_LEN
      then RNS_ERROR_PROTOCOL
      else case mul_size (ra_parts a) RNS_RESOURCE_PART_MAX of
             None \<Rightarrow> RNS_ERROR_PROTOCOL
           | Some maximum_wire \<Rightarrow>
               if ra_transfer_size a > maximum_wire \<or> ra_parts a > ra_transfer_size a
               then RNS_ERROR_PROTOCOL
               else if ra_flags a AND RNS_RESOURCE_FLAG_ENCRYPTED \<noteq> 0 \<and>
                       (ra_transfer_size a < 64 \<or> ra_transfer_size a mod 16 \<noteq> 0)
               then RNS_ERROR_PROTOCOL
               else if ra_flags a AND RNS_RESOURCE_FLAG_ENCRYPTED = 0 \<and>
                       ra_transfer_size a < RNS_RESOURCE_RANDOM_HASH_SIZE
               then RNS_ERROR_PROTOCOL
               else if (ra_flags a AND RNS_RESOURCE_FLAG_SPLIT \<noteq> 0) \<noteq> (ra_total_segments a > 1)
               then RNS_ERROR_PROTOCOL
               else if ra_segment_index a = 1 \<and> ra_hash a \<noteq> ra_original_hash a
               then RNS_ERROR_PROTOCOL
               else RNS_OK)"

definition key_bit :: "byte \<Rightarrow> u16 option" where
  "key_bit key =
     (if key = 0x74 then Some 0x001 else if key = 0x64 then Some 0x002
      else if key = 0x6e then Some 0x004 else if key = 0x68 then Some 0x008
      else if key = 0x72 then Some 0x010 else if key = 0x6f then Some 0x020
      else if key = 0x69 then Some 0x040 else if key = 0x6c then Some 0x080
      else if key = 0x71 then Some 0x100 else if key = 0x66 then Some 0x200
      else if key = 0x6d then Some 0x400 else None)"

text \<open>The value of one field, by its key.\<close>

definition parse_value ::
  "byte \<Rightarrow> rns_resource_advertisement \<Rightarrow> bytes \<Rightarrow> (rns_resource_advertisement \<times> bytes) option" where
  "parse_value key parsed reader =
     (if key \<in> {0x74, 0x64, 0x6e, 0x69, 0x6c, 0x66}
      then case mp_uint reader of
             None \<Rightarrow> None
           | Some (v, rest) \<Rightarrow>
               (case uint_to_size v of
                  None \<Rightarrow> None
                | Some converted \<Rightarrow>
                    if key = 0x74 then Some (parsed\<lparr>ra_transfer_size := converted\<rparr>, rest)
                    else if key = 0x64 then Some (parsed\<lparr>ra_data_size := converted\<rparr>, rest)
                    else if key = 0x6e then Some (parsed\<lparr>ra_parts := converted\<rparr>, rest)
                    else if key = 0x69 then Some (parsed\<lparr>ra_segment_index := converted\<rparr>, rest)
                    else if key = 0x6c then Some (parsed\<lparr>ra_total_segments := converted\<rparr>, rest)
                    else if v > 255 then None
                    else Some (parsed\<lparr>ra_flags := ucast v\<rparr>, rest))
      else if key = 0x71
      then case reader of
             [] \<Rightarrow> None
           | b # rest \<Rightarrow>
               if b = 0xc0 then Some (parsed, rest)
               else (case mp_bin reader of
                       None \<Rightarrow> None
                     | Some (v, rest') \<Rightarrow>
                         if length v \<noteq> RNS_RESOURCE_REQUEST_ID_SIZE then None
                         else Some (parsed\<lparr>ra_request_id := v, ra_has_request_id := True\<rparr>, rest'))
      else case mp_bin reader of
             None \<Rightarrow> None
           | Some (v, rest) \<Rightarrow>
               if key = 0x68
               then (if length v \<noteq> RNS_RESOURCE_HASH_SIZE then None
                     else Some (parsed\<lparr>ra_hash := v\<rparr>, rest))
               else if key = 0x72
               then (if length v \<noteq> RNS_RESOURCE_RANDOM_HASH_SIZE then None
                     else Some (parsed\<lparr>ra_random_hash := v\<rparr>, rest))
               else if key = 0x6f
               then (if length v \<noteq> RNS_RESOURCE_HASH_SIZE then None
                     else Some (parsed\<lparr>ra_original_hash := v\<rparr>, rest))
               else Some (parsed\<lparr>ra_hashmap := v\<rparr>, rest))"

fun parse_fields ::
  "nat \<Rightarrow> u16 \<Rightarrow> rns_resource_advertisement \<Rightarrow> bytes \<Rightarrow> (u16 \<times> rns_resource_advertisement \<times> bytes) option" where
  "parse_fields 0 seen parsed reader = Some (seen, parsed, reader)"
| "parse_fields (Suc n) seen parsed reader =
     (case mp_key reader of
        None \<Rightarrow> None
      | Some (key, rest) \<Rightarrow>
          (case key_bit key of
             None \<Rightarrow> None
           | Some b \<Rightarrow>
               if seen AND b \<noteq> 0 then None
               else (case parse_value key parsed rest of
                       None \<Rightarrow> None
                     | Some (parsed', rest') \<Rightarrow> parse_fields n (seen OR b) parsed' rest')))"

definition set_flags :: "rns_resource_advertisement \<Rightarrow> rns_resource_advertisement" where
  "set_flags a =
     a\<lparr>ra_encrypted := ra_flags a AND RNS_RESOURCE_FLAG_ENCRYPTED \<noteq> 0,
       ra_compressed := ra_flags a AND RNS_RESOURCE_FLAG_COMPRESSED \<noteq> 0,
       ra_split := ra_flags a AND RNS_RESOURCE_FLAG_SPLIT \<noteq> 0,
       ra_is_request := ra_flags a AND RNS_RESOURCE_FLAG_REQUEST \<noteq> 0,
       ra_is_response := ra_flags a AND RNS_RESOURCE_FLAG_RESPONSE \<noteq> 0,
       ra_has_metadata := ra_flags a AND RNS_RESOURCE_FLAG_METADATA \<noteq> 0\<rparr>"

definition rns_resource_advertisement_parse :: "bytes \<Rightarrow> rns_status + rns_resource_advertisement" where
  "rns_resource_advertisement_parse data =
     (if data = [] then Inl RNS_ERROR_INVALID_ARGUMENT
      else case mp_byte data of
             None \<Rightarrow> Inl RNS_ERROR_PROTOCOL
           | Some (map_tag, rest) \<Rightarrow>
               if map_tag \<noteq> 0x8b then Inl RNS_ERROR_PROTOCOL
               else (case parse_fields 11 0 zero_advertisement rest of
                       None \<Rightarrow> Inl RNS_ERROR_PROTOCOL
                     | Some (seen, parsed, rest') \<Rightarrow>
                         if seen \<noteq> 0x7ff \<or> rest' \<noteq> [] then Inl RNS_ERROR_PROTOCOL
                         else let parsed' = set_flags parsed
                              in if validate_advertisement parsed' \<noteq> RNS_OK then Inl RNS_ERROR_PROTOCOL
                                 else Inr parsed'))"

section \<open>The receiver\<close>

definition rns_resource_accept :: "rns_resource_advertisement \<Rightarrow> nat \<Rightarrow> rns_status + rns_resource" where
  "rns_resource_accept adv max_size =
     (if ra_parts adv > RNS_RESOURCE_MAX_PARTS then Inl RNS_ERROR_UNSUPPORTED
      else if validate_advertisement adv \<noteq> RNS_OK then Inl RNS_ERROR_PROTOCOL
      else let max_size1 = (if max_size = 0 then RNS_RESOURCE_MAX_SIZE else max_size);
               max_size2 = (if max_size1 > RNS_RESOURCE_MAX_SIZE then RNS_RESOURCE_MAX_SIZE else max_size1)
           in if ra_data_size adv > max_size2 then Inl RNS_ERROR_OVERFLOW
              else (case mul_size (ra_parts adv) RNS_RESOURCE_MAPHASH_LEN of
                      None \<Rightarrow> Inl RNS_ERROR_OVERFLOW
                    | Some map_bytes \<Rightarrow>
                        let map_hashes = ra_hashmap adv @ replicate (map_bytes - length (ra_hashmap adv)) 0
                        in Inr \<lparr>rc_advertisement = set_flags adv,
                                rc_map_hashes = map_hashes,
                                rc_known_hashes = length (ra_hashmap adv) div RNS_RESOURCE_MAPHASH_LEN,
                                rc_parts = replicate (ra_parts adv) None,
                                rc_requested = replicate (ra_parts adv) False,
                                rc_received = 0, rc_retries_used = 0, rc_waiting = False,
                                rc_assembled = False, rc_proof = replicate 64 0,
                                rc_max_size = max_size2\<rparr>))"

definition map_hash :: "bytes \<Rightarrow> nat \<Rightarrow> bytes" where
  \<comment> \<open>\<^verbatim>\<open>map_hashes + i * 4U\<close>, four bytes\<close>
  "map_hash map_hashes i = bytes_at (i * 4) 4 map_hashes"

definition rns_resource_total_parts :: "rns_resource \<Rightarrow> nat" where
  "rns_resource_total_parts resource = ra_parts (rc_advertisement resource)"

definition rns_resource_received_parts :: "rns_resource \<Rightarrow> nat" where
  "rns_resource_received_parts resource = rc_received resource"

definition outstanding_indices :: "rns_resource \<Rightarrow> nat list" where
  \<comment> \<open>the known parts that are requested and not received, in order\<close>
  "outstanding_indices resource =
     filter (\<lambda>i. rc_parts resource ! i = None \<and> rc_requested resource ! i) [0..<rc_known_hashes resource]"

definition rns_resource_outstanding_parts :: "rns_resource \<Rightarrow> nat" where
  "rns_resource_outstanding_parts resource = length (outstanding_indices resource)"

definition rns_resource_retries_used :: "rns_resource \<Rightarrow> nat" where
  "rns_resource_retries_used resource = rc_retries_used resource"

definition rns_resource_parts_complete :: "rns_resource \<Rightarrow> bool" where
  "rns_resource_parts_complete resource \<longleftrightarrow> rc_received resource = ra_parts (rc_advertisement resource)"

definition rns_resource_waiting_for_hashmap :: "rns_resource \<Rightarrow> bool" where
  "rns_resource_waiting_for_hashmap resource = rc_waiting resource"

definition hash_part :: "'r rns_crypto_provider option \<Rightarrow> bytes \<Rightarrow> bytes \<Rightarrow> rns_status + bytes" where
  "hash_part P part random_hash =
     (case add_size (length part) 4 of
        None \<Rightarrow> Inl RNS_ERROR_OVERFLOW
      | Some _ \<Rightarrow>
          (case rns_sha256 P (part @ random_hash) of
             None \<Rightarrow> Inl RNS_ERROR_CRYPTO
           | Some digest \<Rightarrow> Inr digest))"

definition rns_resource_receive_part ::
  "'r rns_crypto_provider option \<Rightarrow> bytes \<Rightarrow> rns_resource \<Rightarrow> rns_status \<times> rns_resource" where
  "rns_resource_receive_part P part resource =
     (if part = [] then (RNS_ERROR_INVALID_ARGUMENT, resource)
      else if length part > RNS_RESOURCE_PART_MAX then (RNS_ERROR_PROTOCOL, resource)
      else case hash_part P part (ra_random_hash (rc_advertisement resource)) of
             Inl status \<Rightarrow> (status, resource)
           | Inr digest \<Rightarrow>
               (case first_index (\<lambda>i. take 4 digest = map_hash (rc_map_hashes resource) i)
                       [0..<rc_known_hashes resource] of
                  None \<Rightarrow> (RNS_ERROR_PROTOCOL, resource)
                | Some i \<Rightarrow>
                    (case rc_parts resource ! i of
                       Some stored \<Rightarrow> (if stored = part then RNS_OK else RNS_ERROR_PROTOCOL, resource)
                     | None \<Rightarrow>
                         (RNS_OK,
                          resource\<lparr>rc_parts := (rc_parts resource)[i := Some part],
                                   rc_requested := (rc_requested resource)[i := False],
                                   rc_received := rc_received resource + 1,
                                   rc_retries_used := 0\<rparr>))))"

definition rns_resource_build_request :: "nat \<Rightarrow> rns_resource \<Rightarrow> (rns_status + bytes) \<times> rns_resource" where
  "rns_resource_build_request capacity resource =
     (if rns_resource_parts_complete resource then (Inl RNS_ERROR_INVALID_STATE, resource)
      else let known = rc_known_hashes resource;
               outstanding = rns_resource_outstanding_parts resource;
               available = (if outstanding < RNS_RESOURCE_WINDOW then RNS_RESOURCE_WINDOW - outstanding else 0);
               missing = take available
                 (filter (\<lambda>i. rc_parts resource ! i = None \<and> \<not> rc_requested resource ! i) [0..<known])
           in if missing \<noteq> []
              then let needed = 1 + RNS_RESOURCE_HASH_SIZE + length missing * 4
                   in if capacity < needed then (Inl RNS_ERROR_OVERFLOW, resource)
                      else (Inr ([0x00] @ ra_hash (rc_advertisement resource) @
                                 concat (map (map_hash (rc_map_hashes resource)) missing)),
                            resource\<lparr>rc_requested := fold (\<lambda>i rq. rq[i := True]) missing (rc_requested resource),
                                     rc_waiting := False\<rparr>)
              else if outstanding \<noteq> 0 then (Inl RNS_ERROR_INVALID_STATE, resource)
              else if known \<ge> ra_parts (rc_advertisement resource) then (Inl RNS_ERROR_INVALID_STATE, resource)
              else let repeat = (if known < RNS_RESOURCE_WINDOW then known else RNS_RESOURCE_WINDOW);
                       needed = 1 + 4 + RNS_RESOURCE_HASH_SIZE + repeat * 4
                   in if capacity < needed then (Inl RNS_ERROR_OVERFLOW, resource)
                      else (Inr ([0xff] @ map_hash (rc_map_hashes resource) (known - 1) @
                                 ra_hash (rc_advertisement resource) @
                                 bytes_at ((known - repeat) * 4) (repeat * 4) (rc_map_hashes resource)),
                            resource\<lparr>rc_waiting := True\<rparr>))"

definition rns_resource_build_retry_request ::
  "nat \<Rightarrow> rns_resource \<Rightarrow> (rns_status + bytes) \<times> rns_resource" where
  "rns_resource_build_retry_request capacity resource =
     (if rc_retries_used resource \<ge> RNS_RESOURCE_MAX_RETRIES then (Inl RNS_ERROR_TIMEOUT, resource)
      else if rns_resource_outstanding_parts resource > RNS_RESOURCE_WINDOW
      then (Inl RNS_ERROR_PROTOCOL, resource)
      else let outstanding = outstanding_indices resource;
               previous = take RNS_RESOURCE_WINDOW outstanding;
               cleared = resource\<lparr>rc_requested := fold (\<lambda>i rq. rq[i := False]) outstanding (rc_requested resource)\<rparr>
           in case rns_resource_build_request capacity cleared of
                (Inl status, resource') \<Rightarrow>
                  (Inl status,
                   resource'\<lparr>rc_requested := fold (\<lambda>i rq. rq[i := True]) previous (rc_requested resource')\<rparr>)
              | (Inr out, resource') \<Rightarrow>
                  (Inr out, resource'\<lparr>rc_retries_used := rc_retries_used resource' + 1\<rparr>))"

definition rns_resource_retry_timeout :: "rounding \<Rightarrow> double \<Rightarrow> double \<Rightarrow> nat \<Rightarrow> nat \<Rightarrow> double" where
  "rns_resource_retry_timeout rnd rtt_seconds part_airtime_seconds outstanding_parts retries_used =
     (let rtt = (if \<not> isfinite rtt_seconds \<or> dlt rtt_seconds (Fin 0) then Fin 0 else rtt_seconds);
          part_airtime = (if \<not> isfinite part_airtime_seconds \<or> dlt part_airtime_seconds (Fin 0) then Fin 0
                          else part_airtime_seconds);
          parts = (if outstanding_parts > RNS_RESOURCE_WINDOW then RNS_RESOURCE_WINDOW else outstanding_parts);
          retries = (if retries_used > RNS_RESOURCE_MAX_RETRIES then RNS_RESOURCE_MAX_RETRIES else retries_used);
          round_trip = dmul_nonneg rnd 2 rtt;
          airtime = dmul_nonneg rnd (of_nat parts) (dmul_nonneg rnd 2 part_airtime);
          transport = (if dgt round_trip airtime then round_trip else airtime);
          result = dadd rnd (dadd rnd transport (Fin (1 / 4))) (dmul_nonneg rnd (of_nat retries) (Fin (1 / 2)))
      in if \<not> isfinite result \<or> dgt result (Fin 3600) then Fin 3600 else result)"

definition parse_hashmap_update :: "bytes \<Rightarrow> bytes \<Rightarrow> rns_status + nat \<times> bytes" where
  "parse_hashmap_update update hash =
     (if length update < 35 then Inl RNS_ERROR_PROTOCOL
      else if take 32 update \<noteq> hash then Inl RNS_ERROR_PROTOCOL
      else case mp_byte (drop 32 update) of
             None \<Rightarrow> Inl RNS_ERROR_PROTOCOL
           | Some (tag, rest) \<Rightarrow>
               if tag \<noteq> 0x92 then Inl RNS_ERROR_PROTOCOL
               else (case mp_uint rest of
                       None \<Rightarrow> Inl RNS_ERROR_PROTOCOL
                     | Some (page64, rest1) \<Rightarrow>
                         if unat page64 > SIZE_MAX then Inl RNS_ERROR_PROTOCOL
                         else (case mp_bin rest1 of
                                 None \<Rightarrow> Inl RNS_ERROR_PROTOCOL
                               | Some (page_map, rest2) \<Rightarrow>
                                   if rest2 \<noteq> [] then Inl RNS_ERROR_PROTOCOL else Inr (unat page64, page_map))))"

definition rns_resource_apply_hashmap_update :: "bytes \<Rightarrow> rns_resource \<Rightarrow> rns_status \<times> rns_resource" where
  "rns_resource_apply_hashmap_update update resource =
     (let parts = ra_parts (rc_advertisement resource)
      in case parse_hashmap_update update (ra_hash (rc_advertisement resource)) of
           Inl status \<Rightarrow> (status, resource)
         | Inr (page, page_map) \<Rightarrow>
             (case mul_size page RNS_RESOURCE_HASHMAP_MAX_ENTRIES of
                None \<Rightarrow> (RNS_ERROR_PROTOCOL, resource)
              | Some page_start \<Rightarrow>
                  if page_start \<ge> parts then (RNS_ERROR_PROTOCOL, resource)
                  else let entries = (if parts - page_start > RNS_RESOURCE_HASHMAP_MAX_ENTRIES
                                      then RNS_RESOURCE_HASHMAP_MAX_ENTRIES else parts - page_start)
                       in if length page_map = 0 \<or> length page_map \<noteq> entries * 4 then (RNS_ERROR_PROTOCOL, resource)
                          else if page_start < rc_known_hashes resource
                          then (if page_start + entries \<le> rc_known_hashes resource \<and>
                                   bytes_at (page_start * 4) (length page_map) (rc_map_hashes resource) = page_map
                                then RNS_OK else RNS_ERROR_PROTOCOL, resource)
                          else if \<not> rc_waiting resource \<or> page_start \<noteq> rc_known_hashes resource
                          then (RNS_ERROR_PROTOCOL, resource)
                          else (RNS_OK,
                                resource\<lparr>rc_map_hashes := take (page_start * 4) (rc_map_hashes resource) @ page_map @
                                           drop (page_start * 4 + length page_map) (rc_map_hashes resource),
                                         rc_known_hashes := rc_known_hashes resource + entries,
                                         rc_waiting := False, rc_retries_used := 0\<rparr>)))"

definition rns_resource_decompression_available :: "bzip2 option \<Rightarrow> bool" where
  "rns_resource_decompression_available bz \<longleftrightarrow> bz \<noteq> None"

section \<open>Assembly\<close>

fun parts_size :: "bytes option list \<Rightarrow> nat \<Rightarrow> nat option" where
  \<comment> \<open>the sum of \<^verbatim>\<open>part_lengths\<close>, zero for a part that is not there\<close>
  "parts_size [] total_size = Some total_size"
| "parts_size (p # ps) total_size =
     (case add_size total_size (case p of None \<Rightarrow> 0 | Some part \<Rightarrow> length part) of
        None \<Rightarrow> None
      | Some total_size' \<Rightarrow> parts_size ps total_size')"

definition joined_parts :: "bytes option list \<Rightarrow> bytes" where
  "joined_parts ps = concat (map (case_option [] id) ps)"

definition decompress :: "bzip2 option \<Rightarrow> nat \<Rightarrow> rns_resource \<Rightarrow> bytes \<Rightarrow> rns_status + bytes" where
  "decompress bz capacity resource processed =
     (case bz of
        None \<Rightarrow> Inl RNS_ERROR_UNSUPPORTED
      | Some lib \<Rightarrow>
          let limit1 = (if capacity > rc_max_size resource then rc_max_size resource else capacity);
              output_limit = (if limit1 > ra_data_size (rc_advertisement resource)
                              then ra_data_size (rc_advertisement resource) else limit1)
          in if output_limit > UINT_MAX then Inl RNS_ERROR_OVERFLOW
             else if length processed > UINT_MAX then Inl RNS_ERROR_PROTOCOL
             else (case BZ2_bzBuffToBuffDecompress lib output_limit processed of
                     BZ_OUTBUFF_FULL \<Rightarrow> Inl RNS_ERROR_OVERFLOW
                   | BZ_ERROR \<Rightarrow> Inl RNS_ERROR_PROTOCOL
                   | BZ_OK out \<Rightarrow> Inr out))"

definition assembled_data :: "bzip2 option \<Rightarrow> nat \<Rightarrow> rns_resource \<Rightarrow> bytes \<Rightarrow> rns_status + bytes" where
  \<comment> \<open>the data in the decrypted stream, before its hash is checked\<close>
  "assembled_data bz capacity resource plain =
     (let adv = rc_advertisement resource
      in if length plain < RNS_RESOURCE_RANDOM_HASH_SIZE \<or>
            \<not> ra_encrypted adv \<and> take 4 plain \<noteq> ra_random_hash adv
         then Inl RNS_ERROR_PROTOCOL
         else let processed = drop 4 plain;
                  result = (if ra_compressed adv then decompress bz capacity resource processed
                            else if capacity < length processed \<or> length processed > rc_max_size resource \<or>
                                    length processed > ra_data_size adv
                            then Inl RNS_ERROR_OVERFLOW
                            else Inr processed)
              in case result of
                   Inl status \<Rightarrow> Inl status
                 | Inr out \<Rightarrow>
                     if length out > rc_max_size resource \<or> length out > ra_data_size adv
                     then Inl RNS_ERROR_OVERFLOW else Inr out)"

definition rns_resource_assemble ::
  "'r rns_crypto_provider option \<Rightarrow> bzip2 option \<Rightarrow> rns_link option \<Rightarrow> nat \<Rightarrow> rns_resource \<Rightarrow>
     (rns_status + bytes) \<times> rns_resource" where
  "rns_resource_assemble P bz link capacity resource =
     (let adv = rc_advertisement resource;
          failed = (\<lambda>status. (Inl status, resource))
      in if \<not> rns_resource_parts_complete resource then failed RNS_ERROR_INVALID_STATE
         else case parts_size (rc_parts resource) 0 of
                None \<Rightarrow> failed RNS_ERROR_OVERFLOW
              | Some wire_length \<Rightarrow>
                  if wire_length \<noteq> ra_transfer_size adv then failed RNS_ERROR_PROTOCOL
                  else let wire = joined_parts (rc_parts resource);
                           plain = (if ra_encrypted adv
                                    then (case link of
                                            None \<Rightarrow> Inl RNS_ERROR_INVALID_STATE
                                          | Some l \<Rightarrow>
                                              (case rns_link_decrypt P l wire wire_length of
                                                 None \<Rightarrow> Inl RNS_ERROR_CRYPTO
                                               | Some decrypted \<Rightarrow> Inr decrypted))
                                    else Inr wire)
                       in case plain of
                            Inl status \<Rightarrow> failed status
                          | Inr stream \<Rightarrow>
                              (case assembled_data bz capacity resource stream of
                                 Inl status \<Rightarrow> failed status
                               | Inr out \<Rightarrow>
                                   (case add_size (length out) 4 of
                                      None \<Rightarrow> failed RNS_ERROR_OVERFLOW
                                    | Some _ \<Rightarrow>
                                        (case rns_sha256 P (out @ ra_random_hash adv) of
                                           None \<Rightarrow> failed RNS_ERROR_CRYPTO
                                         | Some digest \<Rightarrow>
                                             if digest \<noteq> ra_hash adv then failed RNS_ERROR_PROTOCOL
                                             else (case add_size (length out) 32 of
                                                     None \<Rightarrow> failed RNS_ERROR_NO_MEMORY
                                                   | Some _ \<Rightarrow>
                                                       (case rns_sha256 P (out @ ra_hash adv) of
                                                          None \<Rightarrow>
                                                            (Inl RNS_ERROR_CRYPTO,
                                                             resource\<lparr>rc_proof := ra_hash adv @ drop 32 (rc_proof resource)\<rparr>)
                                                        | Some proof_digest \<Rightarrow>
                                                            (Inr out,
                                                             resource\<lparr>rc_proof := ra_hash adv @ proof_digest,
                                                                      rc_assembled := True\<rparr>)))))))"

definition rns_resource_build_proof :: "rns_resource \<Rightarrow> rns_status + bytes" where
  "rns_resource_build_proof resource =
     (if \<not> rc_assembled resource then Inl RNS_ERROR_INVALID_STATE else Inr (rc_proof resource))"

section \<open>The sender\<close>

definition segment_offset :: "nat \<Rightarrow> nat" where
  \<comment> \<open>\<^verbatim>\<open>(segment_index - 1U) * RNS_RESOURCE_SINGLE_SEGMENT_MAX_SIZE\<close>\<close>
  "segment_offset segment_index = (segment_index - 1) * RNS_RESOURCE_SINGLE_SEGMENT_MAX_SIZE"

definition segment_source_length :: "rns_resource_sender \<Rightarrow> nat \<Rightarrow> nat" where
  "segment_source_length sender segment_index =
     (let remaining = length (rs_source sender) - segment_offset segment_index
      in if remaining < RNS_RESOURCE_SINGLE_SEGMENT_MAX_SIZE then remaining
         else RNS_RESOURCE_SINGLE_SEGMENT_MAX_SIZE)"

definition current_segment :: "rns_resource_sender \<Rightarrow> bytes" where
  \<comment> \<open>the bytes of the source that the current segment holds\<close>
  "current_segment sender =
     bytes_at (segment_offset (rs_segment_index sender))
       (segment_source_length sender (rs_segment_index sender)) (rs_source sender)"

definition compressed_copy :: "bzip2 option \<Rightarrow> bytes \<Rightarrow> rns_status + bytes option" where
  "compressed_copy bz source =
     (case bz of
        None \<Rightarrow> Inr None
      | Some lib \<Rightarrow>
          let n = length source
          in if n > UINT_MAX \<or> n > SIZE_MAX - n div 100 - 601 then Inl RNS_ERROR_OVERFLOW
             else let bound = n + n div 100 + 601
                  in if bound > UINT_MAX then Inl RNS_ERROR_OVERFLOW
                     else (case BZ2_bzBuffToBuffCompress lib bound source of
                             None \<Rightarrow> Inl RNS_ERROR_PROTOCOL
                           | Some candidate \<Rightarrow>
                               Inr (if length candidate < n then Some candidate else None)))"

definition wire_part :: "bytes \<Rightarrow> nat \<Rightarrow> bytes" where
  "wire_part wire i = bytes_at (i * RNS_RESOURCE_PART_MAX) RNS_RESOURCE_PART_MAX wire"

fun hash_parts ::
  "'r rns_crypto_provider option \<Rightarrow> bytes \<Rightarrow> bytes \<Rightarrow> nat list \<Rightarrow> bytes \<Rightarrow> rns_status + bool \<times> bytes" where
  \<comment> \<open>the loop that fills the map; \<open>True\<close> is a collision\<close>
  "hash_parts P wire random_hash [] map_hashes = Inr (False, map_hashes)"
| "hash_parts P wire random_hash (i # is) map_hashes =
     (case hash_part P (wire_part wire i) random_hash of
        Inl status \<Rightarrow> Inl status
      | Inr digest \<Rightarrow>
          if take 4 digest \<in> set (map (map_hash map_hashes) [0..<i]) then Inr (True, map_hashes)
          else hash_parts P wire random_hash is (map_hashes @ take 4 digest))"

definition sender_flags :: "rns_resource_sender \<Rightarrow> bytes option \<Rightarrow> byte" where
  "sender_flags sender compressed =
     RNS_RESOURCE_FLAG_ENCRYPTED OR
     (if compressed \<noteq> None then RNS_RESOURCE_FLAG_COMPRESSED else 0) OR
     (if rs_total_segments sender > 1 then RNS_RESOURCE_FLAG_SPLIT else 0) OR
     (if rs_is_response sender then RNS_RESOURCE_FLAG_RESPONSE else 0)"

definition sender_prepare_segment_attempt ::
  "'r rns_crypto_provider option \<Rightarrow> bzip2 option \<Rightarrow> rns_link \<Rightarrow> rns_resource_sender \<Rightarrow> 'r \<Rightarrow>
     (rns_status + bool \<times> rns_resource_sender) \<times> 'r" where
  "sender_prepare_segment_attempt P bz link sender r =
     (let segment = current_segment sender
      in case rns_random_bytes P 4 r of
           (None, r1) \<Rightarrow> (Inl RNS_ERROR_CRYPTO, r1)
         | (Some random_hash, r1) \<Rightarrow>
             (case add_size (length segment) 4 of
                None \<Rightarrow> (Inl RNS_ERROR_OVERFLOW, r1)
              | Some _ \<Rightarrow>
                  (case rns_sha256 P (segment @ random_hash) of
                     None \<Rightarrow> (Inl RNS_ERROR_CRYPTO, r1)
                   | Some hash \<Rightarrow>
                       (case (if rs_auto_compress sender then compressed_copy bz segment else Inr None) of
                          Inl status \<Rightarrow> (Inl status, r1)
                        | Inr compressed \<Rightarrow>
                            let processed = (case compressed of None \<Rightarrow> segment | Some c \<Rightarrow> c);
                                token_plain = random_hash @ processed;
                                wire_capacity = 16 + (length token_plain div 16 + 1) * 16 + 32
                            in if add_size (length processed) 4 = None then (Inl RNS_ERROR_OVERFLOW, r1)
                               else if length token_plain > SIZE_MAX - 64 then (Inl RNS_ERROR_OVERFLOW, r1)
                               else (case rns_link_encrypt P link token_plain wire_capacity r1 of
                                       (None, r2) \<Rightarrow> (Inl RNS_ERROR_CRYPTO, r2)
                                     | (Some wire, r2) \<Rightarrow>
                                         let parts = (length wire + RNS_RESOURCE_PART_MAX - 1) div RNS_RESOURCE_PART_MAX
                                         in if parts = 0 \<or> parts > RNS_RESOURCE_MAX_PARTS
                                            then (Inl RNS_ERROR_OVERFLOW, r2)
                                            else (case hash_parts P wire random_hash [0..<parts] [] of
                                                    Inl status \<Rightarrow> (Inl status, r2)
                                                  | Inr (collision, map_hashes) \<Rightarrow>
                                                      (Inr (collision,
                                                         sender\<lparr>rs_random_hash := random_hash, rs_hash := hash,
                                                           rs_original_hash :=
                                                             (if rs_segment_index sender = 1 then hash
                                                              else rs_original_hash sender),
                                                           rs_flags := sender_flags sender compressed,
                                                           rs_wire := wire, rs_parts := parts,
                                                           rs_map_hashes := map_hashes\<rparr>), r2)))))))"

fun prepare_attempts ::
  "nat \<Rightarrow> 'r rns_crypto_provider option \<Rightarrow> bzip2 option \<Rightarrow> rns_link \<Rightarrow> rns_resource_sender \<Rightarrow> 'r \<Rightarrow>
     (rns_status + rns_resource_sender) \<times> 'r" where
  "prepare_attempts 0 P bz link sender r = (Inl RNS_ERROR_CRYPTO, r)"
| "prepare_attempts (Suc n) P bz link sender r =
     (case sender_prepare_segment_attempt P bz link sender r of
        (Inl status, r1) \<Rightarrow> (Inl status, r1)
      | (Inr (collision, sender1), r1) \<Rightarrow>
          if \<not> collision then (Inr sender1, r1) else prepare_attempts n P bz link sender1 r1)"

definition sender_prepare_segment ::
  "'r rns_crypto_provider option \<Rightarrow> bzip2 option \<Rightarrow> rns_link \<Rightarrow> rns_resource_sender \<Rightarrow> 'r \<Rightarrow>
     (rns_status + rns_resource_sender) \<times> 'r" where
  "sender_prepare_segment P bz link sender r = prepare_attempts 8 P bz link sender r"

definition estimate_parts :: "bzip2 option \<Rightarrow> bytes \<Rightarrow> bool \<Rightarrow> rns_status + nat" where
  "estimate_parts bz source compress =
     (case (if compress then compressed_copy bz source else Inr None) of
        Inl status \<Rightarrow> Inl status
      | Inr compressed \<Rightarrow>
          (case add_size (length (case compressed of None \<Rightarrow> source | Some c \<Rightarrow> c)) 4 of
             None \<Rightarrow> Inl RNS_ERROR_OVERFLOW
           | Some plain_length \<Rightarrow>
               if plain_length > SIZE_MAX - 64 then Inl RNS_ERROR_OVERFLOW
               else let wire_length = 16 + (plain_length div 16 + 1) * 16 + 32
                    in Inr ((wire_length + RNS_RESOURCE_PART_MAX - 1) div RNS_RESOURCE_PART_MAX)))"

fun estimate_segments :: "bzip2 option \<Rightarrow> bytes \<Rightarrow> bool \<Rightarrow> nat list \<Rightarrow> nat \<Rightarrow> rns_status + nat" where
  "estimate_segments bz source compress [] total_data_parts = Inr total_data_parts"
| "estimate_segments bz source compress (i # is) total_data_parts =
     (let segment = bytes_at (i * RNS_RESOURCE_SINGLE_SEGMENT_MAX_SIZE)
                      RNS_RESOURCE_SINGLE_SEGMENT_MAX_SIZE source
      in case estimate_parts bz segment compress of
           Inl status \<Rightarrow> Inl status
         | Inr parts \<Rightarrow>
             if total_data_parts > SIZE_MAX - parts then Inl RNS_ERROR_OVERFLOW
             else estimate_segments bz source compress is (total_data_parts + parts))"

definition rns_resource_sender_create ::
  "'r rns_crypto_provider option \<Rightarrow> bzip2 option \<Rightarrow> rns_link \<Rightarrow> bytes \<Rightarrow> rns_resource_sender_options option \<Rightarrow>
     'r \<Rightarrow> (rns_status + rns_resource_sender) \<times> 'r" where
  "rns_resource_sender_create P bz link source options r =
     (if lk_state link \<noteq> RNS_LINK_ACTIVE \<or> length source = 0 \<or> length source > RNS_RESOURCE_MAX_SIZE
      then (Inl RNS_ERROR_INVALID_ARGUMENT, r)
      else let auto_compress = (case options of None \<Rightarrow> True | Some opts \<Rightarrow> so_auto_compress opts);
               response = (case options of None \<Rightarrow> False | Some opts \<Rightarrow> so_is_response opts);
               request_id = (case options of None \<Rightarrow> None | Some opts \<Rightarrow> so_request_id opts)
           in if response \<and> request_id = None then (Inl RNS_ERROR_INVALID_ARGUMENT, r)
              else let total_segments = (length source + RNS_RESOURCE_SINGLE_SEGMENT_MAX_SIZE - 1) div
                                        RNS_RESOURCE_SINGLE_SEGMENT_MAX_SIZE
                   in case estimate_segments bz source auto_compress [0..<total_segments] 0 of
                        Inl status \<Rightarrow> (Inl status, r)
                      | Inr total_data_parts \<Rightarrow>
                          sender_prepare_segment P bz link
                            \<lparr>rs_source = source, rs_segment_index = 1, rs_total_segments = total_segments,
                             rs_total_data_parts = total_data_parts, rs_auto_compress = auto_compress,
                             rs_is_response = response, rs_has_request_id = response,
                             rs_request_id = (case request_id of
                                                Some i \<Rightarrow> if response then i else replicate 16 0
                                              | None \<Rightarrow> replicate 16 0),
                             rs_flags = 0, rs_random_hash = replicate 4 0, rs_hash = replicate 32 0,
                             rs_original_hash = replicate 32 0, rs_wire = [], rs_parts = 0,
                             rs_map_hashes = []\<rparr> r)"

section \<open>The MessagePack writer\<close>

definition mp_uint_size :: "nat \<Rightarrow> nat" where
  "mp_uint_size v =
     (if v \<le> 0x7f then 1 else if v \<le> 0xff then 2 else if v \<le> 0xffff then 3
      else if v \<le> 0xffffffff then 5 else 9)"

definition mp_put_uint :: "nat \<Rightarrow> bytes" where
  "mp_put_uint v =
     (if v \<le> 0x7f then [of_nat v]
      else if v \<le> 0xff then 0xcc # be_put 1 (of_nat v :: u64)
      else if v \<le> 0xffff then 0xcd # be_put 2 (of_nat v :: u64)
      else if v \<le> 0xffffffff then 0xce # be_put 4 (of_nat v :: u64)
      else 0xcf # be_put 8 (of_nat v :: u64))"

definition mp_bin_header_size :: "nat \<Rightarrow> nat" where
  "mp_bin_header_size n = (if n \<le> 0xff then 2 else if n \<le> 0xffff then 3 else 5)"

definition mp_put_bin :: "bytes \<Rightarrow> bytes" where
  "mp_put_bin data =
     (if length data \<le> 0xff then [0xc4, of_nat (length data)]
      else if length data \<le> 0xffff then 0xc5 # be_put 2 (of_nat (length data) :: u64)
      else 0xc6 # be_put 4 (of_nat (length data) :: u64)) @ data"

definition mp_put_key :: "byte \<Rightarrow> bytes" where
  "mp_put_key key = [0xa1, key]"

definition rns_resource_sender_advertisement :: "rns_resource_sender \<Rightarrow> nat \<Rightarrow> rns_status + bytes" where
  "rns_resource_sender_advertisement sender capacity =
     (let map_entries = (if rs_parts sender < RNS_RESOURCE_HASHMAP_MAX_ENTRIES then rs_parts sender
                         else RNS_RESOURCE_HASHMAP_MAX_ENTRIES);
          map_length = map_entries * 4;
          needed = 1 + 11 * 2 +
            mp_uint_size (length (rs_wire sender)) + mp_uint_size (length (rs_source sender)) +
            mp_uint_size (rs_parts sender) + mp_bin_header_size 32 + 32 +
            mp_bin_header_size 4 + 4 + mp_bin_header_size 32 + 32 +
            mp_uint_size (rs_segment_index sender) + mp_uint_size (rs_total_segments sender) +
            (if rs_has_request_id sender then mp_bin_header_size 16 + 16 else 1) +
            mp_uint_size (unat (rs_flags sender)) + mp_bin_header_size map_length + map_length
      in if capacity < needed then Inl RNS_ERROR_OVERFLOW
         else let out = [0x8b] @
                mp_put_key 0x74 @ mp_put_uint (length (rs_wire sender)) @
                mp_put_key 0x64 @ mp_put_uint (length (rs_source sender)) @
                mp_put_key 0x6e @ mp_put_uint (rs_parts sender) @
                mp_put_key 0x68 @ mp_put_bin (rs_hash sender) @
                mp_put_key 0x72 @ mp_put_bin (rs_random_hash sender) @
                mp_put_key 0x6f @ mp_put_bin (rs_original_hash sender) @
                mp_put_key 0x69 @ mp_put_uint (rs_segment_index sender) @
                mp_put_key 0x6c @ mp_put_uint (rs_total_segments sender) @
                mp_put_key 0x71 @ (if rs_has_request_id sender then mp_put_bin (rs_request_id sender) else [0xc0]) @
                mp_put_key 0x66 @ mp_put_uint (unat (rs_flags sender)) @
                mp_put_key 0x6d @ mp_put_bin (take map_length (rs_map_hashes sender))
              in if length out = needed then Inr out else Inl RNS_ERROR_PROTOCOL)"

section \<open>Serving requests\<close>

definition parse_request :: "rns_resource_sender \<Rightarrow> bytes \<Rightarrow> rns_status + nat \<times> nat" where
  \<comment> \<open>the offsets of the hash and of the map hashes\<close>
  "parse_request sender request =
     (if request = [] then Inl RNS_ERROR_INVALID_ARGUMENT
      else let offsets = (if request ! 0 = 0x00
                          then (if length request < 33 \<or> (length request - 33) mod 4 \<noteq> 0 then None
                                else Some (1, 33))
                          else if request ! 0 = 0xff
                          then (if length request < 37 \<or> (length request - 37) mod 4 \<noteq> 0 then None
                                else Some (5, 37))
                          else None)
           in case offsets of
                None \<Rightarrow> Inl RNS_ERROR_PROTOCOL
              | Some (hash_offset, maps_offset) \<Rightarrow>
                  if bytes_at hash_offset 32 request \<noteq> rs_hash sender then Inl RNS_ERROR_PROTOCOL
                  else Inr (hash_offset, maps_offset))"

fun find_parts :: "rns_resource_sender \<Rightarrow> bytes list \<Rightarrow> nat \<Rightarrow> nat list \<Rightarrow> rns_status + nat list" where
  "find_parts sender [] indexes_capacity indexes = Inr indexes"
| "find_parts sender (wanted # others) indexes_capacity indexes =
     (case first_index (\<lambda>i. wanted = map_hash (rs_map_hashes sender) i) [0..<rs_parts sender] of
        None \<Rightarrow> find_parts sender others indexes_capacity indexes
      | Some i \<Rightarrow>
          if length indexes \<ge> indexes_capacity then Inl RNS_ERROR_OVERFLOW
          else find_parts sender others indexes_capacity (indexes @ [i]))"

definition rns_resource_sender_requested_parts ::
  "rns_resource_sender \<Rightarrow> bytes \<Rightarrow> nat \<Rightarrow> rns_status + nat list" where
  "rns_resource_sender_requested_parts sender request indexes_capacity =
     (case parse_request sender request of
        Inl status \<Rightarrow> Inl status
      | Inr (hash_offset, maps_offset) \<Rightarrow>
          let requested = (length request - maps_offset) div 4
          in if requested > RNS_RESOURCE_WINDOW_MAX then Inl RNS_ERROR_PROTOCOL
             else find_parts sender (map (\<lambda>j. bytes_at (maps_offset + j * 4) 4 request) [0..<requested])
                    indexes_capacity [])"

definition rns_resource_sender_hashmap_update :: "rns_resource_sender \<Rightarrow> bytes \<Rightarrow> nat \<Rightarrow> rns_status + bytes" where
  "rns_resource_sender_hashmap_update sender request capacity =
     (case parse_request sender request of
        Inl status \<Rightarrow> Inl status
      | Inr _ \<Rightarrow>
          if request ! 0 \<noteq> 0xff then Inl RNS_ERROR_NOT_FOUND
          else (case first_index (\<lambda>i. bytes_at 1 4 request = map_hash (rs_map_hashes sender) i)
                       [0..<rs_parts sender] of
                  None \<Rightarrow> Inl RNS_ERROR_PROTOCOL
                | Some anchor_index \<Rightarrow>
                    if (anchor_index + 1) mod RNS_RESOURCE_HASHMAP_MAX_ENTRIES \<noteq> 0 then Inl RNS_ERROR_PROTOCOL
                    else let page = (anchor_index + 1) div RNS_RESOURCE_HASHMAP_MAX_ENTRIES;
                             start = page * RNS_RESOURCE_HASHMAP_MAX_ENTRIES
                         in if start \<ge> rs_parts sender then Inl RNS_ERROR_NOT_FOUND
                            else let entries = (if rs_parts sender - start > RNS_RESOURCE_HASHMAP_MAX_ENTRIES
                                                then RNS_RESOURCE_HASHMAP_MAX_ENTRIES
                                                else rs_parts sender - start);
                                     map_length = entries * 4;
                                     needed = 32 + 1 + mp_uint_size page + mp_bin_header_size map_length + map_length
                                 in if capacity < needed then Inl RNS_ERROR_OVERFLOW
                                    else Inr (rs_hash sender @ [0x92] @ mp_put_uint page @
                                              mp_put_bin (bytes_at (start * 4) map_length (rs_map_hashes sender)))))"

definition rns_resource_sender_part :: "rns_resource_sender \<Rightarrow> nat \<Rightarrow> rns_status + bytes" where
  "rns_resource_sender_part sender index =
     (if index \<ge> rs_parts sender then Inl RNS_ERROR_NOT_FOUND else Inr (wire_part (rs_wire sender) index))"

definition rns_resource_sender_validate_proof ::
  "'r rns_crypto_provider option \<Rightarrow> rns_resource_sender \<Rightarrow> bytes \<Rightarrow> rns_status" where
  "rns_resource_sender_validate_proof P sender pr =
     (if length pr \<noteq> RNS_RESOURCE_PROOF_SIZE \<or> take 32 pr \<noteq> rs_hash sender then RNS_ERROR_CRYPTO
      else case add_size (length (current_segment sender)) 32 of
             None \<Rightarrow> RNS_ERROR_OVERFLOW
           | Some _ \<Rightarrow>
               (case rns_sha256 P (current_segment sender @ rs_hash sender) of
                  None \<Rightarrow> RNS_ERROR_CRYPTO
                | Some digest \<Rightarrow> if digest = bytes_at 32 32 pr then RNS_OK else RNS_ERROR_CRYPTO))"

definition rns_resource_sender_advance_segment ::
  "'r rns_crypto_provider option \<Rightarrow> bzip2 option \<Rightarrow> rns_link \<Rightarrow> rns_resource_sender \<Rightarrow> 'r \<Rightarrow>
     rns_status \<times> rns_resource_sender \<times> 'r" where
  "rns_resource_sender_advance_segment P bz link sender r =
     (if lk_state link \<noteq> RNS_LINK_ACTIVE then (RNS_ERROR_INVALID_ARGUMENT, sender, r)
      else if rs_segment_index sender \<ge> rs_total_segments sender then (RNS_ERROR_INVALID_STATE, sender, r)
      else case sender_prepare_segment P bz link
                  (sender\<lparr>rs_segment_index := rs_segment_index sender + 1, rs_wire := [], rs_parts := 0,
                          rs_map_hashes := []\<rparr>) r of
             (Inl status, r1) \<Rightarrow> (status, sender, r1)
           | (Inr next_sender, r1) \<Rightarrow> (RNS_OK, next_sender, r1))"

definition rns_resource_sender_hash :: "rns_resource_sender \<Rightarrow> bytes" where
  "rns_resource_sender_hash sender = rs_hash sender"

definition rns_resource_sender_data_size :: "rns_resource_sender \<Rightarrow> nat" where
  "rns_resource_sender_data_size sender = length (rs_source sender)"

definition rns_resource_sender_transfer_size :: "rns_resource_sender \<Rightarrow> nat" where
  "rns_resource_sender_transfer_size sender = length (rs_wire sender)"

definition rns_resource_sender_total_parts :: "rns_resource_sender \<Rightarrow> nat" where
  "rns_resource_sender_total_parts sender = rs_parts sender"

definition rns_resource_sender_total_data_parts :: "rns_resource_sender \<Rightarrow> nat" where
  "rns_resource_sender_total_data_parts sender = rs_total_data_parts sender"

definition rns_resource_sender_segment_index :: "rns_resource_sender \<Rightarrow> nat" where
  "rns_resource_sender_segment_index sender = rs_segment_index sender"

definition rns_resource_sender_total_segments :: "rns_resource_sender \<Rightarrow> nat" where
  "rns_resource_sender_total_segments sender = rs_total_segments sender"

end
