(* ===== verification/Resource_Sender.thy ===== *)
theory Resource_Sender
  imports Resource
begin

text \<open>
  The sending side of resource transfers: what a prepared sender holds, that its map identifies its
  parts, and that its advertisement is read back.
\<close>

section \<open>Reading back what the writer wrote\<close>

lemma length_mp_put [simp]:
  "length (mp_put_uint v) = mp_uint_size v"
  "length (mp_put_bin d) = mp_bin_header_size (length d) + length d"
  "length (mp_put_key k) = 2"
  by (simp_all add: mp_put_uint_def mp_uint_size_def mp_put_bin_def mp_bin_header_size_def mp_put_key_def)

lemma be_get_put_below:
  "v < 2 ^ (8 * n) \<Longrightarrow> n \<le> 8 \<Longrightarrow> be_get (be_put n (of_nat v :: u64)) = (of_nat v :: u64)"
proof -
  assume v: "v < 2 ^ (8 * n)" and n: "n \<le> 8"
  have "take_bit (8 * n) (of_nat v :: u64) = of_nat (take_bit (8 * n) v)" by (simp add: take_bit_of_nat)
  also have "\<dots> = of_nat v" using v by (simp add: take_bit_nat_eq_self)
  finally show ?thesis by (simp add: be_get_put)
qed

lemma unat_of_nat_u64: "v \<le> SIZE_MAX \<Longrightarrow> unat (of_nat v :: u64) = v"
  by (simp add: SIZE_MAX_def unat_of_nat)

lemma mp_take_append [simp]: "length a = n \<Longrightarrow> mp_take n (a @ rest) = Some (a, rest)"
  by (simp add: mp_take_def)

lemma mp_uint_put [simp]:
  assumes "v \<le> SIZE_MAX"
  shows "mp_uint (mp_put_uint v @ rest) = Some (of_nat v, rest)"
proof -
  have "ucast (of_nat v :: byte) = (of_nat v :: u64) \<and> (of_nat v :: byte) \<le> 0x7f" if "v \<le> 0x7f"
    using that by (simp add: word_unat_eq_iff word_le_nat_alt unat_of_nat unsigned_ucast_eq take_bit_nat_eq_self_iff)
  moreover have "be_get (be_put 1 (of_nat v :: u64)) = (of_nat v :: u64)" if "v \<le> 0xff"
    using that by (intro be_get_put_below) auto
  moreover have "be_get (be_put 2 (of_nat v :: u64)) = (of_nat v :: u64)" if "v \<le> 0xffff"
    using that by (intro be_get_put_below) auto
  moreover have "be_get (be_put 4 (of_nat v :: u64)) = (of_nat v :: u64)" if "v \<le> 0xffffffff"
    using that by (intro be_get_put_below) auto
  ultimately show ?thesis
    by (simp add: mp_put_uint_def mp_uint_def mp_byte_def Let_def del: be_put.simps)
qed

lemma mp_bin_put [simp]:
  assumes "length d \<le> 0xffffffff"
  shows "mp_bin (mp_put_bin d @ rest) = Some (d, rest)"
proof -
  let ?n = "of_nat (length d) :: u64"
  have n: "unat ?n = length d" using assms by (simp add: unat_of_nat)
  have one: "unat (be_get [of_nat (length d)] :: u64) = length d" if "length d \<le> 0xff"
    using that by (simp add: be_get_def unsigned_ucast_eq take_bit_nat_eq_self_iff unat_of_nat)
  have two: "be_get (be_put 2 ?n) = ?n" if "length d \<le> 0xffff"
    using that by (intro be_get_put_below) auto
  have four: "be_get (be_put 4 ?n) = ?n"
    using assms by (intro be_get_put_below) auto
  have take1: "mp_take 1 (of_nat (length d) # x) = Some ([of_nat (length d)], x)" for x :: bytes
    by (simp add: mp_take_def)
  show ?thesis
    using one two four n
    by (simp add: mp_put_bin_def mp_bin_def mp_byte_def Let_def take1 del: be_put.simps One_nat_def)
qed

lemma mp_key_put [simp]: "mp_key (mp_put_key k @ rest) = Some (k, rest)"
  by (simp add: mp_key_def mp_put_key_def mp_byte_def)

lemma uint_to_size_of_nat [simp]: "v \<le> SIZE_MAX \<Longrightarrow> uint_to_size (of_nat v) = Some v"
  by (simp add: uint_to_size_def unat_of_nat_u64)

section \<open>Advertisements\<close>

definition advertised :: "rns_resource_sender \<Rightarrow> rns_resource_advertisement" where
  \<comment> \<open>what the sender announces about its current segment\<close>
  "advertised s = set_flags
     \<lparr>ra_transfer_size = length (rs_wire s), ra_data_size = length (rs_source s), ra_parts = rs_parts s,
      ra_hash = rs_hash s, ra_random_hash = rs_random_hash s, ra_original_hash = rs_original_hash s,
      ra_segment_index = rs_segment_index s, ra_total_segments = rs_total_segments s,
      ra_has_request_id = rs_has_request_id s,
      ra_request_id = (if rs_has_request_id s then rs_request_id s else replicate 16 0),
      ra_flags = rs_flags s, ra_hashmap = take (min (rs_parts s) 74 * 4) (rs_map_hashes s),
      ra_encrypted = False, ra_compressed = False, ra_split = False, ra_is_request = False,
      ra_is_response = False, ra_has_metadata = False\<rparr>"

lemma parse_fields_step:
  assumes "key_bit k = Some b" "seen AND b = 0" "parse_value k parsed (v @ rest) = Some (parsed', rest)"
  shows "parse_fields (Suc n) seen parsed (mp_put_key k @ v @ rest) = parse_fields n (seen OR b) parsed' rest"
  using assms by simp

lemma parse_value_uint:
  assumes "v \<le> SIZE_MAX"
  shows "parse_value 0x74 a (mp_put_uint v @ rest) = Some (a\<lparr>ra_transfer_size := v\<rparr>, rest)"
    "parse_value 0x64 a (mp_put_uint v @ rest) = Some (a\<lparr>ra_data_size := v\<rparr>, rest)"
    "parse_value 0x6e a (mp_put_uint v @ rest) = Some (a\<lparr>ra_parts := v\<rparr>, rest)"
    "parse_value 0x69 a (mp_put_uint v @ rest) = Some (a\<lparr>ra_segment_index := v\<rparr>, rest)"
    "parse_value 0x6c a (mp_put_uint v @ rest) = Some (a\<lparr>ra_total_segments := v\<rparr>, rest)"
  using assms by (simp_all add: parse_value_def)

lemma parse_value_flags: "parse_value 0x66 a (mp_put_uint (unat f) @ rest) = Some (a\<lparr>ra_flags := f\<rparr>, rest)"
proof -
  have f: "unat f < 256" using unsigned_less [of f, where 'a = nat] by simp
  then have "unat f \<le> SIZE_MAX" by (simp add: SIZE_MAX_def)
  moreover have "(of_nat (unat f) :: u64) = ucast f" by simp
  moreover have "\<not> (ucast f :: u64) > 255"
    using f by (simp add: word_less_nat_alt unsigned_ucast_eq take_bit_nat_eq_self)
  moreover have "uint_to_size (ucast f) = Some (unat f)"
    using f by (simp add: uint_to_size_def SIZE_MAX_def unsigned_ucast_eq take_bit_nat_eq_self)
  moreover have "ucast (ucast f :: u64) = f" by (rule bit_word_eqI) (simp add: bit_simps)
  ultimately show ?thesis by (simp add: parse_value_def)
qed

lemma parse_value_bin:
  "length v = 32 \<Longrightarrow> parse_value 0x68 a (mp_put_bin v @ rest) = Some (a\<lparr>ra_hash := v\<rparr>, rest)"
  "length v = 4 \<Longrightarrow> parse_value 0x72 a (mp_put_bin v @ rest) = Some (a\<lparr>ra_random_hash := v\<rparr>, rest)"
  "length v = 32 \<Longrightarrow> parse_value 0x6f a (mp_put_bin v @ rest) = Some (a\<lparr>ra_original_hash := v\<rparr>, rest)"
  "length v \<le> 1000 \<Longrightarrow> parse_value 0x6d a (mp_put_bin v @ rest) = Some (a\<lparr>ra_hashmap := v\<rparr>, rest)"
  by (simp_all add: parse_value_def)

lemma parse_value_request:
  assumes "length v = 16"
  shows "parse_value 0x71 a ((if has then mp_put_bin v else [0xc0]) @ rest) =
           Some (if has then a\<lparr>ra_request_id := v, ra_has_request_id := True\<rparr> else a, rest)"
proof (cases has)
  case True
  have "mp_put_bin v @ rest = 0xc4 # 16 # v @ rest" using assms by (simp add: mp_put_bin_def)
  then show ?thesis
    using True assms mp_bin_put [of v rest] by (simp add: parse_value_def)
next
  case False
  then show ?thesis by (simp add: parse_value_def)
qed

lemmas parse_values = parse_value_uint parse_value_flags parse_value_bin parse_value_request

lemma parse_advertisement_fields:
  assumes "length (rs_wire s) \<le> SIZE_MAX" "length (rs_source s) \<le> SIZE_MAX" "rs_parts s \<le> SIZE_MAX"
    "rs_segment_index s \<le> SIZE_MAX" "rs_total_segments s \<le> SIZE_MAX" "length (rs_hash s) = 32"
    "length (rs_random_hash s) = 4" "length (rs_original_hash s) = 32" "length (rs_request_id s) = 16"
    "length hashmap \<le> 1000"
  shows "parse_fields 11 0 zero_advertisement
      (mp_put_key 0x74 @ mp_put_uint (length (rs_wire s)) @
       mp_put_key 0x64 @ mp_put_uint (length (rs_source s)) @
       mp_put_key 0x6e @ mp_put_uint (rs_parts s) @
       mp_put_key 0x68 @ mp_put_bin (rs_hash s) @
       mp_put_key 0x72 @ mp_put_bin (rs_random_hash s) @
       mp_put_key 0x6f @ mp_put_bin (rs_original_hash s) @
       mp_put_key 0x69 @ mp_put_uint (rs_segment_index s) @
       mp_put_key 0x6c @ mp_put_uint (rs_total_segments s) @
       mp_put_key 0x71 @ (if rs_has_request_id s then mp_put_bin (rs_request_id s) else [0xc0]) @
       mp_put_key 0x66 @ mp_put_uint (unat (rs_flags s)) @
       mp_put_key 0x6d @ mp_put_bin hashmap @ []) =
     Some (0x7ff,
       \<lparr>ra_transfer_size = length (rs_wire s), ra_data_size = length (rs_source s), ra_parts = rs_parts s,
        ra_hash = rs_hash s, ra_random_hash = rs_random_hash s, ra_original_hash = rs_original_hash s,
        ra_segment_index = rs_segment_index s, ra_total_segments = rs_total_segments s,
        ra_has_request_id = rs_has_request_id s,
        ra_request_id = (if rs_has_request_id s then rs_request_id s else replicate 16 0),
        ra_flags = rs_flags s, ra_hashmap = hashmap,
        ra_encrypted = False, ra_compressed = False, ra_split = False, ra_is_request = False,
        ra_is_response = False, ra_has_metadata = False\<rparr>, [])"
proof -
  have eleven: "(11 :: nat) = Suc (Suc (Suc (Suc (Suc (Suc (Suc (Suc (Suc (Suc (Suc 0))))))))))" by simp
  show ?thesis
    unfolding eleven
    by (subst parse_fields_step, simp add: key_bit_def, simp, rule parse_values, (fact assms)?)+
       (simp add: zero_advertisement_def)
qed

section \<open>The prepared sender\<close>

definition random_sound :: "'r rns_crypto_provider option \<Rightarrow> bool" where
  "random_sound P \<longleftrightarrow> (\<forall>n r bs r'. rns_random_bytes P n r = (Some bs, r') \<longrightarrow> length bs = n)"

definition stream_of :: "rns_resource_sender \<Rightarrow> bytes option \<Rightarrow> bytes" where
  \<comment> \<open>the stream that is encrypted: the salt and the segment, compressed or not\<close>
  "stream_of s compressed = rs_random_hash s @ (case compressed of None \<Rightarrow> current_segment s | Some c \<Rightarrow> c)"

definition map_of_parts :: "'r rns_crypto_provider option \<Rightarrow> rns_resource_sender \<Rightarrow> bool" where
  "map_of_parts P s \<longleftrightarrow>
     length (rs_map_hashes s) = 4 * rs_parts s \<and>
     (\<forall>i < rs_parts s. \<exists>d. hash_part P (wire_part (rs_wire s) i) (rs_random_hash s) = Inr d \<and>
        map_hash (rs_map_hashes s) i = take 4 d) \<and>
     (\<forall>i < rs_parts s. \<forall>j < i. map_hash (rs_map_hashes s) j \<noteq> map_hash (rs_map_hashes s) i)"

definition sender_ready ::
  "'r rns_crypto_provider option \<Rightarrow> bzip2 option \<Rightarrow> bytes \<Rightarrow> rns_resource_sender \<Rightarrow> bool" where
  "sender_ready P bz key s \<longleftrightarrow>
     length (rs_random_hash s) = 4 \<and>
     rns_sha256 P (current_segment s @ rs_random_hash s) = Some (rs_hash s) \<and>
     (rs_segment_index s = 1 \<longrightarrow> rs_original_hash s = rs_hash s) \<and>
     rs_parts s = (length (rs_wire s) + 463) div 464 \<and> 0 < rs_parts s \<and> rs_parts s \<le> 18000 \<and>
     map_of_parts P s \<and>
     (\<exists>compressed. (if rs_auto_compress s then compressed_copy bz (current_segment s) else Inr None) = Inr compressed \<and>
        rs_flags s = sender_flags s compressed \<and>
        length (rs_wire s) = 48 + (length (stream_of s compressed) div 16 + 1) * 16 \<and>
        rns_token_decrypt P key (rs_wire s) (length (rs_wire s)) = Some (stream_of s compressed))"

definition sender_wf :: "rns_resource_sender \<Rightarrow> bool" where
  "sender_wf s \<longleftrightarrow>
     0 < length (rs_source s) \<and> length (rs_source s) \<le> 8388608 \<and>
     rs_total_segments s = (length (rs_source s) + 1048575 - 1) div 1048575 \<and>
     0 < rs_segment_index s \<and> rs_segment_index s \<le> rs_total_segments s \<and>
     length (rs_request_id s) = 16 \<and> length (rs_original_hash s) = 32"

lemma map_hash_append [simp]: "4 * i + 4 \<le> length m \<Longrightarrow> map_hash (m @ x) i = map_hash m i"
  by (simp add: map_hash_def bytes_at_def)

lemma map_hash_snoc: "length m = 4 * i \<Longrightarrow> length d = 4 \<Longrightarrow> map_hash (m @ d @ x) i = d"
  by (simp add: map_hash_def bytes_at_def)

lemma hash_parts_map:
  assumes "sha256_sound P"
  shows "hash_parts P wire rh [k..<n] m = Inr (False, m') \<Longrightarrow> k \<le> n \<Longrightarrow> length m = 4 * k \<Longrightarrow>
     length m' = 4 * n \<and> (\<exists>x. m' = m @ x) \<and>
     (\<forall>i. k \<le> i \<and> i < n \<longrightarrow>
        (\<exists>d. hash_part P (wire_part wire i) rh = Inr d \<and> map_hash m' i = take 4 d) \<and>
        (\<forall>j < i. map_hash m' j \<noteq> map_hash m' i))"
proof (induction "n - k" arbitrary: k m)
  case 0
  then show ?case by auto
next
  case (Suc x)
  then have k: "k < n" by simp
  then have upt: "[k..<n] = k # [Suc k..<n]" by (rule upt_conv_Cons)
  obtain d where d: "hash_part P (wire_part wire k) rh = Inr d"
    and fresh: "take 4 d \<notin> set (map (map_hash m) [0..<k])"
    and rest: "hash_parts P wire rh [Suc k..<n] (m @ take 4 d) = Inr (False, m')"
    using Suc.prems(1) by (auto simp: upt split: sum.splits if_splits)
  have len: "length d = 32"
    using d assms by (auto simp: hash_part_def sha256_sound_def split: option.splits)
  have IH: "length m' = 4 * n" "\<exists>x. m' = (m @ take 4 d) @ x"
    "\<And>i. Suc k \<le> i \<Longrightarrow> i < n \<Longrightarrow>
        (\<exists>d. hash_part P (wire_part wire i) rh = Inr d \<and> map_hash m' i = take 4 d) \<and>
        (\<forall>j < i. map_hash m' j \<noteq> map_hash m' i)"
    using Suc.hyps(1) [of "Suc k" "m @ take 4 d"] Suc.hyps(2) Suc.prems(3) rest k len by auto
  obtain y where y: "m' = m @ take 4 d @ y" using IH(2) by auto
  have here: "map_hash m' k = take 4 d" using Suc.prems(3) len by (simp add: y map_hash_snoc)
  have "map_hash m' j \<noteq> take 4 d" if "j < k" for j
  proof -
    have "map_hash m' j = map_hash m j" using that Suc.prems(3) by (simp add: y)
    moreover have "map_hash m j \<in> set (map (map_hash m) [0..<k])" using that by auto
    ultimately show ?thesis using fresh by metis
  qed
  with here d have "(\<exists>d. hash_part P (wire_part wire k) rh = Inr d \<and> map_hash m' k = take 4 d) \<and>
      (\<forall>j < k. map_hash m' j \<noteq> map_hash m' k)" by auto
  with IH(1,3) y show ?case by (metis Suc_leI le_neq_implies_less)
qed

lemma attempt_ready:
  assumes "sha256_sound P" "random_sound P" "token_sound P"
    and "sender_prepare_segment_attempt P bz link s r = (Inr (c, s'), r')"
  shows "rs_source s' = rs_source s \<and> rs_segment_index s' = rs_segment_index s \<and>
         rs_total_segments s' = rs_total_segments s \<and> rs_request_id s' = rs_request_id s \<and>
         length (rs_hash s') = 32 \<and> (length (rs_original_hash s) = 32 \<longrightarrow> length (rs_original_hash s') = 32) \<and>
         (\<not> c \<longrightarrow> sender_ready P bz (lk_derived_key link) s')"
proof -
  note d = assms(4) [unfolded sender_prepare_segment_attempt_def Let_def]
  obtain rh r1 where rh: "rns_random_bytes P 4 r = (Some rh, r1)"
    using d by (cases "rns_random_bytes P 4 r"; cases "fst (rns_random_bytes P 4 r)") auto
  obtain hash where hash: "rns_sha256 P (current_segment s @ rh) = Some hash"
    and add: "add_size (length (current_segment s)) 4 \<noteq> None"
    using d rh by (cases "add_size (length (current_segment s)) 4"; cases "rns_sha256 P (current_segment s @ rh)") auto
  obtain compressed where
    comp: "(if rs_auto_compress s then compressed_copy bz (current_segment s) else Inr None) = Inr compressed"
    using d rh hash add
    by (cases "if rs_auto_compress s then compressed_copy bz (current_segment s) else Inr None") auto
  define plain where "plain = rh @ (case compressed of None \<Rightarrow> current_segment s | Some c \<Rightarrow> c)"
  note d1 = d [unfolded rh prod.case option.case hash comp sum.case, folded plain_def]
  obtain wire r2 where enc: "rns_link_encrypt P link plain (16 + (length plain div 16 + 1) * 16 + 32) r1 = (Some wire, r2)"
    using d1 add
    by (cases "rns_link_encrypt P link plain (16 + (length plain div 16 + 1) * 16 + 32) r1";
        cases "fst (rns_link_encrypt P link plain (16 + (length plain div 16 + 1) * 16 + 32) r1)")
       (auto split: if_splits)
  define n where "n = (length wire + 464 - 1) div 464"
  note d2 = d1 [unfolded enc prod.case option.case, folded n_def]
  obtain m where m: "hash_parts P wire rh [0..<n] [] = Inr (c, m)" and n: "n \<noteq> 0" "n \<le> 18000"
    and s': "s' = s\<lparr>rs_random_hash := rh, rs_hash := hash,
             rs_original_hash := (if rs_segment_index s = 1 then hash else rs_original_hash s),
             rs_flags := sender_flags s compressed, rs_wire := wire, rs_parts := n, rs_map_hashes := m\<rparr>"
    using d2 add
    by (cases "hash_parts P wire rh [0..<n] []") (auto split: if_splits)
  have lens: "length rh = 4" "length hash = 32"
    using assms(2) [unfolded random_sound_def, rule_format, OF rh]
      assms(1) [unfolded sha256_sound_def, rule_format, OF hash] by simp_all
  have seg: "current_segment s' = current_segment s"
    by (simp add: s' current_segment_def segment_source_length_def)
  have "sender_ready P bz (lk_derived_key link) s'" if "\<not> c"
  proof -
    from m that hash_parts_map [OF assms(1), of wire rh 0 n "[]" m] have "map_of_parts P s'"
      by (auto simp: map_of_parts_def s')
    moreover have tok: "rns_token_encrypt P (lk_derived_key link) plain (16 + (length plain div 16 + 1) * 16 + 32) r1 = (Some wire, r2)"
      using enc by (simp add: rns_link_encrypt_def split: if_splits)
    moreover have "stream_of s' compressed = plain"
      unfolding stream_of_def seg by (simp add: s' plain_def)
    moreover have "sender_flags s' compressed = sender_flags s compressed" by (simp add: s' sender_flags_def)
    ultimately show ?thesis
      using token_soundD(1) [OF assms(3) tok] token_soundD(3) [OF assms(3) tok, of "length wire"] comp n lens hash
      unfolding sender_ready_def seg
      by (auto simp: s' n_def intro!: exI [of _ compressed])
  qed
  then show ?thesis using lens by (simp add: s')
qed

lemma prepare_ready:
  assumes "sha256_sound P" "random_sound P" "token_sound P"
  shows "prepare_attempts n P bz link s r = (Inr s', r') \<Longrightarrow>
         rs_source s' = rs_source s \<and> rs_segment_index s' = rs_segment_index s \<and>
         rs_total_segments s' = rs_total_segments s \<and> rs_request_id s' = rs_request_id s \<and>
         length (rs_hash s') = 32 \<and> (length (rs_original_hash s) = 32 \<longrightarrow> length (rs_original_hash s') = 32) \<and>
         sender_ready P bz (lk_derived_key link) s'"
proof (induction n arbitrary: s r)
  case 0
  then show ?case by simp
next
  case (Suc n)
  obtain c s1 r1 where step: "sender_prepare_segment_attempt P bz link s r = (Inr (c, s1), r1)"
    and rest: "if c then prepare_attempts n P bz link s1 r1 = (Inr s', r') else s1 = s'"
    using Suc.prems by (auto split: prod.splits sum.splits if_splits)
  note here = attempt_ready [OF assms step]
  show ?case
  proof (cases c)
    case True
    with rest Suc.IH [of s1 r1] here show ?thesis by simp
  next
    case False
    with rest here show ?thesis by simp
  qed
qed

text \<open>A failed preparation is reported as an error.\<close>

lemma hash_parts_error: "hash_parts P wire rh is m = Inl status \<Longrightarrow> status \<noteq> RNS_OK"
  by (induction P wire rh "is" m rule: hash_parts.induct)
     (auto simp: hash_part_def split: sum.splits if_splits option.splits)

lemma compressed_copy_error: "compressed_copy bz x = Inl status \<Longrightarrow> status \<noteq> RNS_OK"
  by (auto simp: compressed_copy_def Let_def split: option.splits if_splits)

lemma attempt_error: "sender_prepare_segment_attempt P bz link s r = (Inl status, r') \<Longrightarrow> status \<noteq> RNS_OK"
  by (auto simp: sender_prepare_segment_attempt_def Let_def dest: hash_parts_error compressed_copy_error
      split: prod.splits sum.splits option.splits if_splits)

lemma prepare_error: "prepare_attempts n P bz link s r = (Inl status, r') \<Longrightarrow> status \<noteq> RNS_OK"
  by (induction n arbitrary: s r) (auto dest: attempt_error split: prod.splits sum.splits if_splits)

text \<open>The senders a node can have: created for some data, then advanced from segment to segment.\<close>

inductive sender_run ::
  "'r rns_crypto_provider option \<Rightarrow> bzip2 option \<Rightarrow> rns_link \<Rightarrow> rns_resource_sender \<Rightarrow> bool"
  for P :: "'r rns_crypto_provider option" and bz link where
  created: "rns_resource_sender_create P bz link source options r = (Inr s, r') \<Longrightarrow>
     (case options of None \<Rightarrow> True
      | Some opts \<Rightarrow> (case so_request_id opts of None \<Rightarrow> True | Some i \<Rightarrow> length i = 16)) \<Longrightarrow>
     sender_run P bz link s"
| advanced: "sender_run P bz link s \<Longrightarrow>
     rns_resource_sender_advance_segment P bz link s r = (RNS_OK, s', r') \<Longrightarrow> sender_run P bz link s'"

lemma sender_run_ready:
  assumes "sha256_sound P" "random_sound P" "token_sound P" "sender_run P bz link s"
  shows "sender_wf s \<and> length (rs_hash s) = 32 \<and> sender_ready P bz (lk_derived_key link) s"
  using assms(4)
proof induction
  case (created source options r s r')
  obtain s0 where prep: "sender_prepare_segment P bz link s0 r = (Inr s, r')" and s0: "sender_wf s0"
  proof -
    have seg: "0 < (length source + 1048575 - 1) div 1048575" if "length source \<noteq> 0"
      using that by (simp add: div_greater_zero_iff Suc_le_eq)
    show thesis
      using created that seg
      by (auto simp: rns_resource_sender_create_def Let_def sender_wf_def Suc_le_eq
          split: if_splits sum.splits option.splits)
  qed
  from prepare_ready [OF assms(1-3) prep [unfolded sender_prepare_segment_def]] s0
  show ?case by (auto simp: sender_wf_def)
next
  case (advanced s r s' r')
  then obtain s0 where prep: "sender_prepare_segment P bz link s0 r = (Inr s', r')" and s0: "sender_wf s0"
    by (auto simp: rns_resource_sender_advance_segment_def sender_wf_def sender_prepare_segment_def
        dest: prepare_error split: if_splits prod.splits sum.splits)
  from prepare_ready [OF assms(1-3) prep [unfolded sender_prepare_segment_def]] s0
  show ?case by (auto simp: sender_wf_def)
qed

lemma sender_flags_bits:
  "sender_flags s c AND 0x01 \<noteq> 0" "sender_flags s c AND 0x02 \<noteq> 0 \<longleftrightarrow> c \<noteq> None"
  "sender_flags s c AND 0x04 \<noteq> 0 \<longleftrightarrow> rs_total_segments s > 1"
  "sender_flags s c AND 0x08 = 0" "sender_flags s c AND 0x10 \<noteq> 0 \<longleftrightarrow> rs_is_response s"
  "sender_flags s c AND 0x20 = 0"
  by (simp_all add: sender_flags_def)

lemma mul_size_small: "a \<le> 18000 \<Longrightarrow> b \<le> 464 \<Longrightarrow> mul_size a b = Some (a * b)"
proof -
  assume ab: "a \<le> 18000" "b \<le> 464"
  have "b \<le> SIZE_MAX div a" if "a \<noteq> 0"
  proof -
    have "464 * a \<le> SIZE_MAX" using ab(1) by (simp add: SIZE_MAX_def)
    then have "464 \<le> SIZE_MAX div a" using that by (simp add: less_eq_div_iff_mult_less_eq)
    with ab(2) show ?thesis by simp
  qed
  then show ?thesis by (auto simp: mul_size_def not_less)
qed

lemma parts_of_wire:
  fixes n w :: nat
  assumes "n = (w + 463) div 464"
  shows "w \<le> n * 464" "n \<le> w" "i < n \<Longrightarrow> i * 464 < w"
proof -
  have "w + 463 = n * 464 + (w + 463) mod 464" using assms by simp
  moreover have "(w + 463) mod 464 < 464" by simp
  ultimately show "w \<le> n * 464" by linarith
  show "n \<le> w"
  proof (cases "w = 0")
    case False
    have "(w + 463) div 464 \<le> (w * 464) div 464" using False by (intro div_le_mono) linarith
    then show ?thesis using assms by simp
  qed (simp add: assms)
  show "i * 464 < w" if "i < n"
  proof -
    have "Suc i * 464 \<le> n * 464" using that by simp
    moreover have "n * 464 \<le> w + 463" using assms by simp
    ultimately show ?thesis by simp
  qed
qed

lemma advertised_valid:
  assumes "sender_wf s" "sender_ready P bz key s"
  shows "validate_advertisement (advertised s) = RNS_OK"
proof -
  obtain compressed where c: "rs_flags s = sender_flags s compressed"
    "length (rs_wire s) = 48 + (length (stream_of s compressed) div 16 + 1) * 16"
    using assms(2) by (auto simp: sender_ready_def)
  have parts: "rs_parts s = (length (rs_wire s) + 463) div 464" "0 < rs_parts s" "rs_parts s \<le> 18000"
    "length (rs_map_hashes s) = 4 * rs_parts s" "rs_segment_index s = 1 \<longrightarrow> rs_original_hash s = rs_hash s"
    using assms(2) by (simp_all add: sender_ready_def map_of_parts_def)
  note wire = parts_of_wire [OF parts(1)]
  have hm: "length (take (min (rs_parts s) 74 * 4) (rs_map_hashes s)) = (if rs_parts s < 74 then rs_parts s else 74) * 4"
    using parts(4) by (auto simp: min_def)
  have w: "\<not> length (rs_wire s) < 64" "length (rs_wire s) mod 16 = 0" "length (rs_wire s) \<noteq> 0"
  proof -
    have "length (rs_wire s) = (length (stream_of s compressed) div 16 + 4) * 16" unfolding c(2) by simp
    then show "\<not> length (rs_wire s) < 64" "length (rs_wire s) mod 16 = 0" "length (rs_wire s) \<noteq> 0"
      by (simp_all only: mod_mult_self2_is_0) simp_all
  qed
  show ?thesis
    using assms(1) parts(2,3,5) wire(1,2) hm w mul_size_small [OF parts(3), of 464] sender_flags_bits(1,3) [of s compressed]
    by (simp add: validate_advertisement_def advertised_def set_flags_def c(1) sender_wf_def)
qed

lemma advertisement_read_back:
  assumes "sender_wf s" "length (rs_hash s) = 32" "sender_ready P bz key s"
  shows "(431 \<le> capacity \<longrightarrow> (\<exists>out. rns_resource_sender_advertisement s capacity = Inr out)) \<and>
         (\<forall>out. rns_resource_sender_advertisement s capacity = Inr out \<longrightarrow>
            length out \<le> capacity \<and> rns_resource_advertisement_parse out = Inr (advertised s))"
proof -
  note wf = assms
  have parts: "rs_parts s \<le> 18000" "length (rs_map_hashes s) = 4 * rs_parts s" "length (rs_random_hash s) = 4"
    "length (rs_wire s) \<le> rs_parts s * 464"
    using wf(3) parts_of_wire(1) [of "rs_parts s" "length (rs_wire s)"]
    by (simp_all add: sender_ready_def map_of_parts_def)
  have src: "length (rs_source s) \<le> 8388608" "rs_segment_index s \<le> 9" "rs_total_segments s \<le> 9"
    "length (rs_original_hash s) = 32" "length (rs_request_id s) = 16"
  proof -
    have "(length (rs_source s) + 1048575 - 1) div 1048575 \<le> 9437182 div 1048575"
      using wf(1) by (intro div_le_mono) (simp add: sender_wf_def)
    with wf(1) show "length (rs_source s) \<le> 8388608" "rs_segment_index s \<le> 9" "rs_total_segments s \<le> 9"
      "length (rs_original_hash s) = 32" "length (rs_request_id s) = 16"
      by (simp_all add: sender_wf_def)
  qed
  define entries where "entries = min (rs_parts s) 74"
  have entries: "(if rs_parts s < 74 then rs_parts s else 74) = entries" by (auto simp: entries_def)
  have map_len: "length (take (entries * 4) (rs_map_hashes s)) = entries * 4" "entries * 4 \<le> 296"
    using parts(2) by (auto simp: entries_def)
  define out where "out = [0x8b] @
       (mp_put_key 0x74 @ mp_put_uint (length (rs_wire s)) @
       mp_put_key 0x64 @ mp_put_uint (length (rs_source s)) @
       mp_put_key 0x6e @ mp_put_uint (rs_parts s) @
       mp_put_key 0x68 @ mp_put_bin (rs_hash s) @
       mp_put_key 0x72 @ mp_put_bin (rs_random_hash s) @
       mp_put_key 0x6f @ mp_put_bin (rs_original_hash s) @
       mp_put_key 0x69 @ mp_put_uint (rs_segment_index s) @
       mp_put_key 0x6c @ mp_put_uint (rs_total_segments s) @
       mp_put_key 0x71 @ (if rs_has_request_id s then mp_put_bin (rs_request_id s) else [0xc0]) @
       mp_put_key 0x66 @ mp_put_uint (unat (rs_flags s)) @
       mp_put_key 0x6d @ mp_put_bin (take (entries * 4) (rs_map_hashes s)) @ [])"
  have encode: "rns_resource_sender_advertisement s capacity =
      (if capacity < length out then Inl RNS_ERROR_OVERFLOW else Inr out)"
    using map_len wf(2) parts(3) src(4,5)
    by (simp add: rns_resource_sender_advertisement_def Let_def entries out_def)
  have "parse_fields 11 0 zero_advertisement (drop 1 out) =
      Some (0x7ff, (advertised s)\<lparr>ra_encrypted := False, ra_compressed := False, ra_split := False,
        ra_is_request := False, ra_is_response := False, ra_has_metadata := False\<rparr>, [])"
    using parse_advertisement_fields [of s "take (entries * 4) (rs_map_hashes s)"] wf(2) parts src map_len
    by (simp add: out_def advertised_def set_flags_def entries_def SIZE_MAX_def)
  then have parse: "rns_resource_advertisement_parse out = Inr (advertised s)"
    using advertised_valid [OF wf(1,3)]
    by (simp add: rns_resource_advertisement_parse_def out_def mp_byte_def Let_def advertised_def set_flags_def)
  have small: "mp_uint_size v \<le> 5" if "v \<le> 8388608" for v using that by (simp add: mp_uint_size_def)
  have flags: "mp_uint_size (unat (rs_flags s)) \<le> 2"
    using unsigned_less [of "rs_flags s", where 'a = nat] by (simp add: mp_uint_size_def)
  have "length (rs_wire s) \<le> 8388608" using parts(1,4) by linarith
  note sizes = small [OF this] small [OF src(1)] flags
  have fixed: "mp_uint_size (rs_segment_index s) = 1" "mp_uint_size (rs_total_segments s) = 1"
    "mp_uint_size (rs_parts s) \<le> 3"
    using src(2,3) parts(1) by (simp_all add: mp_uint_size_def)
  have "mp_bin_header_size (entries * 4) \<le> 3" using map_len(2) by (simp add: mp_bin_header_size_def)
  then have "length out \<le> 431"
    using sizes fixed map_len wf(2) parts(3) src(4,5)
    by (simp add: out_def) (simp add: mp_bin_header_size_def)
  then show ?thesis using encode parse by auto
qed

lemma advertised_accepted:
  assumes "sender_wf s" "sender_ready P bz key s" "max_size = 0 \<or> length (rs_source s) \<le> max_size"
  shows "\<exists>resource. rns_resource_accept (advertised s) max_size = Inr resource"
proof -
  have "rs_parts s \<le> 18000" "length (rs_source s) \<le> 8388608"
    using assms(1,2) by (simp_all add: sender_ready_def sender_wf_def)
  moreover have "ra_parts (advertised s) = rs_parts s" "ra_data_size (advertised s) = length (rs_source s)"
    by (simp_all add: advertised_def set_flags_def)
  ultimately show ?thesis
    using assms(3) advertised_valid [OF assms(1,2)] mul_size_small [of "rs_parts s" 4]
    by (auto simp: rns_resource_accept_def Let_def)
qed

text \<open>
  C37. An advertisement is read back: whatever the sender announces about its current segment, of a
  resource it created or advanced to, is parsed to exactly that, and the receiver accepts it when its
  size limit allows the data. Encoding needs no more than 431 bytes.
\<close>

theorem resource_advertisement_roundtrip:
  assumes "sha256_sound P" "random_sound P" "token_sound P" "sender_run P bz link s"
  shows "(431 \<le> capacity \<longrightarrow> (\<exists>out. rns_resource_sender_advertisement s capacity = Inr out)) \<and>
         (\<forall>out. rns_resource_sender_advertisement s capacity = Inr out \<longrightarrow>
            length out \<le> capacity \<and> rns_resource_advertisement_parse out = Inr (advertised s)) \<and>
         (max_size = 0 \<or> length (rs_source s) \<le> max_size \<longrightarrow>
            (\<exists>resource. rns_resource_accept (advertised s) max_size = Inr resource))"
  using sender_run_ready [OF assms] advertisement_read_back [of s P bz "lk_derived_key link" capacity]
    advertised_accepted [of s P bz "lk_derived_key link" max_size] by blast

text \<open>A resource of one byte, sent with the sample provider and without compression.\<close>

definition sample_link :: rns_link where
  "sample_link = zero_link_state\<lparr>lk_state := RNS_LINK_ACTIVE, lk_derived_key := replicate 64 7\<rparr>"

definition sample_wire :: bytes where
  "sample_wire = (let sealed = replicate 16 1 @ replicate 4 0 @ [0x41] @ replicate 11 11 in sealed @ sealed)"

definition sample_sender :: rns_resource_sender where
  "sample_sender =
     \<lparr>rs_source = [0x41], rs_segment_index = 1, rs_total_segments = 1, rs_total_data_parts = 1,
      rs_auto_compress = True, rs_is_response = False, rs_has_request_id = False,
      rs_request_id = replicate 16 0, rs_flags = 1, rs_random_hash = replicate 4 0,
      rs_hash = 0x41 # replicate 31 0, rs_original_hash = 0x41 # replicate 31 0, rs_wire = sample_wire,
      rs_parts = 1, rs_map_hashes = replicate 4 1\<rparr>"

lemma sample_random: "random_sound sample_provider"
  by (auto simp: random_sound_def rns_random_bytes_def sample_provider_defs openssl_random_bytes_def)

lemma sample_encrypt_stream:
  "rns_link_encrypt sample_provider sample_link (replicate 4 0 @ [0x41]) 64 1 = (Some sample_wire, 2)"
  by (simp add: rns_link_encrypt_def sample_link_def rns_token_encrypt_def sample_provider_defs
      openssl_token_encrypt_def openssl_random_bytes_def openssl_hmac_sha256_def pkcs7_pad_def fit_def sample_wire_def)

lemma sample_sender_created:
  "rns_resource_sender_create sample_provider None sample_link [0x41] None 0 = (Inr sample_sender, 2)"
proof -
  have wire: "length sample_wire = 64" by (simp add: sample_wire_def)
  have part: "wire_part sample_wire 0 = sample_wire" by (simp add: wire_part_def wire)
  have head: "take 4 (fit 32 (sample_wire @ replicate 4 0)) = replicate 4 1"
    by (simp add: sample_wire_def fit_def)
  have eight: "(8 :: nat) = Suc 7" by simp
  have random: "rns_random_bytes sample_provider 4 0 = (Some (replicate 4 0), 1)"
    by (simp add: rns_random_bytes_def sample_provider_defs openssl_random_bytes_def)
  let ?s = "sample_sender\<lparr>rs_flags := 0, rs_hash := replicate 32 0, rs_original_hash := replicate 32 0, rs_wire := [],
    rs_parts := 0, rs_map_hashes := []\<rparr>"
  have segment: "current_segment ?s = [0x41]"
    by (simp add: current_segment_def segment_source_length_def segment_offset_def sample_sender_def)
  have hashed: "hash_parts sample_provider sample_wire (replicate 4 0) [0] [] = Inr (False, replicate 4 1)"
    using head by (simp add: hash_part_def part sample_provider_eval add_size_def wire SIZE_MAX_def)
  have "sender_prepare_segment_attempt sample_provider None sample_link ?s 0 = (Inr (False, sample_sender), 2)"
    unfolding sender_prepare_segment_attempt_def segment random Let_def prod.case option.case
    using sample_encrypt_stream hashed replicate_add [of 4 27 "0 :: byte"]
    by (simp add: add_size_def SIZE_MAX_def sample_provider_eval compressed_copy_def wire sender_flags_def fit_def
        sample_sender_def del: hash_parts.simps)
  then have "sender_prepare_segment sample_provider None sample_link ?s 0 = (Inr sample_sender, 2)"
    unfolding sender_prepare_segment_def eight prepare_attempts.simps(2) by simp
  moreover have "estimate_segments None [0x41] True [0] 0 = Inr 1"
    by (simp add: estimate_parts_def compressed_copy_def add_size_def SIZE_MAX_def bytes_at_def)
  ultimately show ?thesis
    by (simp add: rns_resource_sender_create_def sample_link_def sample_sender_def)
qed

lemma sample_sender_run: "sender_run sample_provider None sample_link sample_sender"
  by (rule created [OF sample_sender_created]) simp

theorem resource_advertisement_roundtrip_witness:
  "\<exists>out resource. rns_resource_sender_advertisement sample_sender 431 = Inr out \<and>
     rns_resource_advertisement_parse out = Inr (advertised sample_sender) \<and>
     rns_resource_accept (advertised sample_sender) 0 = Inr resource"
  using resource_advertisement_roundtrip [OF sample_provider_sound(1) sample_random sample_provider_sound(8)
      sample_sender_run, of 431 0] by blast

end
