(* ===== verification/Resource_Transfer.thy ===== *)
theory Resource_Transfer
  imports Resource_Sender
begin

text \<open>
  The exchange between the sender of a resource and its receiver: whatever the receiver collects
  assembles to the segment, and a transfer can always be completed.
\<close>

section \<open>The receiver follows its sender\<close>

definition tracks :: "rns_resource_sender \<Rightarrow> rns_resource \<Rightarrow> bool" where
  "tracks s r \<longleftrightarrow>
     rc_advertisement r = advertised s \<and>
     0 < rc_known_hashes r \<and> rc_known_hashes r \<le> rs_parts s \<and>
     (rc_known_hashes r = rs_parts s \<or> rc_known_hashes r mod 74 = 0) \<and>
     length (rc_map_hashes r) = 4 * rs_parts s \<and>
     take (4 * rc_known_hashes r) (rc_map_hashes r) = take (4 * rc_known_hashes r) (rs_map_hashes s) \<and>
     length (rc_parts r) = rs_parts s \<and> length (rc_requested r) = rs_parts s \<and>
     (\<forall>i < rs_parts s. rc_parts r ! i = None \<or> rc_parts r ! i = Some (wire_part (rs_wire s) i)) \<and>
     (\<forall>i < rs_parts s. rc_known_hashes r \<le> i \<longrightarrow> rc_parts r ! i = None \<and> \<not> rc_requested r ! i) \<and>
     rc_received r = length (filter (\<lambda>p. p \<noteq> None) (rc_parts r)) \<and>
     rns_resource_outstanding_parts r \<le> 4 \<and> rc_retries_used r \<le> 16 \<and>
     length (rs_source s) \<le> rc_max_size r"

lemma fold_update [simp]:
  "length (fold (\<lambda>i xs. xs[i := v]) is xs) = length xs"
  "j < length xs \<Longrightarrow> fold (\<lambda>i xs. xs[i := v]) is xs ! j = (if j \<in> set is then v else xs ! j)"
  by (induction "is" arbitrary: xs) (auto simp: nth_list_update)

lemma outstanding_card:
  "rns_resource_outstanding_parts r =
     card {i. i < rc_known_hashes r \<and> rc_parts r ! i = None \<and> rc_requested r ! i}"
  "set (outstanding_indices r) = {i. i < rc_known_hashes r \<and> rc_parts r ! i = None \<and> rc_requested r ! i}"
proof -
  show "set (outstanding_indices r) = {i. i < rc_known_hashes r \<and> rc_parts r ! i = None \<and> rc_requested r ! i}"
    by (auto simp: outstanding_indices_def)
  then show "rns_resource_outstanding_parts r =
     card {i. i < rc_known_hashes r \<and> rc_parts r ! i = None \<and> rc_requested r ! i}"
    unfolding rns_resource_outstanding_parts_def
    by (metis distinct_card distinct_filter distinct_upt outstanding_indices_def)
qed

lemma outstanding_mono:
  assumes "{i. i < rc_known_hashes r' \<and> rc_parts r' ! i = None \<and> rc_requested r' ! i} \<subseteq>
           {i. i < rc_known_hashes r \<and> rc_parts r ! i = None \<and> rc_requested r ! i}"
  shows "rns_resource_outstanding_parts r' \<le> rns_resource_outstanding_parts r"
  unfolding outstanding_card by (rule card_mono [OF _ assms]) simp

lemma advertised_simps [simp]:
  "ra_parts (advertised s) = rs_parts s" "ra_hash (advertised s) = rs_hash s"
  "ra_random_hash (advertised s) = rs_random_hash s" "ra_data_size (advertised s) = length (rs_source s)"
  "ra_transfer_size (advertised s) = length (rs_wire s)" "set_flags (advertised s) = advertised s"
  by (simp_all add: advertised_def set_flags_def)

lemma accept_tracks:
  assumes "sender_ready P bz key s" "rns_resource_accept (advertised s) max_size = Inr r"
  shows "tracks s r"
proof -
  have parts: "rs_parts s \<le> 18000" "0 < rs_parts s" "length (rs_map_hashes s) = 4 * rs_parts s"
    using assms(1) by (simp_all add: sender_ready_def map_of_parts_def)
  define hm where "hm = take (min (rs_parts s) 74 * 4) (rs_map_hashes s)"
  have hm: "ra_hashmap (advertised s) = hm" "length hm = min (rs_parts s) 74 * 4"
    using parts(3) by (auto simp: advertised_def set_flags_def hm_def)
  have r: "rc_advertisement r = advertised s" "rc_known_hashes r = min (rs_parts s) 74"
    "rc_map_hashes r = hm @ replicate (rs_parts s * 4 - length hm) 0"
    "rc_parts r = replicate (rs_parts s) None" "rc_requested r = replicate (rs_parts s) False"
    "rc_received r = 0" "rc_retries_used r = 0" "length (rs_source s) \<le> rc_max_size r"
    using assms(2) mul_size_small [OF parts(1), of 4] hm
    by (auto simp: rns_resource_accept_def Let_def split: if_splits)
  have "rns_resource_outstanding_parts r = 0"
    using r by (auto simp: outstanding_card)
  moreover have "take (4 * rc_known_hashes r) (rc_map_hashes r) = take (4 * rc_known_hashes r) (rs_map_hashes s)"
    using hm(2) by (simp add: r hm_def mult.commute)
  moreover have "rs_parts s * 4 - length hm + length hm = 4 * rs_parts s" using hm(2) by (simp add: min_def)
  ultimately show ?thesis
    using parts r by (auto simp: tracks_def min_def)
qed

lemma map_hash_take: "i < k \<Longrightarrow> map_hash (take (4 * k) m) i = map_hash m i"
  by (simp add: map_hash_def bytes_at_def take_drop min_def)

lemma tracks_map_hash:
  assumes "tracks s r" "i < rc_known_hashes r"
  shows "map_hash (rc_map_hashes r) i = map_hash (rs_map_hashes s) i"
  using assms map_hash_take [OF assms(2), of "rc_map_hashes r"] map_hash_take [OF assms(2), of "rs_map_hashes s"]
  by (simp add: tracks_def)

lemma map_of_parts_inj:
  assumes "map_of_parts P s" "i < rs_parts s" "j < rs_parts s"
    "map_hash (rs_map_hashes s) i = map_hash (rs_map_hashes s) j"
  shows "i = j"
  using assms unfolding map_of_parts_def by (metis linorder_neqE_nat)

lemma first_index_upt:
  assumes "i < n" "Q i" "\<And>j. j < n \<Longrightarrow> Q j \<Longrightarrow> j = i"
  shows "first_index Q [0..<n] = Some i"
proof (rule first_index_unique)
  show "i < length [0..<n]" "Q ([0..<n] ! i)" using assms(1,2) by simp_all
  show "j = i" if "j < length [0..<n]" "Q ([0..<n] ! j)" for j
    using that by (intro assms(3)) simp_all
qed

text \<open>A part of the sender is stored where it belongs, once.\<close>

lemma receive_sender_part:
  assumes "map_of_parts P s" "rs_parts s = (length (rs_wire s) + 463) div 464" "tracks s r" "i < rs_parts s"
  shows "rns_resource_receive_part P (wire_part (rs_wire s) i) r =
     (if rc_known_hashes r \<le> i then (RNS_ERROR_PROTOCOL, r)
      else (RNS_OK, if rc_parts r ! i \<noteq> None then r
                    else r\<lparr>rc_parts := (rc_parts r)[i := Some (wire_part (rs_wire s) i)],
                           rc_requested := (rc_requested r)[i := False],
                           rc_received := rc_received r + 1, rc_retries_used := 0\<rparr>))"
proof -
  let ?part = "wire_part (rs_wire s) i"
  have part: "?part \<noteq> []" "length ?part \<le> 464"
    using parts_of_wire(3) [OF assms(2,4)] by (auto simp: wire_part_def bytes_at_def)
  obtain d where d: "hash_part P ?part (rs_random_hash s) = Inr d" "map_hash (rs_map_hashes s) i = take 4 d"
    using assms(1,4) by (auto simp: map_of_parts_def)
  have adv: "rc_advertisement r = advertised s" "rc_known_hashes r \<le> rs_parts s"
    "rc_parts r ! i = None \<or> rc_parts r ! i = Some ?part"
    using assms(3,4) by (auto simp: tracks_def)
  have match: "take 4 d = map_hash (rc_map_hashes r) j \<longleftrightarrow> j = i" if "j < rc_known_hashes r" for j
    using that d(2) tracks_map_hash [OF assms(3) that] map_of_parts_inj [OF assms(1,4), of j] adv(2) by auto
  show ?thesis
  proof (cases "rc_known_hashes r \<le> i")
    case True
    then have "first_index (\<lambda>j. take 4 d = map_hash (rc_map_hashes r) j) [0..<rc_known_hashes r] = None"
      using match by (auto simp: first_index_None_iff)
    then show ?thesis using True part d(1) adv(1) by (simp add: rns_resource_receive_part_def)
  next
    case False
    then have "first_index (\<lambda>j. take 4 d = map_hash (rc_map_hashes r) j) [0..<rc_known_hashes r] = Some i"
      using match by (intro first_index_upt) auto
    then show ?thesis using False part d(1) adv by (auto simp: rns_resource_receive_part_def)
  qed
qed

lemma filter_some_update:
  "i < length ps \<Longrightarrow> ps ! i = None \<Longrightarrow>
     length (filter (\<lambda>p. p \<noteq> None) (ps[i := Some x])) = Suc (length (filter (\<lambda>p. p \<noteq> None) ps))"
proof (induction ps arbitrary: i)
  case Nil
  then show ?case by simp
next
  case (Cons p ps)
  then show ?case by (cases i) auto
qed

lemma receive_tracks:
  assumes "map_of_parts P s" "rs_parts s = (length (rs_wire s) + 463) div 464" "tracks s r" "i < rs_parts s"
    "rns_resource_receive_part P (wire_part (rs_wire s) i) r = (status, r')"
  shows "tracks s r'"
proof (cases "i < rc_known_hashes r \<and> rc_parts r ! i = None")
  case True
  let ?r = "r\<lparr>rc_parts := (rc_parts r)[i := Some (wire_part (rs_wire s) i)],
              rc_requested := (rc_requested r)[i := False],
              rc_received := rc_received r + 1, rc_retries_used := 0\<rparr>"
  have r': "r' = ?r" using True assms(5) receive_sender_part [OF assms(1-4)] by simp
  have "rns_resource_outstanding_parts ?r \<le> rns_resource_outstanding_parts r"
    by (rule outstanding_mono) (use assms(3) True in \<open>auto simp: tracks_def nth_list_update split: if_splits\<close>)
  moreover have "length (filter (\<lambda>p. p \<noteq> None) (rc_parts ?r)) = Suc (rc_received r)"
    using assms(3,4) True filter_some_update [of i "rc_parts r"] by (simp add: tracks_def)
  ultimately show ?thesis
    using assms(3,4) True unfolding r' tracks_def by (auto simp: nth_list_update)
next
  case False
  then have "r' = r" using assms(5) receive_sender_part [OF assms(1-4)] by (auto split: if_splits)
  then show ?thesis using assms(3) by simp
qed

definition unrequested :: "rns_resource \<Rightarrow> nat list" where
  \<comment> \<open>the known parts that are neither requested nor received\<close>
  "unrequested r = filter (\<lambda>i. rc_parts r ! i = None \<and> \<not> rc_requested r ! i) [0..<rc_known_hashes r]"

lemma build_request_cases:
  assumes "rns_resource_build_request capacity r = (x, r')"
  obtains (error) status where "x = Inl status" "r' = r"
  | (parts) missing out where "x = Inr out" "missing \<noteq> []" "set missing \<subseteq> set (unrequested r)"
      "rns_resource_outstanding_parts r + length missing \<le> 4"
      "r' = r\<lparr>rc_requested := fold (\<lambda>i rq. rq[i := True]) missing (rc_requested r), rc_waiting := False\<rparr>"
  | (page) out where "x = Inr out" "r' = r\<lparr>rc_waiting := True\<rparr>"
proof -
  define missing where "missing = take (if rns_resource_outstanding_parts r < 4 then 4 - rns_resource_outstanding_parts r else 0)
     (unrequested r)"
  have sub: "set missing \<subseteq> set (unrequested r)" by (auto simp: missing_def dest: in_set_takeD)
  have len: "rns_resource_outstanding_parts r + length missing \<le> 4" if "missing \<noteq> []"
    using that by (auto simp: missing_def split: if_splits)
  show thesis
    using assms error parts [OF _ _ sub len] page
    unfolding rns_resource_build_request_def Let_def unrequested_def [symmetric] missing_def [symmetric]
    by (auto split: if_splits)
qed

lemma tracks_requested:
  assumes "tracks s r" "length rq = rs_parts s" "\<And>i. i < rs_parts s \<Longrightarrow> rc_known_hashes r \<le> i \<Longrightarrow> \<not> rq ! i"
    and "rns_resource_outstanding_parts (r\<lparr>rc_requested := rq, rc_waiting := w\<rparr>) \<le> 4"
  shows "tracks s (r\<lparr>rc_requested := rq, rc_waiting := w\<rparr>)"
  using assms by (simp add: tracks_def)

lemma requested_tracks:
  assumes "tracks s r" "set missing \<subseteq> set (unrequested r)" "rns_resource_outstanding_parts r + length missing \<le> 4"
  shows "tracks s (r\<lparr>rc_requested := fold (\<lambda>i rq. rq[i := True]) missing (rc_requested r), rc_waiting := w\<rparr>)"
proof -
  let ?r = "r\<lparr>rc_requested := fold (\<lambda>i rq. rq[i := True]) missing (rc_requested r), rc_waiting := w\<rparr>"
  have known: "rc_known_hashes r \<le> rs_parts s" "length (rc_requested r) = rs_parts s"
    "length (rc_parts r) = rs_parts s"
    using assms(1) by (simp_all add: tracks_def)
  have below: "i < rc_known_hashes r" if "i \<in> set missing" for i
    using that assms(2) by (auto simp: unrequested_def)
  have "{i. i < rc_known_hashes ?r \<and> rc_parts ?r ! i = None \<and> rc_requested ?r ! i} \<subseteq>
      {i. i < rc_known_hashes r \<and> rc_parts r ! i = None \<and> rc_requested r ! i} \<union> set missing"
    using known by (auto split: if_splits)
  then have "rns_resource_outstanding_parts ?r \<le>
      card ({i. i < rc_known_hashes r \<and> rc_parts r ! i = None \<and> rc_requested r ! i} \<union> set missing)"
    unfolding outstanding_card by (rule card_mono [rotated]) simp
  also have "\<dots> \<le> rns_resource_outstanding_parts r + card (set missing)"
    unfolding outstanding_card by (rule card_Un_le)
  also have "\<dots> \<le> 4" using assms(3) card_length [of missing] by linarith
  finally have "rns_resource_outstanding_parts ?r \<le> 4" .
  then show ?thesis
  proof (rule tracks_requested [OF assms(1), rotated 2])
    show "\<not> fold (\<lambda>i rq. rq[i := True]) missing (rc_requested r) ! i"
      if "i < rs_parts s" "rc_known_hashes r \<le> i" for i
      using that assms(1) below [of i] known by (auto simp: tracks_def)
  qed (simp add: known)
qed

lemma waiting_tracks: "tracks s r \<Longrightarrow> tracks s (r\<lparr>rc_waiting := w\<rparr>)"
  by (simp add: tracks_def outstanding_card)

lemma build_request_tracks:
  "tracks s r \<Longrightarrow> rns_resource_build_request capacity r = (x, r') \<Longrightarrow> tracks s r'"
  by (erule build_request_cases) (auto intro: requested_tracks waiting_tracks)

text \<open>A retry forgets what was requested; when no request can be built it is as it was.\<close>

definition cleared :: "rns_resource \<Rightarrow> rns_resource" where
  "cleared r = r\<lparr>rc_requested := fold (\<lambda>i rq. rq[i := False]) (outstanding_indices r) (rc_requested r)\<rparr>"

lemma cleared_tracks:
  assumes "tracks s r"
  shows "tracks s (cleared r)" "rns_resource_outstanding_parts (cleared r) = 0"
proof -
  have known: "rc_known_hashes r \<le> rs_parts s" "length (rc_requested r) = rs_parts s"
    using assms by (simp_all add: tracks_def)
  then have "{i. i < rc_known_hashes (cleared r) \<and> rc_parts (cleared r) ! i = None \<and> rc_requested (cleared r) ! i} = {}"
    by (auto simp: cleared_def outstanding_card(2))
  then show zero: "rns_resource_outstanding_parts (cleared r) = 0"
    by (simp only: outstanding_card(1) card.empty)
  show "tracks s (cleared r)"
    using assms zero known unfolding tracks_def by (auto simp: cleared_def outstanding_card(2))
qed

lemma restored:
  assumes "tracks s r"
  shows "fold (\<lambda>i rq. rq[i := True]) (take 4 (outstanding_indices r)) (rc_requested (cleared r)) = rc_requested r"
proof -
  have "take 4 (outstanding_indices r) = outstanding_indices r"
    using assms by (simp add: tracks_def rns_resource_outstanding_parts_def)
  moreover have "rc_known_hashes r \<le> length (rc_requested r)" using assms by (simp add: tracks_def)
  ultimately show ?thesis
    by (intro nth_equalityI) (auto simp: cleared_def outstanding_card(2) split: if_splits)
qed

lemma build_retry_tracks:
  assumes "tracks s r" "rns_resource_build_retry_request capacity r = (x, r')"
  shows "tracks s r'"
proof (cases "rc_retries_used r \<ge> 16")
  case True
  then show ?thesis using assms by (simp add: rns_resource_build_retry_request_def)
next
  case False
  have outst: "\<not> rns_resource_outstanding_parts r > 4" using assms(1) by (simp add: tracks_def)
  obtain y r1 where build: "rns_resource_build_request capacity (cleared r) = (y, r1)" by fastforce
  show ?thesis
  proof (cases y)
    case (Inl status)
    from build have "r1 = cleared r" by (rule build_request_cases) (auto simp: Inl)
    then have "r' = (cleared r)\<lparr>rc_requested := rc_requested r\<rparr>"
      using assms(2) False outst build Inl restored [OF assms(1)]
      by (auto simp: rns_resource_build_retry_request_def Let_def cleared_def)
    then have "r' = r" by (simp add: cleared_def)
    with assms(1) show ?thesis by simp
  next
    case (Inr out)
    have r1: "tracks s r1" by (rule build_request_tracks [OF cleared_tracks(1) [OF assms(1)] build])
    have "rc_retries_used r1 = rc_retries_used r"
      using build by (rule build_request_cases) (auto simp: cleared_def)
    moreover have "r' = r1\<lparr>rc_retries_used := rc_retries_used r1 + 1\<rparr>"
      using assms(2) False outst build Inr
      by (auto simp: rns_resource_build_retry_request_def Let_def cleared_def)
    ultimately show ?thesis using r1 False by (auto simp: tracks_def outstanding_card)
  qed
qed

text \<open>The pages of the map the sender can send.\<close>

definition page_entries :: "rns_resource_sender \<Rightarrow> nat \<Rightarrow> nat" where
  "page_entries s page = min 74 (rs_parts s - page * 74)"

definition page_map :: "rns_resource_sender \<Rightarrow> nat \<Rightarrow> bytes" where
  "page_map s page = bytes_at (page * 74 * 4) (page_entries s page * 4) (rs_map_hashes s)"

definition page_update :: "rns_resource_sender \<Rightarrow> nat \<Rightarrow> bytes" where
  "page_update s page = rs_hash s @ [0x92] @ mp_put_uint page @ mp_put_bin (page_map s page)"

lemma entries_if: "(if n - x > 74 then 74 else n - x) = min 74 (n - x)" for n :: nat
  by (simp add: min_def)

lemma hashmap_update_page:
  assumes "rns_resource_sender_hashmap_update s request capacity = Inr u"
  shows "\<exists>page. page * 74 < rs_parts s \<and> u = page_update s page"
proof -
  from assms obtain anchor where "(anchor + 1) div 74 * 74 < rs_parts s" "u = page_update s ((anchor + 1) div 74)"
    unfolding rns_resource_sender_hashmap_update_def Let_def entries_if page_update_def page_map_def page_entries_def
    by (auto simp: not_le split: sum.splits option.splits if_splits)
  then show ?thesis by blast
qed

lemma parse_page_update:
  assumes "length (rs_hash s) = 32" "rs_parts s \<le> 18000" "page * 74 < rs_parts s"
    "length (rs_map_hashes s) = 4 * rs_parts s"
  shows "length (page_map s page) = page_entries s page * 4" "0 < page_entries s page"
    "parse_hashmap_update (page_update s page) (rs_hash s) = Inr (page, page_map s page)"
proof -
  show len: "length (page_map s page) = page_entries s page * 4"
    using assms(3,4) by (simp add: page_map_def page_entries_def)
  show pos: "0 < page_entries s page" using assms(3) by (simp add: page_entries_def)
  have page: "page \<le> SIZE_MAX" using assms(2,3) by (simp add: SIZE_MAX_def)
  have small: "length (page_map s page) \<le> 296" using len by (simp add: page_entries_def)
  have "0 < mp_uint_size page" "2 \<le> mp_bin_header_size n" for n
    by (simp_all add: mp_uint_size_def mp_bin_header_size_def)
  then have "\<not> length (page_update s page) < 35"
    using assms(1) len pos by (simp add: page_update_def not_less)
  then show "parse_hashmap_update (page_update s page) (rs_hash s) = Inr (page, page_map s page)"
    using assms(1) page small mp_bin_put [of "page_map s page" "[]"]
    by (simp add: parse_hashmap_update_def page_update_def mp_byte_def unat_of_nat_u64)
qed

lemma apply_page_update:
  assumes "tracks s r" "length (rs_hash s) = 32" "rs_parts s \<le> 18000" "page * 74 < rs_parts s"
    "length (rs_map_hashes s) = 4 * rs_parts s"
  shows "rns_resource_apply_hashmap_update (page_update s page) r =
     (if page * 74 < rc_known_hashes r then (RNS_OK, r)
      else if \<not> rc_waiting r \<or> page * 74 \<noteq> rc_known_hashes r then (RNS_ERROR_PROTOCOL, r)
      else (RNS_OK,
        r\<lparr>rc_map_hashes := take (page * 74 * 4) (rc_map_hashes r) @ page_map s page @
            drop (page * 74 * 4 + length (page_map s page)) (rc_map_hashes r),
          rc_known_hashes := rc_known_hashes r + page_entries s page, rc_waiting := False, rc_retries_used := 0\<rparr>))"
proof -
  note parse = parse_page_update [OF assms(2-5)]
  have mul: "mul_size page 74 = Some (page * 74)" using assms(3,4) by (intro mul_size_small) auto
  have adv: "rc_advertisement r = advertised s" using assms(1) by (simp add: tracks_def)
  have known: "page * 74 + page_entries s page \<le> rc_known_hashes r \<and>
      bytes_at (page * 74 * 4) (length (page_map s page)) (rc_map_hashes r) = page_map s page"
    if "page * 74 < rc_known_hashes r"
  proof
    show le: "page * 74 + page_entries s page \<le> rc_known_hashes r"
    proof (cases "rc_known_hashes r = rs_parts s")
      case True
      then show ?thesis using that by (simp add: page_entries_def)
    next
      case False
      then obtain q where "rc_known_hashes r = q * 74" using assms(1) by (auto simp: tracks_def mod_eq_0_iff_dvd dvd_def)
      with that have "Suc page * 74 \<le> rc_known_hashes r" by simp
      then show ?thesis by (simp add: page_entries_def)
    qed
    have "take (4 * rc_known_hashes r) (rc_map_hashes r) = take (4 * rc_known_hashes r) (rs_map_hashes s)"
      using assms(1) by (simp add: tracks_def)
    then have "bytes_at (page * 74 * 4) (page_entries s page * 4) (take (4 * rc_known_hashes r) (rc_map_hashes r)) =
        bytes_at (page * 74 * 4) (page_entries s page * 4) (take (4 * rc_known_hashes r) (rs_map_hashes s))"
      by simp
    moreover have "bytes_at (page * 74 * 4) (page_entries s page * 4) (take (4 * rc_known_hashes r) m) =
        bytes_at (page * 74 * 4) (page_entries s page * 4) m" for m :: bytes
      using le by (simp add: bytes_at_def drop_take min_def)
    ultimately show "bytes_at (page * 74 * 4) (length (page_map s page)) (rc_map_hashes r) = page_map s page"
      unfolding parse(1) by (simp only: page_map_def)
  qed
  show ?thesis
    using known parse mul assms(4)
    unfolding rns_resource_apply_hashmap_update_def Let_def adv advertised_simps parse(3) sum.case prod.case mul
      option.case entries_if
    by (auto simp: page_entries_def)
qed

lemma apply_tracks:
  assumes "tracks s r" "length (rs_hash s) = 32" "rs_parts s \<le> 18000" "page * 74 < rs_parts s"
    "length (rs_map_hashes s) = 4 * rs_parts s"
    "rns_resource_apply_hashmap_update (page_update s page) r = (status, r')"
  shows "tracks s r'"
proof (cases "rc_waiting r \<and> page * 74 = rc_known_hashes r")
  case True
  let ?n = "page_entries s page" and ?k = "rc_known_hashes r"
  let ?m = "take (?k * 4) (rc_map_hashes r) @ page_map s page @ drop (?k * 4 + length (page_map s page)) (rc_map_hashes r)"
  have r': "r' = r\<lparr>rc_map_hashes := ?m, rc_known_hashes := ?k + ?n, rc_waiting := False, rc_retries_used := 0\<rparr>"
    using True assms(6) apply_page_update [OF assms(1-5)] by (auto simp: mult.assoc)
  note len = parse_page_update(1,2) [OF assms(2-5)]
  have old: "length (rc_map_hashes r) = 4 * rs_parts s" "take (4 * ?k) (rc_map_hashes r) = take (4 * ?k) (rs_map_hashes s)"
    and unreq: "\<And>i. i < rs_parts s \<Longrightarrow> ?k \<le> i \<Longrightarrow> rc_parts r ! i = None \<and> \<not> rc_requested r ! i"
    using assms(1) by (simp_all add: tracks_def)
  have fits: "?k + ?n \<le> rs_parts s" using True assms(4) by (auto simp: page_entries_def)
  have pm: "page_map s page = bytes_at (4 * ?k) (?n * 4) (rs_map_hashes s)"
    using True by (simp add: page_map_def mult.commute)
  have "take (4 * (?k + ?n)) ?m = take (4 * ?k) (rc_map_hashes r) @ page_map s page"
    using fits old(1) len(1) by (simp add: mult.commute)
  also have "\<dots> = take (4 * (?k + ?n)) (rs_map_hashes s)"
    unfolding old(2) pm bytes_at_def by (simp add: take_add distrib_left mult.commute)
  finally have map: "take (4 * (?k + ?n)) ?m = take (4 * (?k + ?n)) (rs_map_hashes s)" .
  have mod: "?k + ?n = rs_parts s \<or> (?k + ?n) mod 74 = 0"
  proof -
    have "?k mod 74 = 0" using True by (metis mod_mult_self2_is_0)
    then show ?thesis using True assms(4) by (auto simp: page_entries_def min_def)
  qed
  have "rns_resource_outstanding_parts r' \<le> rns_resource_outstanding_parts r"
  proof (rule outstanding_mono, safe)
    fix i
    assume i: "i < rc_known_hashes r'" "rc_requested r' ! i"
    then have "i < rs_parts s" "rc_requested r ! i" using fits by (simp_all add: r')
    then show "i < ?k" using unreq [of i] by (meson not_le)
    show "rc_requested r ! i" by fact
  qed (simp add: r')
  moreover have "length ?m = 4 * rs_parts s" using fits old(1) len(1) by simp
  ultimately show ?thesis
    using assms(1) map mod fits len(2) unfolding r' tracks_def by auto
next
  case False
  then have "r' = r" using assms(6) apply_page_update [OF assms(1-5)] by (auto split: if_splits)
  then show ?thesis using assms(1) by simp
qed

lemma assemble_tracks:
  "tracks s r \<Longrightarrow> rns_resource_assemble P bz link capacity r = (x, r') \<Longrightarrow> tracks s r'"
proof -
  assume r: "tracks s r" and step: "rns_resource_assemble P bz link capacity r = (x, r')"
  have "\<exists>pr done. r' = r\<lparr>rc_proof := pr, rc_assembled := done\<rparr>"
  proof -
    have same: "\<exists>pr done. r = r\<lparr>rc_proof := pr, rc_assembled := done\<rparr>"
      by (intro exI [of _ "rc_proof r"] exI [of _ "rc_assembled r"]) simp
    have proof_only: "\<exists>pr' done. r\<lparr>rc_proof := pr\<rparr> = r\<lparr>rc_proof := pr', rc_assembled := done\<rparr>" for pr
      by (intro exI [of _ pr] exI [of _ "rc_assembled r"]) simp
    show ?thesis
      using step same proof_only
      by (simp only: rns_resource_assemble_def Let_def split: if_splits option.splits sum.splits prod.splits) blast+
  qed
  then show ?thesis using r by (auto simp: tracks_def outstanding_card)
qed

section \<open>Transfers\<close>

text \<open>
  A transfer, from the receiver's side: it sends requests and retries, parts and pages of the map
  reach it from the sender in any order, any number of times or not at all, and it may try to
  assemble the resource at any time.
\<close>

inductive transfer_step ::
  "'r rns_crypto_provider option \<Rightarrow> bzip2 option \<Rightarrow> rns_resource_sender \<Rightarrow> rns_resource \<Rightarrow> rns_resource \<Rightarrow> bool"
  for P :: "'r rns_crypto_provider option" and bz s where
  request: "rns_resource_build_request capacity r = (x, r') \<Longrightarrow> transfer_step P bz s r r'"
| retry: "rns_resource_build_retry_request capacity r = (x, r') \<Longrightarrow> transfer_step P bz s r r'"
| part: "rns_resource_sender_part s i = Inr part \<Longrightarrow>
     rns_resource_receive_part P part r = (status, r') \<Longrightarrow> transfer_step P bz s r r'"
| update: "rns_resource_sender_hashmap_update s request capacity = Inr u \<Longrightarrow>
     rns_resource_apply_hashmap_update u r = (status, r') \<Longrightarrow> transfer_step P bz s r r'"
| assemble: "rns_resource_assemble P bz link capacity r = (x, r') \<Longrightarrow> transfer_step P bz s r r'"

inductive_cases transfer_stepE: "transfer_step P bz s r r'"

definition prepared :: "'r rns_crypto_provider option \<Rightarrow> rns_resource_sender \<Rightarrow> bool" where
  "prepared P s \<longleftrightarrow>
     map_of_parts P s \<and> rs_parts s = (length (rs_wire s) + 463) div 464 \<and> rs_parts s \<le> 18000 \<and>
     length (rs_hash s) = 32"

interpretation transfer: invariant_steps "transfer_step P bz s" "\<lambda>r. prepared P s \<longrightarrow> tracks s r"
  for P :: "'r rns_crypto_provider option" and bz s
proof
  fix r r' :: rns_resource
  assume step: "transfer_step P bz s r r'" and inv: "prepared P s \<longrightarrow> tracks s r"
  show "prepared P s \<longrightarrow> tracks s r'"
  proof
    assume prep: "prepared P s"
    with inv have r: "tracks s r" by simp
    have s: "map_of_parts P s" "rs_parts s = (length (rs_wire s) + 463) div 464" "rs_parts s \<le> 18000"
      "length (rs_hash s) = 32" "length (rs_map_hashes s) = 4 * rs_parts s"
      using prep by (simp_all add: prepared_def map_of_parts_def)
    from step show "tracks s r'"
    proof (rule transfer_stepE)
      fix i part status
      assume "rns_resource_sender_part s i = Inr part" "rns_resource_receive_part P part r = (status, r')"
      then show ?thesis
        using receive_tracks [OF s(1,2) r] by (auto simp: rns_resource_sender_part_def not_le split: if_splits)
    next
      fix request capacity u status
      assume u: "rns_resource_sender_hashmap_update s request capacity = Inr u"
        and step: "rns_resource_apply_hashmap_update u r = (status, r')"
      obtain page where "page * 74 < rs_parts s" "u = page_update s page" using hashmap_update_page [OF u] by blast
      then show ?thesis using apply_tracks [OF r s(4,3) _ s(5)] step by simp
    qed (auto intro: r build_request_tracks build_retry_tracks assemble_tracks)
  qed
qed

lemma ready_prepared: "sender_ready P bz key s \<Longrightarrow> length (rs_hash s) = 32 \<Longrightarrow> prepared P s"
  by (simp add: sender_ready_def prepared_def)

lemma complete_parts:
  assumes "tracks s r" "rns_resource_parts_complete r"
  shows "rc_parts r = map (\<lambda>i. Some (wire_part (rs_wire s) i)) [0..<rs_parts s]"
proof -
  have len: "length (rc_parts r) = rs_parts s"
    and eq: "length (filter (\<lambda>p. p \<noteq> None) (rc_parts r)) = length (rc_parts r)"
    and stored: "\<And>i. i < rs_parts s \<Longrightarrow> rc_parts r ! i = None \<or> rc_parts r ! i = Some (wire_part (rs_wire s) i)"
    using assms by (simp_all add: tracks_def rns_resource_parts_complete_def)
  have "rc_parts r ! i = Some (wire_part (rs_wire s) i)" if "i < rs_parts s" for i
  proof (rule ccontr)
    assume "rc_parts r ! i \<noteq> Some (wire_part (rs_wire s) i)"
    then have "rc_parts r ! i = None" using stored [OF that] by simp
    moreover have "rc_parts r ! i \<in> set (rc_parts r)" using that len by simp
    ultimately have "length (filter (\<lambda>p. p \<noteq> None) (rc_parts r)) < length (rc_parts r)"
      by (intro length_filter_less [of "rc_parts r ! i"]) simp_all
    with eq show False by simp
  qed
  with len show ?thesis by (intro nth_equalityI) simp_all
qed

lemma concat_wire_parts: "concat (map (wire_part w) [0..<n]) = take (n * 464) w"
proof (induction n)
  case 0
  then show ?case by simp
next
  case (Suc n)
  have "take (Suc n * 464) w = take (n * 464) w @ take 464 (drop (n * 464) w)"
    using take_add [of "n * 464" 464 w] by (simp add: add.commute)
  with Suc show ?case by (simp add: wire_part_def bytes_at_def)
qed

lemma joined_wire:
  assumes "rs_parts s = (length (rs_wire s) + 463) div 464"
  shows "joined_parts (map (\<lambda>i. Some (wire_part (rs_wire s) i)) [0..<rs_parts s]) = rs_wire s"
  using concat_wire_parts [of "rs_wire s" "rs_parts s"] parts_of_wire(1) [OF assms]
  by (simp add: joined_parts_def comp_def)

lemma parts_size_joined:
  "n + length (joined_parts ps) \<le> SIZE_MAX \<Longrightarrow> parts_size ps n = Some (n + length (joined_parts ps))"
  by (induction ps arbitrary: n) (auto simp: joined_parts_def add_size_def split: option.splits)

text \<open>What bzip2 documents: decompression undoes compression when the output has room.\<close>

definition bz_sound :: "bzip2 option \<Rightarrow> bool" where
  "bz_sound bz \<longleftrightarrow>
     (\<forall>lib bound source c limit. bz = Some lib \<longrightarrow> BZ2_bzBuffToBuffCompress lib bound source = Some c \<longrightarrow>
        length source \<le> limit \<longrightarrow> BZ2_bzBuffToBuffDecompress lib limit c = BZ_OK source)"

lemma compressed_copyD:
  assumes "compressed_copy bz x = Inr (Some c)"
  obtains lib bound where "bz = Some lib" "BZ2_bzBuffToBuffCompress lib bound x = Some c" "length c < length x"
  using assms by (auto simp: compressed_copy_def Let_def split: option.splits if_splits)

lemma segment_length:
  "length (current_segment s) \<le> length (rs_source s)"
  by (simp add: current_segment_def)

lemma assembled_stream:
  assumes "tracks s r" "bz_sound bz" "length (rs_random_hash s) = 4" "length (rs_source s) \<le> 8388608"
    and "(if rs_auto_compress s then compressed_copy bz (current_segment s) else Inr None) = Inr compressed"
    and "rs_flags s = sender_flags s compressed" "length (current_segment s) \<le> capacity"
  shows "assembled_data bz capacity r (stream_of s compressed) = Inr (current_segment s)"
proof -
  let ?seg = "current_segment s"
  have adv: "rc_advertisement r = advertised s" and max: "length (rs_source s) \<le> rc_max_size r"
    using assms(1) by (simp_all add: tracks_def)
  have flags: "ra_encrypted (advertised s)" "ra_compressed (advertised s) \<longleftrightarrow> compressed \<noteq> None"
    using sender_flags_bits(1,2) [of s compressed] assms(6) by (simp_all add: advertised_def set_flags_def)
  have seg: "length ?seg \<le> rc_max_size r" "length ?seg \<le> length (rs_source s)"
    using segment_length [of s] max by simp_all
  show ?thesis
  proof (cases compressed)
    case None
    then show ?thesis
      using adv flags seg assms(3,7) by (simp add: assembled_data_def stream_of_def Let_def)
  next
    case (Some c)
    then obtain lib bound where lib: "bz = Some lib" "BZ2_bzBuffToBuffCompress lib bound ?seg = Some c"
        "length c < length ?seg"
      using assms(5) by (auto elim: compressed_copyD split: if_splits)
    have out: "BZ2_bzBuffToBuffDecompress lib limit c = BZ_OK ?seg" if "length ?seg \<le> limit" for limit
      using assms(2) lib that unfolding bz_sound_def by blast
    have "decompress bz capacity r c = Inr ?seg"
      using lib(3) seg assms(4,7) adv out by (simp add: decompress_def lib(1) Let_def)
    then show ?thesis
      using Some adv flags seg assms(3) by (simp add: assembled_data_def stream_of_def Let_def)
  qed
qed

lemma assemble_complete:
  assumes "sender_wf s" "sender_ready P bz (lk_derived_key link) s" "length (rs_hash s) = 32" "bz_sound bz" "tracks s r"
    and "rns_resource_parts_complete r" "lk_state link' = RNS_LINK_ACTIVE"
      "lk_derived_key link' = lk_derived_key link" "length (current_segment s) \<le> capacity"
      "rns_sha256 P (current_segment s @ rs_hash s) = Some digest"
  shows "rns_resource_assemble P bz (Some link') capacity r =
           (Inr (current_segment s), r\<lparr>rc_proof := rs_hash s @ digest, rc_assembled := True\<rparr>)"
proof -
  obtain compressed where c:
    "(if rs_auto_compress s then compressed_copy bz (current_segment s) else Inr None) = Inr compressed"
    "rs_flags s = sender_flags s compressed"
    "rns_token_decrypt P (lk_derived_key link) (rs_wire s) (length (rs_wire s)) = Some (stream_of s compressed)"
    using assms(2) by (auto simp: sender_ready_def)
  have ready: "length (rs_random_hash s) = 4" "rns_sha256 P (current_segment s @ rs_random_hash s) = Some (rs_hash s)"
    "rs_parts s = (length (rs_wire s) + 463) div 464" "rs_parts s \<le> 18000"
    using assms(2) by (simp_all add: sender_ready_def)
  have src: "length (rs_source s) \<le> 8388608" using assms(1) by (simp add: sender_wf_def)
  have adv: "rc_advertisement r = advertised s" using assms(5) by (simp add: tracks_def)
  have enc: "ra_encrypted (advertised s)"
    using sender_flags_bits(1) [of s compressed] c(2) by (simp add: advertised_def set_flags_def)
  have joined: "joined_parts (rc_parts r) = rs_wire s"
    using complete_parts [OF assms(5,6)] joined_wire [OF ready(3)] by simp
  have "length (rs_wire s) \<le> 8352000" using parts_of_wire(1) [OF ready(3)] ready(4) by linarith
  then have size: "parts_size (rc_parts r) 0 = Some (length (rs_wire s))"
    using parts_size_joined [of 0 "rc_parts r"] joined by (simp add: SIZE_MAX_def)
  have dec: "rns_link_decrypt P link' (rs_wire s) (length (rs_wire s)) = Some (stream_of s compressed)"
    using c(3) assms(7,8) by (simp add: rns_link_decrypt_def)
  note data = assembled_stream [OF assms(5,4) ready(1) src c(1,2) assms(9)]
  have small: "add_size (length (current_segment s)) 4 = Some (length (current_segment s) + 4)"
    "add_size (length (current_segment s)) 32 = Some (length (current_segment s) + 32)"
    using segment_length [of s] src by (simp_all add: add_size_def SIZE_MAX_def)
  show ?thesis
    unfolding rns_resource_assemble_def Let_def adv advertised_simps
    using assms(6,10) size joined enc dec data small ready(2) by simp
qed

lemma proof_accepted:
  assumes "sender_wf s" "length (rs_hash s) = 32" "length digest = 32"
    "rns_sha256 P (current_segment s @ rs_hash s) = Some digest"
  shows "rns_resource_sender_validate_proof P s (rs_hash s @ digest) = RNS_OK"
proof -
  have "add_size (length (current_segment s)) 32 \<noteq> None"
    using segment_length [of s] assms(1) by (simp add: add_size_def SIZE_MAX_def sender_wf_def)
  then show ?thesis using assms(2-4) by (auto simp: rns_resource_sender_validate_proof_def bytes_at_def)
qed

text \<open>
  C3. What the receiver assembles is what was sent: a sender, on any segment of any resource it
  created, advertises it; a receiver accepts the parsed advertisement; whatever requests and retries
  follow, and however parts and map pages of the sender reach it - late, repeated, out of order,
  some never - once it has all parts it assembles exactly the segment, with any peer end of the
  link, and the sender accepts its proof.
\<close>

theorem resource_transfer:
  assumes "sha256_sound P" "random_sound P" "token_sound P" "bz_sound bz" "sender_run P bz link s"
    and "rns_resource_sender_advertisement s cap = Inr out" "rns_resource_advertisement_parse out = Inr adv"
      "rns_resource_accept adv max_size = Inr r0"
    and "(transfer_step P bz s)\<^sup>*\<^sup>* r0 r" "rns_resource_parts_complete r"
    and "lk_state link' = RNS_LINK_ACTIVE" "lk_derived_key link' = lk_derived_key link"
      "length (current_segment s) \<le> capacity" "rns_sha256 P (current_segment s @ rs_hash s) \<noteq> None"
  shows "\<exists>r' pr. rns_resource_assemble P bz (Some link') capacity r = (Inr (current_segment s), r') \<and>
           rns_resource_build_proof r' = Inr pr \<and> rns_resource_sender_validate_proof P s pr = RNS_OK"
proof -
  have s: "sender_wf s" "length (rs_hash s) = 32" "sender_ready P bz (lk_derived_key link) s"
    using sender_run_ready [OF assms(1-3,5)] by auto
  have "adv = advertised s"
    using advertisement_read_back [OF s, of cap] assms(6,7) by auto
  then have "tracks s r0" using accept_tracks [OF s(3)] assms(8) by simp
  then have r: "tracks s r"
    using transfer.reachable_invariant [OF assms(9)] ready_prepared [OF s(3,2)] by blast
  obtain digest where digest: "rns_sha256 P (current_segment s @ rs_hash s) = Some digest" using assms(14) by auto
  then have "length digest = 32" using assms(1) by (auto simp: sha256_sound_def)
  from assemble_complete [OF s(1,3,2) assms(4) r assms(10-13) digest] proof_accepted [OF s(1,2) this digest]
  show ?thesis by (simp add: rns_resource_build_proof_def)
qed

section \<open>Progress\<close>

lemma length_map_hash: "4 * i + 4 \<le> length m \<Longrightarrow> length (map_hash m i) = 4"
  by (simp add: map_hash_def)

lemma find_sender_part:
  assumes "map_of_parts P s" "i < rs_parts s"
  shows "first_index (\<lambda>j. map_hash (rs_map_hashes s) i = map_hash (rs_map_hashes s) j) [0..<rs_parts s] = Some i"
  by (rule first_index_upt) (use assms map_of_parts_inj [OF assms(1)] in auto)

lemma find_parts_all:
  assumes "map_of_parts P s" "\<forall>i \<in> set is. i < rs_parts s"
  shows "length found + length is \<le> n \<Longrightarrow>
     find_parts s (map (map_hash (rs_map_hashes s)) is) n found = Inr (found @ is)"
  using assms(2) by (induction "is" arbitrary: found) (simp_all add: find_sender_part [OF assms(1)])

lemma serve_parts:
  assumes "map_of_parts P s" "length (rs_hash s) = 32" "\<forall>i \<in> set is. i < rs_parts s" "length is \<le> 4"
  shows "rns_resource_sender_requested_parts s
           ([0x00] @ rs_hash s @ concat (map (map_hash (rs_map_hashes s)) is)) 4 = Inr is"
proof -
  let ?maps = "map (map_hash (rs_map_hashes s)) is"
  let ?request = "[0x00] @ rs_hash s @ concat ?maps"
  have four: "\<forall>b \<in> set ?maps. length b = 4"
  proof
    fix b
    assume "b \<in> set ?maps"
    then obtain i where i: "i \<in> set is" "b = map_hash (rs_map_hashes s) i" by auto
    have "4 * i + 4 \<le> length (rs_map_hashes s)" using i(1) assms(1,3) by (fastforce simp: map_of_parts_def)
    then show "length b = 4" unfolding i(2) by (rule length_map_hash)
  qed
  have len: "length ?request = 33 + length is * 4"
    using length_concat_fixed [OF four] assms(2) by simp
  have parse: "parse_request s ?request = Inr (1, 33)"
    using len assms(2) by (simp add: parse_request_def bytes_at_def)
  have "map (\<lambda>j. bytes_at (33 + j * 4) 4 ?request) [0..<length is] = ?maps"
  proof (rule nth_equalityI)
    fix j
    assume "j < length (map (\<lambda>j. bytes_at (33 + j * 4) 4 ?request) [0..<length is])"
    then have j: "j < length ?maps" by simp
    have "bytes_at (33 + j * 4) 4 ?request = bytes_at (j * 4) 4 (concat ?maps)"
      using assms(2) by (simp add: bytes_at_def drop_Cons')
    with j bytes_at_concat [OF four j, of "[]"]
    show "map (\<lambda>j. bytes_at (33 + j * 4) 4 ?request) [0..<length is] ! j = ?maps ! j" by simp
  qed simp
  moreover have "(length ?request - 33) div 4 = length is" using len by simp
  ultimately show ?thesis
    using find_parts_all [OF assms(1,3), of "[]" 4] assms(4)
    unfolding rns_resource_sender_requested_parts_def parse by (simp only: sum.case prod.case Let_def) simp
qed

lemma serve_page:
  assumes "map_of_parts P s" "length (rs_hash s) = 32" "rs_parts s \<le> 18000"
    and "0 < k" "k < rs_parts s" "k mod 74 = 0" "length tail mod 4 = 0"
  shows "rns_resource_sender_hashmap_update s
           ([0xff] @ map_hash (rs_map_hashes s) (k - 1) @ rs_hash s @ tail) 334 = Inr (page_update s (k div 74))"
proof -
  let ?anchor = "map_hash (rs_map_hashes s) (k - 1)"
  let ?request = "[0xff] @ ?anchor @ rs_hash s @ tail"
  have map: "length (rs_map_hashes s) = 4 * rs_parts s" using assms(1) by (simp add: map_of_parts_def)
  have anchor: "length ?anchor = 4" using map assms(4,5) by (intro length_map_hash) simp
  have parse: "parse_request s ?request = Inr (5, 37)"
    using assms(2,7) anchor by (simp add: parse_request_def bytes_at_def)
  have "bytes_at 1 4 ?request = ?anchor" using anchor by (simp add: bytes_at_def)
  moreover have find: "first_index (\<lambda>j. ?anchor = map_hash (rs_map_hashes s) j) [0..<rs_parts s] = Some (k - 1)"
    using assms(4,5) by (intro find_sender_part [OF assms(1)]) simp
  moreover have k: "k - 1 + 1 = k" "k div 74 * 74 = k" using assms(4,6) by auto
  moreover have "mp_uint_size (k div 74) + (mp_bin_header_size (min 74 (rs_parts s - k) * 4) + min 74 (rs_parts s - k) * 4) \<le> 301"
  proof -
    have "k div 74 \<le> 18000 div 74" using assms(3,5) by (intro div_le_mono) simp
    then have "mp_uint_size (k div 74) \<le> 2" by (simp add: mp_uint_size_def)
    moreover have "mp_bin_header_size (min 74 (rs_parts s - k) * 4) \<le> 3" by (simp add: mp_bin_header_size_def)
    moreover have "min 74 (rs_parts s - k) * 4 \<le> 296" by simp
    ultimately show ?thesis by linarith
  qed
  ultimately show ?thesis
    using assms(5,6)
    unfolding rns_resource_sender_hashmap_update_def parse Let_def entries_if
    by (simp add: page_update_def page_map_def page_entries_def)
qed

lemma incomplete_known:
  assumes "tracks s r" "\<not> rns_resource_parts_complete r" "\<forall>i < rc_known_hashes r. rc_parts r ! i \<noteq> None"
  shows "rc_known_hashes r < rs_parts s"
proof (rule ccontr)
  assume "\<not> rc_known_hashes r < rs_parts s"
  then have known: "rc_known_hashes r = length (rc_parts r)" "length (rc_parts r) = rs_parts s"
    using assms(1) by (auto simp: tracks_def)
  then have "filter (\<lambda>p. p \<noteq> None) (rc_parts r) = rc_parts r"
    using assms(3) by (auto simp: filter_id_conv in_set_conv_nth)
  with known assms(1,2) show False by (simp add: tracks_def rns_resource_parts_complete_def)
qed

lemma retry_request:
  assumes "tracks s r" "\<not> rns_resource_parts_complete r" "rc_retries_used r < 16" "53 \<le> capacity"
    and "length (rs_map_hashes s) = 4 * rs_parts s"
  obtains (parts) "is" r1 where "is \<noteq> []" "length is \<le> 4" "\<forall>i \<in> set is. i < rc_known_hashes r1 \<and> rc_parts r1 ! i = None"
      "rns_resource_build_retry_request capacity r =
         (Inr ([0x00] @ rs_hash s @ concat (map (map_hash (rs_map_hashes s)) is)), r1)"
  | (page) tail r1 where "rc_known_hashes r1 < rs_parts s" "rc_known_hashes r1 mod 74 = 0" "length tail mod 4 = 0"
      "rc_waiting r1" "rns_resource_build_retry_request capacity r =
         (Inr ([0xff] @ map_hash (rs_map_hashes s) (rc_known_hashes r1 - 1) @ rs_hash s @ tail), r1)"
proof -
  let ?c = "cleared r" and ?k = "rc_known_hashes r"
  define missing where "missing = take 4 (unrequested ?c)"
  note c = cleared_tracks [OF assms(1)]
  have adv: "rc_advertisement ?c = advertised s" "rc_known_hashes ?c = ?k" "rc_parts ?c = rc_parts r"
      "rc_map_hashes ?c = rc_map_hashes r" "rc_retries_used ?c = rc_retries_used r"
    and outst: "rns_resource_outstanding_parts r \<le> 4" and incomplete: "\<not> rns_resource_parts_complete ?c"
    using assms(1,2) by (simp_all add: tracks_def cleared_def rns_resource_parts_complete_def)
  have retry: "rns_resource_build_retry_request capacity r = (Inr out, r1\<lparr>rc_retries_used := rc_retries_used r1 + 1\<rparr>)"
    if "rns_resource_build_request capacity ?c = (Inr out, r1)" for out r1
    using that assms(3) outst by (simp add: rns_resource_build_retry_request_def Let_def cleared_def)
  have unreq: "set (unrequested ?c) = {i. i < ?k \<and> rc_parts r ! i = None}"
  proof -
    have "\<not> rc_requested ?c ! i" if "i < ?k" "rc_parts r ! i = None" for i
      using c(2) that adv by (auto simp: outstanding_card(1))
    then show ?thesis using adv by (auto simp: unrequested_def)
  qed
  show thesis
  proof (cases "missing = []")
    case False
    have sub: "\<forall>i \<in> set missing. i < ?k \<and> rc_parts r ! i = None"
      using unreq by (auto simp: missing_def dest: in_set_takeD)
    have len: "length missing \<le> 4" by (simp add: missing_def)
    have hashes: "map (map_hash (rc_map_hashes r)) missing = map (map_hash (rs_map_hashes s)) missing"
      using sub tracks_map_hash [OF assms(1)] by (intro map_cong) auto
    let ?r1 = "?c\<lparr>rc_requested := fold (\<lambda>i rq. rq[i := True]) missing (rc_requested ?c), rc_waiting := False\<rparr>"
    have "rns_resource_build_request capacity ?c =
        (Inr ([0x00] @ rs_hash s @ concat (map (map_hash (rs_map_hashes s)) missing)), ?r1)"
      unfolding rns_resource_build_request_def Let_def c(2) unrequested_def [symmetric] hashes [symmetric]
      using False len incomplete assms(4) by (simp add: missing_def [symmetric] adv)
    from retry [OF this] show thesis
      by (rule parts [OF False len, rotated]) (use sub in \<open>simp add: adv\<close>)
  next
    case True
    then have none: "unrequested ?c = []" by (simp add: missing_def)
    with unreq have "\<forall>i < ?k. rc_parts r ! i \<noteq> None" by auto
    then have less: "?k < rs_parts s" by (rule incomplete_known [OF assms(1,2)])
    have k: "0 < ?k" "?k mod 74 = 0" "length (rc_map_hashes r) = 4 * rs_parts s"
      using assms(1) less by (auto simp: tracks_def)
    define tail where "tail = bytes_at ((?k - (if ?k < 4 then ?k else 4)) * 4) ((if ?k < 4 then ?k else 4) * 4) (rc_map_hashes r)"
    have tail: "length tail mod 4 = 0" using k less by (simp add: tail_def min_def)
    have "rns_resource_build_request capacity ?c =
        (Inr ([0xff] @ map_hash (rs_map_hashes s) (?k - 1) @ rs_hash s @ tail), ?c\<lparr>rc_waiting := True\<rparr>)"
      unfolding rns_resource_build_request_def Let_def c(2) unrequested_def [symmetric] none
      using incomplete less assms(4) tracks_map_hash [OF assms(1), of "?k - 1"] k(1) by (simp add: adv tail_def)
    from retry [OF this] show thesis
      by (intro page [where tail = tail and
            ?r1.0 = "?c\<lparr>rc_waiting := True, rc_retries_used := rc_retries_used ?c + 1\<rparr>"])
         (use less k(2) tail in \<open>simp_all add: adv\<close>)
  qed
qed

text \<open>One round of a transfer: a retry, the sender's answer, and what the receiver makes of it.\<close>

definition answered ::
  "'r rns_crypto_provider option \<Rightarrow> rns_resource_sender \<Rightarrow> bytes \<Rightarrow> rns_resource \<Rightarrow> bool" where
  "answered P s req r1 \<longleftrightarrow>
     (\<exists>is. is \<noteq> [] \<and> rns_resource_sender_requested_parts s req 4 = Inr is \<and>
        (\<forall>i \<in> set is. \<exists>part r2. rns_resource_sender_part s i = Inr part \<and>
           rns_resource_receive_part P part r1 = (RNS_OK, r2) \<and> rc_received r2 = rc_received r1 + 1 \<and> rc_retries_used r2 = 0)) \<or>
     (\<exists>u r2. rns_resource_sender_hashmap_update s req 334 = Inr u \<and>
        rns_resource_apply_hashmap_update u r1 = (RNS_OK, r2) \<and> rc_known_hashes r1 < rc_known_hashes r2 \<and> rc_retries_used r2 = 0)"

lemma retry_answered:
  assumes "prepared P s" "tracks s r" "\<not> rns_resource_parts_complete r" "rc_retries_used r < 16" "53 \<le> capacity"
  shows "\<exists>req r1. rns_resource_build_retry_request capacity r = (Inr req, r1) \<and> answered P s req r1"
proof -
  have s: "map_of_parts P s" "rs_parts s = (length (rs_wire s) + 463) div 464" "rs_parts s \<le> 18000"
    "length (rs_hash s) = 32" "length (rs_map_hashes s) = 4 * rs_parts s"
    using assms(1) by (simp_all add: prepared_def map_of_parts_def)
  from assms(2-5) s(5) show ?thesis
  proof (cases rule: retry_request)
    case (parts "is" r1)
    have r1: "tracks s r1" by (rule build_retry_tracks [OF assms(2) parts(4)])
    then have below: "\<forall>i \<in> set is. i < rs_parts s" using parts(3) by (auto simp: tracks_def)
    have "\<exists>part r2. rns_resource_sender_part s i = Inr part \<and>
        rns_resource_receive_part P part r1 = (RNS_OK, r2) \<and> rc_received r2 = rc_received r1 + 1 \<and> rc_retries_used r2 = 0" if "i \<in> set is" for i
      using that parts(3) below receive_sender_part [OF s(1,2) r1, of i]
      by (auto simp: rns_resource_sender_part_def)
    with serve_parts [OF s(1,4) below parts(2)] parts(1,4) show ?thesis unfolding answered_def by blast
  next
    case (page tail r1)
    have r1: "tracks s r1" by (rule build_retry_tracks [OF assms(2) page(5)])
    let ?k = "rc_known_hashes r1"
    have k: "0 < ?k" "?k div 74 * 74 = ?k" using r1 page(2) by (auto simp: tracks_def)
    have "\<exists>r2. rns_resource_apply_hashmap_update (page_update s (?k div 74)) r1 = (RNS_OK, r2) \<and>
        rc_known_hashes r1 < rc_known_hashes r2 \<and> rc_retries_used r2 = 0"
      using apply_page_update [OF r1 s(4,3) _ s(5), of "?k div 74"] k page(1,4)
        parse_page_update(2) [OF s(4,3) _ s(5), of "?k div 74"] by simp
    with serve_page [OF s(1,4,3) k(1) page(1-3)] page(5) show ?thesis unfolding answered_def by blast
  qed
qed

lemma receive_keeps_known: "rns_resource_receive_part P part r = (status, r') \<Longrightarrow> rc_known_hashes r' = rc_known_hashes r"
  by (auto simp: rns_resource_receive_part_def split: if_splits sum.splits option.splits)

lemma update_keeps_received: "rns_resource_apply_hashmap_update u r = (status, r') \<Longrightarrow> rc_received r' = rc_received r"
  by (auto simp: rns_resource_apply_hashmap_update_def Let_def split: if_splits sum.splits option.splits prod.splits)

lemma retry_keeps:
  assumes "rns_resource_build_retry_request capacity r = (x, r')"
  shows "rc_known_hashes r' = rc_known_hashes r \<and> rc_received r' = rc_received r"
proof -
  obtain y r1 where build: "rns_resource_build_request capacity (cleared r) = (y, r1)" by fastforce
  then have "rc_known_hashes r1 = rc_known_hashes r \<and> rc_received r1 = rc_received r"
    by (rule build_request_cases) (auto simp: cleared_def)
  then show ?thesis
    using assms build by (auto simp: rns_resource_build_retry_request_def Let_def cleared_def split: if_splits sum.splits)
qed

lemma answered_step:
  assumes "answered P s req r1"
  shows "\<exists>r2. transfer_step P bz s r1 r2 \<and> rc_retries_used r2 = 0 \<and>
           rc_received r1 + rc_known_hashes r1 < rc_received r2 + rc_known_hashes r2"
  using assms unfolding answered_def
proof (elim disjE exE conjE)
  fix "is" :: "nat list"
  assume "is \<noteq> []" and served: "\<forall>i \<in> set is. \<exists>part r2. rns_resource_sender_part s i = Inr part \<and>
           rns_resource_receive_part P part r1 = (RNS_OK, r2) \<and> rc_received r2 = rc_received r1 + 1 \<and> rc_retries_used r2 = 0"
  then obtain i where "i \<in> set is" by (cases "is") auto
  with served obtain part r2 where step: "rns_resource_sender_part s i = Inr part"
      "rns_resource_receive_part P part r1 = (RNS_OK, r2)" "rc_received r2 = rc_received r1 + 1" "rc_retries_used r2 = 0"
    by blast
  then show ?thesis
    using receive_keeps_known [OF step(2)] transfer_step.part [OF step(1,2)] by (intro exI [of _ r2]) simp
next
  fix u r2
  assume step: "rns_resource_sender_hashmap_update s req 334 = Inr u"
    "rns_resource_apply_hashmap_update u r1 = (RNS_OK, r2)" "rc_known_hashes r1 < rc_known_hashes r2" "rc_retries_used r2 = 0"
  then show ?thesis
    using update_keeps_received [OF step(2)] transfer_step.update [OF step(1,2)] by (intro exI [of _ r2]) simp
qed

lemma tracks_bound: "tracks s r \<Longrightarrow> rc_received r + rc_known_hashes r \<le> 2 * rs_parts s"
  using length_filter_le [of "\<lambda>p. p \<noteq> None" "rc_parts r"] by (simp add: tracks_def)

lemma completable:
  assumes "prepared P s"
  shows "tracks s r \<Longrightarrow> rc_retries_used r < 16 \<Longrightarrow>
           \<exists>r'. (transfer_step P bz s)\<^sup>*\<^sup>* r r' \<and> rns_resource_parts_complete r'"
proof (induction "2 * rs_parts s - (rc_received r + rc_known_hashes r)" arbitrary: r rule: less_induct)
  case less
  show ?case
  proof (cases "rns_resource_parts_complete r")
    case False
    obtain req r1 where retry: "rns_resource_build_retry_request 53 r = (Inr req, r1)" "answered P s req r1"
      using retry_answered [OF assms less.prems(1) False less.prems(2), of 53] by auto
    obtain r2 where r2: "transfer_step P bz s r1 r2" "rc_retries_used r2 = 0"
      "rc_received r1 + rc_known_hashes r1 < rc_received r2 + rc_known_hashes r2"
      using answered_step [OF retry(2)] by blast
    have steps: "transfer_step P bz s r r1" by (rule transfer_step.retry [OF retry(1)])
    have two: "(transfer_step P bz s)\<^sup>*\<^sup>* r r2"
      using rtranclp.rtrancl_into_rtrancl [of "transfer_step P bz s" r r1 r2, OF r_into_rtranclp] steps r2(1) by blast
    have "tracks s r2"
      using transfer.reachable_invariant [OF two] less.prems(1) assms by blast
    moreover from this have "2 * rs_parts s - (rc_received r2 + rc_known_hashes r2) <
        2 * rs_parts s - (rc_received r + rc_known_hashes r)"
      using tracks_bound r2(3) retry_keeps [OF retry(1)] by fastforce
    ultimately obtain r' where "(transfer_step P bz s)\<^sup>*\<^sup>* r2 r'" "rns_resource_parts_complete r'"
      using less.hyps [of r2] r2(2) by auto
    with rtranclp_trans [OF two] show ?thesis by blast
  qed auto
qed

text \<open>
  C36. A transfer never gets stuck: in every state a transfer with an honest sender can reach, as long
  as parts are missing and the retries are not used up, a retry request of at most 53 bytes can be
  built; the sender answers it with parts the receiver stores, each of them new, or with the next page
  of the map, which the receiver takes over; and there is a continuation that completes the transfer.
\<close>

theorem resource_progress:
  assumes "sha256_sound P" "random_sound P" "token_sound P" "sender_run P bz link s"
    and "rns_resource_sender_advertisement s cap = Inr out" "rns_resource_advertisement_parse out = Inr adv"
      "rns_resource_accept adv max_size = Inr r0" "(transfer_step P bz s)\<^sup>*\<^sup>* r0 r"
    and "\<not> rns_resource_parts_complete r" "rc_retries_used r < RNS_RESOURCE_MAX_RETRIES" "53 \<le> capacity"
  shows "(\<exists>req r1. rns_resource_build_retry_request capacity r = (Inr req, r1) \<and> answered P s req r1) \<and>
         (\<exists>r'. (transfer_step P bz s)\<^sup>*\<^sup>* r r' \<and> rns_resource_parts_complete r')"
proof -
  have s: "sender_wf s" "length (rs_hash s) = 32" "sender_ready P bz (lk_derived_key link) s"
    using sender_run_ready [OF assms(1-4)] by auto
  have prep: "prepared P s" by (rule ready_prepared [OF s(3,2)])
  have "adv = advertised s" using advertisement_read_back [OF s, of cap] assms(5,6) by auto
  then have "tracks s r0" using accept_tracks [OF s(3)] assms(7) by simp
  then have r: "tracks s r" using transfer.reachable_invariant [OF assms(8)] prep by blast
  show ?thesis using retry_answered [OF prep r assms(9-11)] completable [OF prep r assms(10)] by blast
qed

lemma sample_transfer_start:
  "\<exists>out r0. rns_resource_sender_advertisement sample_sender 431 = Inr out \<and>
     rns_resource_advertisement_parse out = Inr (advertised sample_sender) \<and>
     rns_resource_accept (advertised sample_sender) 0 = Inr r0 \<and> tracks sample_sender r0 \<and>
     \<not> rns_resource_parts_complete r0 \<and> rc_retries_used r0 = 0"
proof -
  note s = sender_run_ready [OF sample_provider_sound(1) sample_random sample_provider_sound(8) sample_sender_run]
  obtain out r0 where "rns_resource_sender_advertisement sample_sender 431 = Inr out"
      "rns_resource_advertisement_parse out = Inr (advertised sample_sender)"
      "rns_resource_accept (advertised sample_sender) 0 = Inr r0"
    using s advertisement_read_back [of sample_sender _ _ _ 431] advertised_accepted [of sample_sender _ _ _ 0] by blast
  moreover have "rc_received r0 = 0 \<and> rc_retries_used r0 = 0"
    using calculation(3) by (auto simp: rns_resource_accept_def Let_def split: if_splits option.splits)
  moreover have "tracks sample_sender r0" using accept_tracks s calculation(3) by blast
  moreover have "rs_parts sample_sender = 1" by (simp add: sample_sender_def)
  ultimately show ?thesis by (auto simp: tracks_def rns_resource_parts_complete_def)
qed

theorem resource_transfer_witness:
  "\<exists>r r' pr. rns_resource_assemble sample_provider None (Some sample_link) 10 r = (Inr [0x41], r') \<and>
     rns_resource_build_proof r' = Inr pr \<and>
     rns_resource_sender_validate_proof sample_provider sample_sender pr = RNS_OK"
proof -
  note laws = sample_provider_sound(1) sample_random sample_provider_sound(8)
  obtain out r0 where r0: "rns_resource_sender_advertisement sample_sender 431 = Inr out"
      "rns_resource_advertisement_parse out = Inr (advertised sample_sender)"
      "rns_resource_accept (advertised sample_sender) 0 = Inr r0" "tracks sample_sender r0" "rc_retries_used r0 = 0"
    using sample_transfer_start by blast
  have "prepared sample_provider sample_sender"
    using sender_run_ready [OF laws sample_sender_run] ready_prepared by blast
  then obtain r where r: "(transfer_step sample_provider None sample_sender)\<^sup>*\<^sup>* r0 r" "rns_resource_parts_complete r"
    using completable [of sample_provider sample_sender r0 None] r0(4,5) by auto
  have seg: "current_segment sample_sender = [0x41]"
    by (simp add: current_segment_def segment_source_length_def segment_offset_def sample_sender_def)
  have "bz_sound None" by (simp add: bz_sound_def)
  from resource_transfer [OF laws this sample_sender_run r0(1-3) r, of sample_link 10]
  show ?thesis by (auto simp: seg sample_link_def sample_provider_eval)
qed

theorem resource_progress_witness:
  "\<exists>r0 req r1 r'. rns_resource_accept (advertised sample_sender) 0 = Inr r0 \<and>
     rns_resource_build_retry_request 53 r0 = (Inr req, r1) \<and> answered sample_provider sample_sender req r1 \<and>
     (transfer_step sample_provider None sample_sender)\<^sup>*\<^sup>* r0 r' \<and> rns_resource_parts_complete r'"
proof -
  obtain out r0 where r0: "rns_resource_sender_advertisement sample_sender 431 = Inr out"
      "rns_resource_advertisement_parse out = Inr (advertised sample_sender)"
      "rns_resource_accept (advertised sample_sender) 0 = Inr r0" "\<not> rns_resource_parts_complete r0"
      "rc_retries_used r0 = 0"
    using sample_transfer_start by blast
  from resource_progress [OF sample_provider_sound(1) sample_random sample_provider_sound(8) sample_sender_run
      r0(1-3) rtranclp.rtrancl_refl r0(4), of 53] r0(3,5)
  show ?thesis by auto
qed

end
