(* ===== verification/Spec2Isabelle.thy ===== *)
theory Spec2Isabelle
  imports Framing Packet Announce Packet_Proof Ifac Radio_Framing Transport_Routes Path_Store Buffer Channel Request Resource_Transfer
begin

text \<open>
  Reticulum Native: the protocol core of a Reticulum network stack in C, modelled function by
  function and verified.

  \<^bold>\<open>The program.\<close> Bytes arrive on interfaces, are cut into frames (\<^verbatim>\<open>src/interfaces/framing.c\<close>,
  \<^verbatim>\<open>src/interfaces/radio_framing.c\<close>), checked against the credentials of the interface
  (\<^verbatim>\<open>src/transport/ifac.c\<close>) and decoded to packets (\<^verbatim>\<open>src/packet/packet.c\<close>). Destinations are
  identities (\<^verbatim>\<open>src/identity/identity.c\<close>, \<^verbatim>\<open>src/destination/destination.c\<close>) that announce themselves
  (\<^verbatim>\<open>src/announce/announce.c\<close>); the transport tables (\<^verbatim>\<open>src/transport/transport.c\<close>) learn paths from
  announces, drop repeated packets, return proofs (\<^verbatim>\<open>src/transport/proof.c\<close>) along reverse paths and
  carry links, and survive a restart as snapshots (\<^verbatim>\<open>src/transport/path_store.c\<close>) in checksummed,
  journalled records (\<^verbatim>\<open>src/platform/storage_record.c\<close>). Over a link (\<^verbatim>\<open>src/link/link.c\<close>) run channels
  (\<^verbatim>\<open>src/link/channel.c\<close>), requests (\<^verbatim>\<open>src/link/request.c\<close>) and resources (\<^verbatim>\<open>src/link/resource.c\<close>). All
  cryptography goes through an exchangeable provider (\<^verbatim>\<open>src/crypto/provider.c\<close>), one of which uses
  OpenSSL (\<^verbatim>\<open>src/crypto/crypto.c\<close>).

  \<^bold>\<open>The theories.\<close>
  \<^item> \<open>Prelude\<close>: bytes, words, doubles and status codes; big-endian numbers, table searches, and the
    locales that components interpret (codecs that read back what they write, invariants of steps).
  \<^item> \<open>Framing\<close>: HDLC and KISS encoders and decoders with their callbacks. Streams of frames are read
    back frame by frame; after any garbage the next HDLC frame is delivered; a KISS data frame for
    port 12 is never read back as sent.
  \<^item> \<open>Crypto\<close>: the provider table, the dispatching functions, HKDF and the token format over the
    OpenSSL primitives. HKDF is that of RFC 5869, tokens decrypt to what was encrypted.
  \<^item> \<open>Packet\<close>, \<open>Identity\<close>, \<open>Announce\<close>, \<open>Packet_Proof\<close>, \<open>Ifac\<close>: the message formats and their keys.
    Encoding and decoding are inverse, up to the access bit, an unsent transport id and packets
    without data; what is signed verifies, and what verifies was signed over the
    fields that are used.
  \<^item> \<open>Radio_Framing\<close>: splitting of packets for a radio and their reassembly with its sequence guard.
  \<^item> \<open>Transport\<close> (the operations), \<open>Transport_Tables\<close> (paths and the packet filter) and
    \<open>Transport_Routes\<close> (reverse paths, links, transactions, path requests): the invariant of the tables over
    every sequence of operations, what a lookup finds after an announce, when a repeated packet is
    recognised, how a link is established and used, and that a rolled back transaction leaves no trace.
  \<^item> \<open>Checksum\<close>, \<open>Storage_Record\<close>, \<open>Path_Store\<close>: a record is read back, a damaged one refused, the
    two-slot journal survives interruption, a snapshot restores the live paths.
  \<^item> \<open>Buffer\<close>: the growing buffer implements a byte string.
  \<^item> \<open>Link\<close>, \<open>Channel\<close>, \<open>Request\<close>: the handshake agrees on keys; a channel delivers in order, each message
    once, and its sender never has more unacknowledged messages than its window allows; the MessagePack
    recogniser accepts exactly the objects of the format without sized extensions, at a cost bounded by
    the input, and requests and responses are read back.
  \<^item> \<open>Resource\<close> (the operations), \<open>Resource_Sender\<close> and \<open>Resource_Transfer\<close>: the advertisement is read
    back, what a receiver assembles is what was sent, and a transfer never gets stuck.
  \<^item> This theory: packets that are encoded, protected and framed to one stream come out of the stream
    as they were sent.

  \<^bold>\<open>How the code is read.\<close> A struct is a record with the fields of the struct, prefixed by its kind
  (\<open>tr_\<close> for \<^verbatim>\<open>rns_transport\<close>, \<open>rc_\<close> for \<^verbatim>\<open>rns_resource\<close> and so on), an enumeration a datatype. A function
  keeps its name and takes the state it changes as its last arguments, returning it updated. A
  function that returns \<^verbatim>\<open>rns_status_t\<close> and a result returns \<open>rns_status + 'a\<close>; where the state also
  changes on failure, a pair of the status and the state. A function that returns a success flag
  returns an option, or a pair of the flag and the state where the state changes on failure. A pointer that may be null is an option; mandatory pointers are values, so that
  the checks for null arguments have no counterpart. A fixed array or an array with its length is a
  list, a table a list of slots; an output buffer is its capacity. Unsigned integers keep their
  width as words; \<^verbatim>\<open>size_t\<close> is a natural number with the overflow checks of the code against
  \<open>SIZE_MAX\<close>. A double is a rational or one of the special values, and every arithmetic operation
  takes the rounding function as a parameter; its memory image is a pair of parameters. The clock is
  the reading an operation takes. A callback acts on an explicit context. Memory allocation succeeds, except in
  \<open>Buffer\<close>, where the allocator is a parameter.

  \<^bold>\<open>Parameters and their laws.\<close> OpenSSL, bzip2 and the random source are parameters; what the code
  relies on is a named predicate (\<open>sha256_sound\<close>, \<open>token_sound\<close>, \<open>exchange_sound\<close>, \<open>signature_sound\<close>,
  \<open>random_sound\<close>, \<open>bz_sound\<close> and others) that states sizes and algebraic laws, never secrecy. Each of them holds for the
  simple provider of \<open>Crypto\<close>, at which the witnesses evaluate.

  \<^bold>\<open>Loops.\<close> Every loop is a total function. The growth loop of the buffer, the delivery loop of a
  channel and the recursion of the MessagePack recogniser have termination proofs: by the distance to
  the required size, the number of occupied slots, and the depth limit of 32 with the number of
  children. The eight attempts to prepare a segment are the bound of the code.

  \<^bold>\<open>Not modelled.\<close> The drivers of interfaces (serial ports, sockets, radios), the runtime with its
  event loop, the node dispatch and registry, configuration files, the ratchet files, the platform
  layer, the applications (messaging, pages, chat, terminal interface) and the firmware: they are
  input and output around the protocol core, or programs on top of it. Timing of real executions,
  concurrency between threads, and the secrecy and unforgeability of the cryptography are outside
  the model.
\<close>

section \<open>From packets to a stream and back\<close>

text \<open>
  The way of a packet through the lower layers: encoded, protected with the credentials of the
  interface, framed, concatenated to a stream, cut into frames again, unprotected and decoded.
\<close>

definition receive_frame ::
  "'r rns_crypto_provider option \<Rightarrow> rns_ifac \<Rightarrow> bytes \<Rightarrow> rns_packet option list \<Rightarrow> rns_status \<times> rns_packet option list" where
  "receive_frame P ifac frame =
     log_frame (Option.bind (rns_ifac_unprotect P ifac frame (length frame)) rns_packet_decode)"

lemma deliver_all_receive:
  "deliver_all (receive_frame P ifac) frames got =
     (RNS_OK, got @ map (\<lambda>f. Option.bind (rns_ifac_unprotect P ifac f (length f)) rns_packet_decode) frames)"
  by (induction frames arbitrary: got) (simp_all add: receive_frame_def)

text \<open>
  Whatever packets with data are sent this way, a receiver with the same credentials and a ready
  decoder gets exactly these packets, in order, and its decoder is ready again.
\<close>

theorem packets_over_protected_stream:
  assumes "hkdf_sound P" "signature_size P" "ifac_valid ifac" and "hdlc_ready d"
    and "\<forall>p \<in> set ps. packet_typed p \<and> pkt_data p \<noteq> [] \<and>
           rns_packet_encode p RNS_MTU = Some (raw p) \<and>
           rns_ifac_protect P ifac (raw p) (hdlc_capacity d) = Some (pr p) \<and>
           rns_hdlc_encode (pr p) cap = Inr (wire p)"
    and "0 < hdlc_capacity d"
  shows "\<exists>d'. rns_hdlc_decoder_feed (receive_frame P ifac) (concat (map wire ps)) d [] =
           (RNS_OK, d', map (Some \<circ> transmitted) ps) \<and> hdlc_ready d'"
proof -
  have one: "wire p = hdlc_wire (pr p) \<and> pr p \<noteq> [] \<and> length (pr p) \<le> hdlc_capacity d \<and>
      Option.bind (rns_ifac_unprotect P ifac (pr p) (length (pr p))) rns_packet_decode = Some (transmitted p)"
    if "p \<in> set ps" for p
  proof -
    have p: "packet_typed p" "rns_packet_encode p RNS_MTU = Some (raw p)" "pkt_data p \<noteq> []"
      and protected: "rns_ifac_protect P ifac (raw p) (hdlc_capacity d) = Some (pr p)"
      and framed: "rns_hdlc_encode (pr p) cap = Inr (wire p)"
      using assms(5) that by auto
    note sent = rns_packet_decode_encoded [OF p]
    note size = ifac_protected_length [OF assms(1-3) protected]
    have "rns_ifac_unprotect P ifac (pr p) (length (pr p)) = Some (raw p)"
      using sent by (intro ifac_unprotect_protected [OF assms(1-3) protected]) simp_all
    moreover have "wire p = hdlc_wire (pr p)" using framed by (simp add: rns_hdlc_encode_eq split: if_splits)
    moreover have "pr p \<noteq> []" using size sent by auto
    ultimately show ?thesis using size sent by simp
  qed
  have "concat (map wire ps) = concat (map hdlc_wire (map pr ps))"
    using one by (simp cong: map_cong)
  moreover have "\<forall>f \<in> set (map pr ps). f \<noteq> [] \<and> length f \<le> hdlc_capacity d" using one by simp
  ultimately obtain d' where "rns_hdlc_decoder_feed (receive_frame P ifac) (concat (map wire ps)) d [] =
      (RNS_OK, d', map (\<lambda>f. Option.bind (rns_ifac_unprotect P ifac f (length f)) rns_packet_decode) (map pr ps))"
      "hdlc_ready d'"
    using hdlc_frames.feed_stream [OF assms(4), of "map pr ps" "receive_frame P ifac" "[]"] assms(6)
    unfolding deliver_all_receive by (auto simp: rns_hdlc_decoder_feed_def)
  moreover have "map (\<lambda>f. Option.bind (rns_ifac_unprotect P ifac f (length f)) rns_packet_decode) (map pr ps) =
      map (Some \<circ> transmitted) ps"
    using one by simp
  ultimately show ?thesis by auto
qed

end
